(* ===== verification/Prelude.thy ===== *)
theory Prelude
  imports Main "HOL-Library.Multiset" "HOL-Library.Word" "HOL-Library.Signed_Division"
begin

text \<open>
  Shared vocabulary of the development: the machine types of the Go code, the outcome of a
  computation that may panic or fail to return, loops over such computations with their
  total-correctness rules, the readings of the clock, the iteration order of Go maps and the
  condition variables.

  \<^item> An \<open>int64\<close> is a 64-bit word; a \<open>time\<close> is a number of nanoseconds since the Unix epoch
    and a \<open>duration\<close> a number of nanoseconds.
  \<^item> \<open>clock\<close> is the sequence of values that successive calls of \<open>time.Now()\<close> return.
  \<^item> \<open>order\<close> is the sequence of permutations in which successive \<open>range\<close> loops visit a map:
    Go leaves the order open, and every theorem holds for every order.
\<close>

section \<open>Machine types\<close>

type_synonym int64 = "64 word"

type_synonym time = int

type_synonym duration = int

abbreviation second :: duration where "second \<equiv> 1000000000"

abbreviation minute :: duration where "minute \<equiv> 60000000000"

abbreviation hour :: duration where "hour \<equiv> 3600000000000"

text \<open>The zero \<open>time.Time\<close> is the first of January of the year 1.\<close>

definition zero_time :: time where
  "zero_time = - 62135596800 * second"

section \<open>Outcomes\<close>

datatype panic = NilDereference | NilMapWrite | IndexOutOfRange | AlreadyManaged

text \<open>
  A computation returns, panics, or (a recursion bounded by fuel) is cut off.
  \<open>bindO\<close> sequences two computations, so a panic ends the operation as it does in Go.
\<close>

datatype 'a outcome = Done 'a | Panic panic | OutOfFuel

primrec bindO :: "'a outcome \<Rightarrow> ('a \<Rightarrow> 'b outcome) \<Rightarrow> 'b outcome" where
  "bindO (Done x) f = f x"
| "bindO (Panic p) f = Panic p"
| "bindO OutOfFuel f = OutOfFuel"

primrec foldO :: "('x \<Rightarrow> 's \<Rightarrow> 's outcome) \<Rightarrow> 'x list \<Rightarrow> 's \<Rightarrow> 's outcome" where
  "foldO f [] s = Done s"
| "foldO f (x # xs) s = bindO (f x s) (foldO f xs)"

text \<open>\<open>returns m P\<close>: the computation returns, with a result that satisfies \<open>P\<close>.\<close>

primrec returns :: "'a outcome \<Rightarrow> ('a \<Rightarrow> bool) \<Rightarrow> bool" where
  "returns (Done x) P = P x"
| "returns (Panic p) P = False"
| "returns OutOfFuel P = False"

lemma returns_bindO [simp]: "returns (bindO m f) P = returns m (\<lambda>x. returns (f x) P)"
  by (cases m) simp_all

lemma bindO_Done_iff: "bindO m f = Done y \<longleftrightarrow> (\<exists>x. m = Done x \<and> f x = Done y)"
  by (cases m) auto

lemma returns_mono: "returns m P \<Longrightarrow> (\<And>x. P x \<Longrightarrow> Q x) \<Longrightarrow> returns m Q"
  by (cases m) simp_all

lemma returns_conj: "returns m P \<Longrightarrow> returns m Q \<Longrightarrow> returns m (\<lambda>x. P x \<and> Q x)"
  by (cases m) simp_all

lemma returns_iff: "returns m P \<longleftrightarrow> (\<exists>x. m = Done x \<and> P x)"
  by (cases m) simp_all

lemma returns_DoneD: "returns m P \<Longrightarrow> m = Done x \<Longrightarrow> P x"
  by simp

lemma returns_if [simp]:
  "returns (if b then m else m') P = (if b then returns m P else returns m' P)"
  by simp

lemma bindO_assoc: "bindO (bindO m f) g = bindO m (\<lambda>x. bindO (f x) g)"
  by (cases m) simp_all

text \<open>
  The rule for a loop: an invariant that speaks of the elements still to be visited.
\<close>

lemma returns_foldO:
  assumes "I xs s"
    and "\<And>x ys s. x \<in> set xs \<Longrightarrow> I (x # ys) s \<Longrightarrow> returns (f x s) (I ys)"
  shows "returns (foldO f xs s) (I [])"
  using assms
proof (induction xs arbitrary: s)
  case Nil
  then show ?case by simp
next
  case (Cons x xs)
  have "returns (f x s) (I xs)"
    using Cons.prems by simp
  then show ?case
    by (simp, rule returns_mono) (rule Cons.IH, use Cons.prems in auto)
qed

lemma returns_foldO_inv:
  assumes "I s" and "\<And>x s. x \<in> set xs \<Longrightarrow> I s \<Longrightarrow> returns (f x s) I"
  shows "returns (foldO f xs s) I"
  using returns_foldO [of "\<lambda>_. I" xs s f] assms by simp

section \<open>The clock, map order and condition variables\<close>

type_synonym clock = "nat \<Rightarrow> time"

abbreviation (input) reading :: "clock \<Rightarrow> time" where "reading c \<equiv> c 0"

definition next_reading :: "clock \<Rightarrow> clock" where
  "next_reading c = (\<lambda>n. c (Suc n))"

definition monotonic :: "clock \<Rightarrow> bool" where
  "monotonic c \<longleftrightarrow> (\<forall>i j. i \<le> j \<longrightarrow> c i \<le> c j)"

lemma monotonic_next [intro, simp]: "monotonic c \<Longrightarrow> monotonic (next_reading c)"
  by (simp add: monotonic_def next_reading_def)

lemma reading_le_next: "monotonic c \<Longrightarrow> reading c \<le> reading (next_reading c)"
  by (simp add: monotonic_def next_reading_def)

type_synonym order = "nat \<Rightarrow> nat list \<Rightarrow> nat list"

definition next_order :: "order \<Rightarrow> order" where
  "next_order r = (\<lambda>n. r (Suc n))"

definition permutes_keys :: "order \<Rightarrow> bool" where
  "permutes_keys r \<longleftrightarrow> (\<forall>n ks. mset (r n ks) = mset ks)"

lemma permutes_keys_next [intro, simp]: "permutes_keys r \<Longrightarrow> permutes_keys (next_order r)"
  by (simp add: permutes_keys_def next_order_def)

lemma permutes_keys_set [simp]: "permutes_keys r \<Longrightarrow> set (r n ks) = set ks"
  by (metis permutes_keys_def set_mset_mset)

lemma permutes_keys_distinct [simp]: "permutes_keys r \<Longrightarrow> distinct (r n ks) = distinct ks"
  by (metis permutes_keys_def mset_eq_imp_distinct_iff)

text \<open>
  A condition variable of \<open>cvs\<close> is a number with the flag "has been signalled";
  \<open>Broadcast\<close> on every registered variable sets every flag.
\<close>

type_synonym condvars = "(nat \<times> bool) list"

definition broadcast :: "condvars \<Rightarrow> condvars" where
  "broadcast cvs = map (\<lambda>(k, _). (k, True)) cvs"

lemma broadcast_keys [simp]: "map fst (broadcast cvs) = map fst cvs"
  by (simp add: broadcast_def case_prod_beta comp_def)

lemma broadcast_signalled: "(k, b) \<in> set (broadcast cvs) \<Longrightarrow> b"
  by (auto simp: broadcast_def)

section \<open>Lists used as maps from a key to \<open>bool\<close>\<close>

text \<open>Go's \<open>m[k] = true\<close> and \<open>delete(m, k)\<close> on a \<open>map[K]bool\<close> of which only the keys count.\<close>

abbreviation add_key :: "'k \<Rightarrow> 'k list \<Rightarrow> 'k list" where
  "add_key \<equiv> List.insert"

abbreviation delete_key :: "'k \<Rightarrow> 'k list \<Rightarrow> 'k list" where
  "delete_key \<equiv> removeAll"

lemma length_filter_mono:
  "(\<And>x. x \<in> set xs \<Longrightarrow> P x \<Longrightarrow> Q x) \<Longrightarrow> length (filter P xs) \<le> length (filter Q xs)"
  by (induction xs) (auto simp: le_SucI)

lemma length_filter_strict:
  "(\<And>x. x \<in> set xs \<Longrightarrow> P x \<Longrightarrow> Q x) \<Longrightarrow> y \<in> set xs \<Longrightarrow> Q y \<Longrightarrow> \<not> P y \<Longrightarrow>
   length (filter P xs) < length (filter Q xs)"
proof (induction xs)
  case Nil
  then show ?case by simp
next
  case (Cons x xs)
  have "length (filter P xs) \<le> length (filter Q xs)"
    using Cons.prems(1) by (intro length_filter_mono) simp
  then show ?case
    using Cons by (auto simp: less_Suc_eq_le)
qed

lemma find_SomeD: "find Q xs = Some x \<Longrightarrow> x \<in> set xs \<and> Q x"
  by (auto simp: find_Some_iff)

end
