(* ===== verification/GoStrings.thy ===== *)
theory GoStrings
  imports Prelude
begin

text \<open>
  The functions of Go's \<open>strings\<close> and \<open>strconv\<close> packages that govisor calls, on strings as
  lists of bytes: trimming newlines, splitting at a separator, base 16 integers (the serial
  numbers of ETags), decimal integers and the padding verbs of \<open>fmt\<close>.
\<close>

section \<open>Trim, Split and SplitN\<close>

abbreviation newline :: char where "newline \<equiv> CHR 0x0A"

definition trim_newlines :: "string \<Rightarrow> string" where
  "trim_newlines s = rev (dropWhile ((=) newline) (rev (dropWhile ((=) newline) s)))"

fun split_at :: "char \<Rightarrow> string \<Rightarrow> string list" where
  "split_at c [] = [[]]"
| "split_at c (x # xs) =
     (if x = c then [] # split_at c xs
      else (case split_at c xs of [] \<Rightarrow> [[x]] | w # ws \<Rightarrow> (x # w) # ws))"

definition split2 :: "char \<Rightarrow> string \<Rightarrow> string list" where
  "split2 c s =
     (case dropWhile (\<lambda>x. x \<noteq> c) s of
        [] \<Rightarrow> [s]
      | _ # rest \<Rightarrow> [takeWhile (\<lambda>x. x \<noteq> c) s, rest])"

fun join_with :: "char \<Rightarrow> string list \<Rightarrow> string" where
  "join_with c [] = []"
| "join_with c [w] = w"
| "join_with c (w # v # ws) = w @ c # join_with c (v # ws)"

lemma split_at_nonempty [simp]: "split_at c s \<noteq> []"
  by (induction s) (auto split: list.splits)

lemma length_split_at_pos [simp]: "0 < length (split_at c s)"
  by simp

lemma split_at_no_sep: "w \<in> set (split_at c s) \<Longrightarrow> c \<notin> set w"
  by (induction s arbitrary: w) (auto split: list.splits if_splits)

lemma split_at_id [simp]: "c \<notin> set s \<Longrightarrow> split_at c s = [s]"
  by (induction s) auto

lemma join_split_at: "join_with c (split_at c s) = s"
proof (induction s)
  case Nil
  then show ?case by simp
next
  case (Cons x xs)
  obtain w ws where w: "split_at c xs = w # ws"
    by (cases "split_at c xs") simp_all
  then show ?case
    using Cons.IH by (cases ws) auto
qed

lemma split_join:
  "ws \<noteq> [] \<Longrightarrow> (\<And>w. w \<in> set ws \<Longrightarrow> c \<notin> set w) \<Longrightarrow> split_at c (join_with c ws) = ws"
proof (induction c ws rule: join_with.induct)
  case (3 c w v ws)
  have "split_at c (w @ c # join_with c (v # ws)) = w # split_at c (join_with c (v # ws))"
    if "c \<notin> set w" for w
    using that by (induction w) auto
  then show ?case
    using 3 by simp
qed simp_all

lemma dropWhile_newline_id: "newline \<notin> set s \<Longrightarrow> dropWhile ((=) newline) s = s"
  by (cases s) auto

lemma trim_newlines_id [simp]: "newline \<notin> set s \<Longrightarrow> trim_newlines s = s"
  by (simp add: trim_newlines_def dropWhile_newline_id)

lemma trim_newlines_snoc [simp]: "newline \<notin> set s \<Longrightarrow> trim_newlines (s @ [newline]) = s"
proof (cases s)
  case (Cons x xs)
  assume "newline \<notin> set s"
  with Cons have "dropWhile ((=) newline) (s @ [newline]) = s @ [newline]" by auto
  then show ?thesis
    using \<open>newline \<notin> set s\<close> by (simp add: trim_newlines_def dropWhile_newline_id)
qed (simp add: trim_newlines_def)

text \<open>The lines of a text handed to an \<open>io.Writer\<close>: trimmed, then split.\<close>

definition text_lines :: "string \<Rightarrow> string list" where
  "text_lines s = split_at newline (trim_newlines s)"

lemma text_lines_nonempty [simp]: "text_lines s \<noteq> []"
  by (simp add: text_lines_def)

lemma text_lines_no_newline: "w \<in> set (text_lines s) \<Longrightarrow> newline \<notin> set w"
  by (simp add: text_lines_def split_at_no_sep)

lemma text_lines_single [simp]: "newline \<notin> set s \<Longrightarrow> text_lines (s @ [newline]) = [s]"
  by (simp add: text_lines_def)

lemma split2_cases:
  "split2 c s = (if c \<in> set s then [takeWhile (\<lambda>x. x \<noteq> c) s, tl (dropWhile (\<lambda>x. x \<noteq> c) s)] else [s])"
proof (cases "dropWhile (\<lambda>x. x \<noteq> c) s")
  case Nil
  moreover from this have "c \<notin> set s" by (auto simp: dropWhile_eq_Nil_conv)
  ultimately show ?thesis by (simp add: split2_def del: dropWhile_eq_Nil_conv)
next
  case (Cons y ys)
  then have "dropWhile (\<lambda>x. x \<noteq> c) s \<noteq> []" by simp
  then have "c \<in> set s" by auto
  with Cons show ?thesis by (simp add: split2_def)
qed

lemma split2_hd: "split2 c s ! 0 = takeWhile (\<lambda>x. x \<noteq> c) s"
  by (auto simp: split2_cases intro!: takeWhile_eq_all_conv [THEN iffD2, symmetric])

lemma split2_length: "length (split2 c s) = (if c \<in> set s then 2 else 1)"
  by (simp add: split2_cases)

lemma split2_inj:
  assumes "split2 c s = split2 c t"
  shows "s = t"
proof -
  have *: "s = takeWhile (\<lambda>x. x \<noteq> c) s @ c # tl (dropWhile (\<lambda>x. x \<noteq> c) s)" if "c \<in> set s" for s
  proof -
    have "dropWhile (\<lambda>x. x \<noteq> c) s = c # tl (dropWhile (\<lambda>x. x \<noteq> c) s)"
      using that by (induction s) auto
    then show ?thesis by (metis takeWhile_dropWhile_id)
  qed
  show ?thesis
    using assms *[of s] *[of t] by (auto simp: split2_cases split: if_splits)
qed

section \<open>Base 16 integers: FormatInt and ParseInt\<close>

definition hex_digit :: "nat \<Rightarrow> char" where
  "hex_digit d = ''0123456789abcdef'' ! d"

fun hex_of_nat :: "nat \<Rightarrow> string" where
  "hex_of_nat n = (if n < 16 then [hex_digit n] else hex_of_nat (n div 16) @ [hex_digit (n mod 16)])"

declare hex_of_nat.simps [simp del]

definition format_int16 :: "int \<Rightarrow> string" where
  "format_int16 i = (if i < 0 then CHR ''-'' # hex_of_nat (nat (- i)) else hex_of_nat (nat i))"

definition hex_value :: "char \<Rightarrow> nat option" where
  "hex_value c =
     (let k = of_char c :: nat
      in if 48 \<le> k \<and> k \<le> 57 then Some (k - 48)
         else if 97 \<le> k \<and> k \<le> 102 then Some (k - 87)
         else if 65 \<le> k \<and> k \<le> 70 then Some (k - 55)
         else None)"

fun hex_digits_value :: "nat \<Rightarrow> string \<Rightarrow> nat option" where
  "hex_digits_value acc [] = Some acc"
| "hex_digits_value acc (c # cs) =
     (case hex_value c of None \<Rightarrow> None | Some d \<Rightarrow> hex_digits_value (16 * acc + d) cs)"

definition hex_to_nat :: "string \<Rightarrow> nat option" where
  "hex_to_nat s = (if s = [] then None else hex_digits_value 0 s)"

text \<open>\<open>ParseInt(s, 16, 64)\<close>: an optional sign, one digit or more, and the range of \<open>int64\<close>.\<close>

definition parse_int16 :: "string \<Rightarrow> int option" where
  "parse_int16 s =
     (case s of
        [] \<Rightarrow> None
      | c # cs \<Rightarrow>
          if c = CHR ''-'' then
            (case hex_to_nat cs of
               None \<Rightarrow> None
             | Some n \<Rightarrow> if n \<le> 2 ^ 63 then Some (- int n) else None)
          else
            (case hex_to_nat (if c = CHR ''+'' then cs else s) of
               None \<Rightarrow> None
             | Some n \<Rightarrow> if n < 2 ^ 63 then Some (int n) else None))"

lemma hex_digits_ok:
  "\<forall>d \<in> set [0..<16]. hex_value (hex_digit d) = Some d \<and> hex_digit d \<noteq> CHR ''-'' \<and> hex_digit d \<noteq> CHR ''+''"
  by code_simp

lemma hex_value_digit [simp]: "d < 16 \<Longrightarrow> hex_value (hex_digit d) = Some d"
  using hex_digits_ok by simp

lemma hex_digit_not_sign [simp]:
  "d < 16 \<Longrightarrow> hex_digit d \<noteq> CHR ''-''" "d < 16 \<Longrightarrow> hex_digit d \<noteq> CHR ''+''"
  using hex_digits_ok by simp_all

lemma hex_of_nat_nonempty [simp]: "hex_of_nat n \<noteq> []"
  by (subst hex_of_nat.simps) simp

lemma hex_of_nat_hd:
  "hd (hex_of_nat n) \<noteq> CHR ''-'' \<and> hd (hex_of_nat n) \<noteq> CHR ''+''"
proof (induction n rule: hex_of_nat.induct)
  case (1 n)
  then show ?case
    by (subst (1 2) hex_of_nat.simps) (auto simp: hd_append)
qed

lemma hex_digits_value_append:
  "hex_digits_value acc (s @ t) =
     (case hex_digits_value acc s of None \<Rightarrow> None | Some v \<Rightarrow> hex_digits_value v t)"
  by (induction s arbitrary: acc) (auto split: option.splits)

lemma hex_digits_value_hex_of_nat: "hex_digits_value 0 (hex_of_nat n) = Some n"
proof (induction n rule: hex_of_nat.induct)
  case (1 n)
  show ?case
  proof (cases "n < 16")
    case True
    then show ?thesis by (subst hex_of_nat.simps) simp
  next
    case False
    with 1 show ?thesis
      by (subst hex_of_nat.simps) (simp add: hex_digits_value_append)
  qed
qed

lemma hex_to_nat_hex_of_nat [simp]: "hex_to_nat (hex_of_nat n) = Some n"
  by (simp add: hex_to_nat_def hex_digits_value_hex_of_nat)

lemma parse_format_int16:
  assumes "- (2 ^ 63) \<le> i" and "i < 2 ^ 63"
  shows "parse_int16 (format_int16 i) = Some i"
proof (cases "i < 0")
  case True
  then show ?thesis
    using assms by (simp add: parse_int16_def format_int16_def nat_le_iff)
next
  case False
  obtain c cs where c: "hex_of_nat (nat i) = c # cs"
    by (cases "hex_of_nat (nat i)") simp_all
  have "hex_to_nat (c # cs) = Some (nat i)"
    using c hex_to_nat_hex_of_nat [of "nat i"] by simp
  moreover have "c \<noteq> CHR ''-''" "c \<noteq> CHR ''+''"
    using hex_of_nat_hd [of "nat i"] c by auto
  ultimately show ?thesis
    using False assms c by (simp add: parse_int16_def format_int16_def nat_less_iff)
qed

lemma parse_format_serial:
  "parse_int16 (format_int16 (sint (n :: int64))) = Some (sint n)"
  using sint_range_size [of n] by (intro parse_format_int16) (simp_all add: word_size)

lemma format_int16_inj:
  "format_int16 (sint (m :: int64)) = format_int16 (sint n) \<longleftrightarrow> m = n"
  by (metis parse_format_serial option.inject signed_word_eqI)

lemma format_int16_nonempty [simp]: "format_int16 i \<noteq> []"
  by (simp add: format_int16_def)

section \<open>Decimal integers and padding\<close>

fun dec_of_nat :: "nat \<Rightarrow> string" where
  "dec_of_nat n =
     (if n < 10 then [char_of (48 + n)] else dec_of_nat (n div 10) @ [char_of (48 + n mod 10)])"

declare dec_of_nat.simps [simp del]

definition dec_of_int :: "int \<Rightarrow> string" where
  "dec_of_int i = (if i < 0 then CHR ''-'' # dec_of_nat (nat (- i)) else dec_of_nat (nat i))"

text \<open>\<open>%-ns\<close>, \<open>%ns\<close> and \<open>%02d\<close>.\<close>

definition pad_right :: "nat \<Rightarrow> string \<Rightarrow> string" where
  "pad_right n s = s @ replicate (n - length s) (CHR '' '')"

definition pad_left :: "nat \<Rightarrow> string \<Rightarrow> string" where
  "pad_left n s = replicate (n - length s) (CHR '' '') @ s"

definition zero_pad2 :: "int \<Rightarrow> string" where
  "zero_pad2 i =
     (let ds = dec_of_nat (nat \<bar>i\<bar>); w = (if i < 0 then 1 else 2)
      in (if i < 0 then [CHR ''-''] else []) @ replicate (w - length ds) (CHR ''0'') @ ds)"

lemma length_pad_right: "length (pad_right n s) = max n (length s)"
  by (simp add: pad_right_def)

lemma length_pad_left: "length (pad_left n s) = max n (length s)"
  by (simp add: pad_left_def)

text \<open>
  The verb \<open>%q\<close>: quotes, and escapes for quotes, backslashes and control characters.  A byte of 128 and more is left
  as it is (Go escapes it when it does not belong to a printable rune).
\<close>

definition escaped :: "char \<Rightarrow> string" where
  "escaped c =
     (let n = of_char c :: nat; bs = CHR 0x5C
      in if c = bs \<or> n = 34 then [bs, c]
         else case map_of (zip [7, 8, 9, 10, 11, 12, 13] ''abtnvfr'') n of
                Some e \<Rightarrow> [bs, e]
              | None \<Rightarrow> if n < 32 \<or> n = 127 then [bs, CHR ''x'', hex_digit (n div 16), hex_digit (n mod 16)] else [c])"

definition quoted :: "string \<Rightarrow> string" where
  "quoted s = [CHR 0x22] @ concat (map escaped s) @ [CHR 0x22]"

end
