(* ===== verification/LogRing.thy ===== *)
theory LogRing
  imports GoStrings
begin

text \<open>
  The in-memory log of \<open>log.go\<close>: a ring buffer of at most \<open>maxRecords\<close> records with a
  running identifier that serves as ETag.  The promise of the component, that it keeps the
  newest records in the order they were written, is the locale \<open>bounded_log\<close> over any
  implementation; the ring buffer interprets it.
\<close>

section \<open>What a bounded log promises\<close>

definition last_n :: "nat \<Rightarrow> 'a list \<Rightarrow> 'a list" where
  "last_n n xs = drop (length xs - n) xs"

lemma last_n_short [simp]: "length xs \<le> n \<Longrightarrow> last_n n xs = xs"
  by (simp add: last_n_def)

lemma length_last_n [simp]: "length (last_n n xs) = min n (length xs)"
  by (simp add: last_n_def)

lemma map_last_n: "map f (last_n n xs) = last_n n (map f xs)"
  by (simp add: last_n_def drop_map)

lemma last_n_append_last_n: "last_n n (last_n n xs @ ys) = last_n n (xs @ ys)"
  by (cases "n \<le> length xs") (auto simp: last_n_def add.commute)

lemma last_n_suffix: "\<exists>ys. xs = ys @ last_n n xs"
  unfolding last_n_def by (metis append_take_drop_id)

locale bounded_log =
  fixes append_record :: "'r \<Rightarrow> 's \<Rightarrow> 's"
    and stored :: "'s \<Rightarrow> 'r list"
    and capacity :: "'s \<Rightarrow> nat"
    and well_formed :: "'s \<Rightarrow> bool"
  assumes append_well_formed: "well_formed s \<Longrightarrow> well_formed (append_record r s)"
    and append_capacity: "well_formed s \<Longrightarrow> capacity (append_record r s) = capacity s"
    and append_stored: "well_formed s \<Longrightarrow>
      stored (append_record r s) = last_n (capacity s) (stored s @ [r])"
    and stored_bounded: "well_formed s \<Longrightarrow> length (stored s) \<le> capacity s"
begin

lemma fold_well_formed: "well_formed s \<Longrightarrow> well_formed (fold append_record rs s)"
  by (induction rs arbitrary: s) (simp_all add: append_well_formed)

lemma fold_capacity: "well_formed s \<Longrightarrow> capacity (fold append_record rs s) = capacity s"
  by (induction rs arbitrary: s) (simp_all add: append_well_formed append_capacity)

lemma fold_stored:
  "well_formed s \<Longrightarrow> stored (fold append_record rs s) = last_n (capacity s) (stored s @ rs)"
proof (induction rs arbitrary: s)
  case Nil
  then show ?case by (simp add: stored_bounded)
next
  case (Cons r rs)
  then show ?case
    by (simp add: append_well_formed append_capacity append_stored last_n_append_last_n)
qed

end

section \<open>The ring buffer\<close>

record log_record =
  rec_id :: int64
  rec_time :: time
  rec_text :: string

record log =
  records :: "log_record list option"
  numRecords :: nat
  maxRecords :: nat
  log_id :: int64
  log_cvs :: condvars

definition MaxLogRecords :: nat where
  "MaxLogRecords = 1000"

definition zero_record :: log_record where
  "zero_record = \<lparr>rec_id = 0, rec_time = zero_time, rec_text = []\<rparr>"

definition the_records :: "log \<Rightarrow> log_record list" where
  "the_records l = (case records l of None \<Rightarrow> [] | Some rs \<Rightarrow> rs)"

text \<open>\<open>Write\<close>: the buffer is allocated by the first write, then each line takes the next slot.\<close>

definition log_allocate :: "log \<Rightarrow> log" where
  "log_allocate l0 =
     (let l = (if maxRecords l0 = 0 then l0\<lparr>maxRecords := MaxLogRecords\<rparr> else l0)
      in if records l = None
         then l\<lparr>records := Some (replicate (maxRecords l) zero_record), numRecords := 0\<rparr>
         else l)"

definition log_line :: "time \<times> string \<Rightarrow> log \<Rightarrow> log" where
  "log_line x l =
     (let idx = numRecords l mod maxRecords l;
          i = log_id l + 1;
          r = \<lparr>rec_id = i, rec_time = fst x, rec_text = snd x\<rparr>
      in l\<lparr>log_id := i, records := Some ((the_records l)[idx := r]), numRecords := numRecords l + 1\<rparr>)"

fun log_lines :: "string list \<Rightarrow> log \<Rightarrow> clock \<Rightarrow> log \<times> clock" where
  "log_lines [] l c = (l, c)"
| "log_lines (w # ws) l c = log_lines ws (log_line (reading c, w) l) (next_reading c)"

definition log_Write :: "string \<Rightarrow> log \<Rightarrow> clock \<Rightarrow> log \<times> clock" where
  "log_Write b l c =
     (let (l', c') = log_lines (text_lines b) (log_allocate l) c
      in (l'\<lparr>log_cvs := broadcast (log_cvs l')\<rparr>, c'))"

definition log_Clear :: "log \<Rightarrow> clock \<Rightarrow> log \<times> clock" where
  "log_Clear l c =
     (l\<lparr>numRecords := 0, log_id := word_of_int (reading c)\<rparr>, next_reading c)"

definition log_GetRecords :: "int64 \<Rightarrow> log \<Rightarrow> log_record list option \<times> int64" where
  "log_GetRecords seen l =
     (if log_id l = seen then (None, seen)
      else
        let cur = numRecords l;
            cnt = (if numRecords l > maxRecords l then maxRecords l else numRecords l);
            cnt = (if cnt > cur then cur else cnt);
            index = cur - cnt
        in (Some (map (\<lambda>j. the_records l ! ((index + j) mod maxRecords l)) [0..<cnt]), log_id l))"

definition NewLog :: "clock \<Rightarrow> log \<times> clock" where
  "NewLog c =
     (\<lparr>records = None, numRecords = 0, maxRecords = MaxLogRecords,
       log_id = word_of_int (reading c), log_cvs = []\<rparr>, next_reading c)"

section \<open>The ring buffer keeps the newest records\<close>

definition log_ok :: "log \<Rightarrow> bool" where
  "log_ok l \<longleftrightarrow> (case records l of None \<Rightarrow> numRecords l = 0
                 | Some rs \<Rightarrow> 0 < maxRecords l \<and> length rs = maxRecords l)"

definition log_ready :: "log \<Rightarrow> bool" where
  "log_ready l \<longleftrightarrow> 0 < maxRecords l \<and> length (the_records l) = maxRecords l"

definition log_contents :: "log \<Rightarrow> log_record list" where
  "log_contents l =
     map (\<lambda>i. the_records l ! (i mod maxRecords l))
       [numRecords l - min (numRecords l) (maxRecords l)..<numRecords l]"

lemma log_allocate_ready: "log_ok l \<Longrightarrow> log_ready (log_allocate l)"
  by (auto simp: log_ok_def log_ready_def log_allocate_def the_records_def Let_def MaxLogRecords_def
      split: option.splits)

lemma log_ready_ok: "log_ready l \<Longrightarrow> log_ok l"
  by (auto simp: log_ok_def log_ready_def the_records_def split: option.splits)

lemma log_allocate_contents: "log_ok l \<Longrightarrow> log_contents (log_allocate l) = log_contents l"
  by (auto simp: log_ok_def log_contents_def log_allocate_def the_records_def Let_def MaxLogRecords_def
      split: option.splits)

lemma log_allocate_id [simp]:
  "log_id (log_allocate l) = log_id l" "log_cvs (log_allocate l) = log_cvs l"
  by (simp_all add: log_allocate_def Let_def)

lemma log_allocate_max: "0 < maxRecords l \<Longrightarrow> maxRecords (log_allocate l) = maxRecords l"
  by (simp add: log_allocate_def Let_def)

text \<open>Every slot the code indexes is inside the buffer.\<close>

lemma log_slot_in_range: "log_ready l \<Longrightarrow> i mod maxRecords l < length (the_records l)"
  by (simp add: log_ready_def)

lemma log_line_fields [simp]:
  "log_id (log_line x l) = log_id l + 1" "numRecords (log_line x l) = numRecords l + 1"
  "maxRecords (log_line x l) = maxRecords l" "log_cvs (log_line x l) = log_cvs l"
  by (simp_all add: log_line_def Let_def)

lemma log_line_ready: "log_ready l \<Longrightarrow> log_ready (log_line x l)"
  by (simp add: log_ready_def log_line_def Let_def the_records_def)

lemma mod_neq_window: "i < n \<Longrightarrow> n - i < m \<Longrightarrow> i mod m \<noteq> n mod (m::nat)"
  by (metis diff_diff_cancel dvd_imp_le less_imp_le mod_eq_dvd_iff_nat not_less zero_less_diff)

lemma log_line_contents:
  assumes "log_ready l"
  shows "log_contents (log_line (t, w) l) =
    last_n (maxRecords l)
      (log_contents l @ [\<lparr>rec_id = log_id l + 1, rec_time = t, rec_text = w\<rparr>])"
proof -
  let ?n = "numRecords l" and ?m = "maxRecords l" and ?rs = "the_records l"
  let ?r = "\<lparr>rec_id = log_id l + 1, rec_time = t, rec_text = w\<rparr>"
  let ?rs' = "?rs[?n mod ?m := ?r]"
  let ?lo = "?n + 1 - min (?n + 1) ?m"
  have m: "0 < ?m" "length ?rs = ?m" using assms by (simp_all add: log_ready_def)
  have rs': "the_records (log_line (t, w) l) = ?rs'"
    by (simp add: log_line_def Let_def the_records_def)
  have old: "?rs' ! (i mod ?m) = ?rs ! (i mod ?m)" if "i \<in> set [?lo..<?n]" for i
  proof -
    have "i < ?n" "?n - i < ?m" using that m by auto
    then have "i mod ?m \<noteq> ?n mod ?m" by (rule mod_neq_window)
    then show ?thesis by simp
  qed
  have "?lo \<le> ?n" using m by simp
  then have "log_contents (log_line (t, w) l) = map (\<lambda>i. ?rs' ! (i mod ?m)) [?lo..<?n] @ [?r]"
    using m by (simp add: log_contents_def rs')
  also have "\<dots> = map (\<lambda>i. ?rs ! (i mod ?m)) [?lo..<?n] @ [?r]"
    using old by (simp del: set_upt)
  also have "\<dots> = last_n ?m (log_contents l @ [?r])"
  proof (cases "?n < ?m")
    case True
    then show ?thesis by (simp add: log_contents_def)
  next
    case False
    then show ?thesis
      using m by (simp add: log_contents_def last_n_def drop_map Suc_diff_le)
  qed
  finally show ?thesis .
qed

definition stored_lines :: "log \<Rightarrow> (time \<times> string) list" where
  "stored_lines l = map (\<lambda>r. (rec_time r, rec_text r)) (log_contents l)"

lemma length_log_contents: "length (log_contents l) = min (numRecords l) (maxRecords l)"
  by (simp add: log_contents_def)

interpretation ring: bounded_log log_line stored_lines maxRecords log_ready
  by unfold_locales
    (auto simp: log_line_ready log_line_contents stored_lines_def map_last_n length_log_contents)

lemma log_lines_fold:
  "fst (log_lines ws l c) = fold log_line (zip (map c [0..<length ws]) ws) l"
proof (induction ws arbitrary: l c)
  case Nil
  then show ?case by simp
next
  case (Cons w ws)
  have "map c [0..<length (w # ws)] = reading c # map (next_reading c) [0..<length ws]"
    by (simp add: next_reading_def upt_conv_Cons map_Suc_upt [symmetric] del: upt_Suc)
  then show ?case using Cons by simp
qed

lemma log_lines_id: "log_id (fst (log_lines ws l c)) = log_id l + of_nat (length ws)"
  by (induction ws arbitrary: l c) simp_all

lemma log_GetRecords_contents:
  assumes "log_id l \<noteq> seen"
  shows "log_GetRecords seen l = (Some (log_contents l), log_id l)"
proof -
  let ?c = "min (numRecords l) (maxRecords l)"
  have "[numRecords l - ?c..<numRecords l] = map ((+) (numRecords l - ?c)) [0..<?c]"
    by (rule nth_equalityI) (auto simp: min_def)
  then show ?thesis
    using assms by (auto simp: log_GetRecords_def log_contents_def Let_def min_def)
qed


lemma log_Write_fold:
  "fst (log_Write b l c) =
    (let l' = fold log_line (zip (map c [0..<length (text_lines b)]) (text_lines b)) (log_allocate l)
     in l'\<lparr>log_cvs := broadcast (log_cvs l')\<rparr>)"
  by (simp add: log_Write_def case_prod_beta log_lines_fold Let_def)

lemma log_contents_cvs [simp]:
  "log_contents (l\<lparr>log_cvs := x\<rparr>) = log_contents l" "stored_lines (l\<lparr>log_cvs := x\<rparr>) = stored_lines l"
  "log_ready (l\<lparr>log_cvs := x\<rparr>) = log_ready l"
  by (simp_all add: log_contents_def stored_lines_def log_ready_def the_records_def)

lemma log_Write_ready: "log_ok l \<Longrightarrow> log_ready (fst (log_Write b l c))"
  by (simp add: log_Write_fold Let_def ring.fold_well_formed log_allocate_ready)

lemma log_Write_ok: "log_ok l \<Longrightarrow> log_ok (fst (log_Write b l c))"
  by (simp add: log_Write_ready log_ready_ok)

lemma log_Write_max: "0 < maxRecords l \<Longrightarrow> log_ok l \<Longrightarrow> maxRecords (fst (log_Write b l c)) = maxRecords l"
  by (simp add: log_Write_fold Let_def ring.fold_capacity log_allocate_ready log_allocate_max)

lemma log_Write_id: "log_id (fst (log_Write b l c)) = log_id l + of_nat (length (text_lines b))"
  using log_lines_id [of "text_lines b" "log_allocate l" c]
  by (simp add: log_Write_def case_prod_beta)

lemma log_Clear_ok: "log_ok l \<Longrightarrow> log_ok (fst (log_Clear l c))"
  by (auto simp: log_ok_def log_Clear_def split: option.splits)

lemma log_Clear_max [simp]: "maxRecords (fst (log_Clear l c)) = maxRecords l"
  by (simp add: log_Clear_def)

lemma NewLog_ok: "log_ok (fst (NewLog c))" "maxRecords (fst (NewLog c)) = MaxLogRecords"
  by (simp_all add: log_ok_def NewLog_def)

section \<open>Identifiers\<close>

text \<open>The \<open>n\<close> identifiers that end in \<open>i\<close>, in increasing order.\<close>

definition ids_upto :: "int64 \<Rightarrow> nat \<Rightarrow> int64 list" where
  "ids_upto i n = map (\<lambda>k. i - of_nat k) (rev [0..<n])"

definition ids_ok :: "log \<Rightarrow> bool" where
  "ids_ok l \<longleftrightarrow> map rec_id (log_contents l) = ids_upto (log_id l) (length (log_contents l))"

lemma ids_upto_Suc: "ids_upto (i + 1) (Suc n) = ids_upto i n @ [i + 1]"
proof -
  have "rev [0..<Suc n] = map Suc (rev [0..<n]) @ [0]"
    by (metis list.simps(9) map_Suc_upt rev.simps(2) rev_map upt_conv_Cons zero_less_Suc)
  then show ?thesis by (simp add: ids_upto_def del: upt_Suc)
qed

lemma last_n_ids_upto: "last_n m (ids_upto i n) = ids_upto i (min m n)"
  by (simp add: last_n_def ids_upto_def drop_map drop_rev min_def)

lemma ids_ok_line: "log_ready l \<Longrightarrow> ids_ok l \<Longrightarrow> ids_ok (log_line x l)"
  by (cases x)
    (simp add: ids_ok_def log_line_contents map_last_n last_n_ids_upto flip: ids_upto_Suc)

lemma ids_ok_fold: "log_ready l \<Longrightarrow> ids_ok l \<Longrightarrow> ids_ok (fold log_line xs l)"
  by (induction xs arbitrary: l) (simp_all add: ids_ok_line log_line_ready)

lemma ids_ok_Write: "log_ok l \<Longrightarrow> ids_ok l \<Longrightarrow> ids_ok (fst (log_Write b l c))"
proof -
  assume l: "log_ok l" "ids_ok l"
  then have "ids_ok (log_allocate l)"
    by (simp add: ids_ok_def log_allocate_contents)
  then have "ids_ok (fold log_line xs (log_allocate l))" for xs
    using l by (simp add: ids_ok_fold log_allocate_ready)
  then show ?thesis
    by (simp add: log_Write_fold Let_def ids_ok_def)
qed

text \<open>The states a log created by \<open>NewLog\<close> can be in.\<close>

inductive log_reachable :: "log \<Rightarrow> bool" where
  created: "log_reachable (fst (NewLog c))"
| written: "log_reachable l \<Longrightarrow> log_reachable (fst (log_Write b l c))"
| cleared: "log_reachable l \<Longrightarrow> log_reachable (fst (log_Clear l c))"

lemma log_reachable_ok:
  assumes "log_reachable l"
  shows "log_ok l \<and> ids_ok l \<and> maxRecords l = MaxLogRecords"
  using assms
proof (induction rule: log_reachable.induct)
  case (created c)
  show ?case
    using NewLog_ok [of c] by (simp add: ids_ok_def log_contents_def NewLog_def ids_upto_def)
next
  case (written l b c)
  then show ?case
    by (simp add: log_Write_ok ids_ok_Write log_Write_max MaxLogRecords_def)
next
  case (cleared l c)
  then have "log_ok (fst (log_Clear l c))" by (simp add: log_Clear_ok)
  moreover have "ids_ok (fst (log_Clear l c))"
    by (simp add: ids_ok_def log_contents_def log_Clear_def ids_upto_def)
  ultimately show ?case using cleared.IH by simp
qed

lemma NewLog_empty [simp]: "stored_lines (fst (NewLog c)) = []" "log_contents (fst (NewLog c)) = []"
  by (simp_all add: stored_lines_def log_contents_def NewLog_def)

end
