(* ===== verification/MultiLog.thy ===== *)
theory MultiLog
  imports LogRing
begin

text \<open>
  The fan-out of \<open>multilog.go\<close>.  A \<open>*log.Logger\<close> is a reference; the loggers themselves
  (prefix, flags and writer) live in a heap, because \<open>SetPrefix\<close> and \<open>SetFlags\<close> change
  loggers that others may share.  \<open>Write\<close> is a sequence of \<open>Println\<close> calls, which the owner
  of the loggers carries out.
\<close>

record 'l multilogger =
  ml_prefix :: string          \<comment> \<open>the prefix of the \<open>log\<close> handed out by \<open>Logger\<close>\<close>
  ml_loggers :: "'l list"

record logger =
  lg_prefix :: string
  lg_flags :: int

type_synonym 'l logger_heap = "'l \<Rightarrow> logger"

definition NewMultiLogger :: "'l multilogger" where
  "NewMultiLogger = \<lparr>ml_prefix = [], ml_loggers = []\<rparr>"

text \<open>The calls \<open>logger.Println(line)\<close> that \<open>Write\<close> makes, in their order.\<close>

definition ml_Write :: "string \<Rightarrow> 'l multilogger \<Rightarrow> ('l \<times> string) list" where
  "ml_Write b m = concat (map (\<lambda>line. map (\<lambda>logger. (logger, line)) (ml_loggers m)) (text_lines b))"

definition ml_AddLogger :: "'l \<Rightarrow> 'l multilogger \<Rightarrow> 'l multilogger" where
  "ml_AddLogger logger m =
     (if list_ex (\<lambda>x. x = logger) (ml_loggers m) then m
      else m\<lparr>ml_loggers := ml_loggers m @ [logger]\<rparr>)"

text \<open>\<open>append(l.loggers[:i], l.loggers[i+1:]...)\<close> at the first index \<open>i\<close> that holds the logger.\<close>

fun drop_logger :: "'l \<Rightarrow> 'l list \<Rightarrow> 'l list" where
  "drop_logger logger [] = []"
| "drop_logger logger (x # xs) = (if x = logger then xs else x # drop_logger logger xs)"

definition ml_DelLogger :: "'l \<Rightarrow> 'l multilogger \<Rightarrow> 'l multilogger" where
  "ml_DelLogger logger m = m\<lparr>ml_loggers := drop_logger logger (ml_loggers m)\<rparr>"

definition ml_SetPrefix :: "string \<Rightarrow> 'l multilogger \<Rightarrow> 'l logger_heap \<Rightarrow> 'l logger_heap" where
  "ml_SetPrefix p m h = fold (\<lambda>x h. h(x := (h x)\<lparr>lg_prefix := p\<rparr>)) (ml_loggers m) h"

definition ml_SetFlags :: "int \<Rightarrow> 'l multilogger \<Rightarrow> 'l logger_heap \<Rightarrow> 'l logger_heap" where
  "ml_SetFlags f m h = fold (\<lambda>x h. h(x := (h x)\<lparr>lg_flags := f\<rparr>)) (ml_loggers m) h"

text \<open>\<open>l.log\<close> as a \<open>log.Logger\<close> with flags 0: the text that \<open>Printf\<close> hands to \<open>Write\<close>.\<close>

definition log_text :: "string \<Rightarrow> string \<Rightarrow> string" where
  "log_text prefix msg =
     prefix @ (if msg \<noteq> [] \<and> last msg = newline then msg else msg @ [newline])"

section \<open>A logger is registered once and receives every line\<close>

definition ml_ok :: "'l multilogger \<Rightarrow> bool" where
  "ml_ok m \<longleftrightarrow> distinct (ml_loggers m)"

lemma drop_logger_remove1: "drop_logger x xs = remove1 x xs"
  by (induction xs) auto

lemma ml_ok_New [simp]: "ml_ok NewMultiLogger"
  by (simp add: ml_ok_def NewMultiLogger_def)

lemma ml_ok_Add [simp]: "ml_ok m \<Longrightarrow> ml_ok (ml_AddLogger x m)"
  by (auto simp: ml_ok_def ml_AddLogger_def list_ex_iff)

lemma ml_ok_Del [simp]: "ml_ok m \<Longrightarrow> ml_ok (ml_DelLogger x m)"
  by (simp add: ml_ok_def ml_DelLogger_def drop_logger_remove1)

lemma set_Add [simp]: "set (ml_loggers (ml_AddLogger x m)) = insert x (set (ml_loggers m))"
  by (auto simp: ml_AddLogger_def list_ex_iff)

lemma set_Del: "ml_ok m \<Longrightarrow> set (ml_loggers (ml_DelLogger x m)) = set (ml_loggers m) - {x}"
  by (simp add: ml_ok_def ml_DelLogger_def drop_logger_remove1)

lemma filter_map_pair:
  "distinct xs \<Longrightarrow> filter (\<lambda>c. fst c = x) (map (\<lambda>l. (l, w)) xs) = (if x \<in> set xs then [(x, w)] else [])"
  by (induction xs) auto

text \<open>What one logger receives of a \<open>Write\<close>.\<close>

definition received :: "'l \<Rightarrow> ('l \<times> string) list \<Rightarrow> string list" where
  "received x calls = map snd (filter (\<lambda>c. fst c = x) calls)"

lemma received_Write:
  assumes "ml_ok m"
  shows "received x (ml_Write b m) = (if x \<in> set (ml_loggers m) then text_lines b else [])"
proof -
  have *: "map snd (filter (\<lambda>c. fst c = x) (concat (map (\<lambda>line. map (\<lambda>l. (l, line)) (ml_loggers m)) ws)))
    = (if x \<in> set (ml_loggers m) then ws else [])" for ws
    using assms by (induction ws) (simp_all add: filter_map_pair ml_ok_def)
  show ?thesis
    unfolding received_def ml_Write_def by (rule *)
qed

lemma SetPrefix_heap:
  "ml_SetPrefix p m h x = (if x \<in> set (ml_loggers m) then (h x)\<lparr>lg_prefix := p\<rparr> else h x)"
proof -
  have "fold (\<lambda>x h. h(x := (h x)\<lparr>lg_prefix := p\<rparr>)) xs h x =
      (if x \<in> set xs then (h x)\<lparr>lg_prefix := p\<rparr> else h x)" for xs
    by (induction xs arbitrary: h) auto
  then show ?thesis by (simp add: ml_SetPrefix_def)
qed

lemma SetFlags_heap:
  "ml_SetFlags f m h x = (if x \<in> set (ml_loggers m) then (h x)\<lparr>lg_flags := f\<rparr> else h x)"
proof -
  have "fold (\<lambda>x h. h(x := (h x)\<lparr>lg_flags := f\<rparr>)) xs h x =
      (if x \<in> set xs then (h x)\<lparr>lg_flags := f\<rparr> else h x)" for xs
    by (induction xs arbitrary: h) auto
  then show ?thesis by (simp add: ml_SetFlags_def)
qed

end
