(* ===== verification/Model.thy ===== *)
theory Model
  imports MultiLog
begin

text \<open>
  The data of the service manager: the errors of \<open>errors.go\<close>, the properties of
  \<open>properties.go\<close>, the \<open>Provider\<close> interface of \<open>provider.go\<close> as a record of functions over
  the provider's own state, the \<open>Service\<close> of \<open>service.go\<close>, the \<open>Manager\<close> of \<open>manager.go\<close>,
  and the world they live in: one manager and the services known to it.  A \<open>*Service\<close> is a
  number; nil maps are empty lists; pointers to a service's \<open>Log\<close> are followed in a heap of
  their own.
\<close>

section \<open>Errors and properties\<close>

datatype error =
    ErrNoManager | ErrConflict | ErrIsEnabled | ErrNotRunning | ErrBadPropType | ErrBadPropName
  | ErrBadPropValue | ErrPropReadOnly | ErrRateLimited | ErrNameExists
  | OtherError string    \<comment> \<open>an error made by a provider\<close>

fun error_text :: "error \<Rightarrow> string" where
  "error_text ErrNoManager = ''No manager for service''"
| "error_text ErrConflict = ''Conflicting service enabled''"
| "error_text ErrIsEnabled = ''Service is enabled''"
| "error_text ErrNotRunning = ''Service is not running''"
| "error_text ErrBadPropType = ''Bad property type''"
| "error_text ErrBadPropName = ''Bad property name''"
| "error_text ErrBadPropValue = ''Bad property value''"
| "error_text ErrPropReadOnly = ''Property not changeable''"
| "error_text ErrRateLimited = ''Restarting too quickly''"
| "error_text ErrNameExists = ''Service name already exists''"
| "error_text (OtherError msg) = msg"

datatype property_name =
    PropLogger | PropRestart | PropRateLimit | PropRatePeriod | PropName | PropDescription
  | PropDepends | PropConflicts | PropProvides | PropNotify
  | OtherProperty string

fun property_text :: "property_name \<Rightarrow> string" where
  "property_text PropLogger = ''_Logger''"
| "property_text PropRestart = ''_Restart''"
| "property_text PropRateLimit = ''_RateLimit''"
| "property_text PropRatePeriod = ''_RatePeriod''"
| "property_text PropName = ''_Name''"
| "property_text PropDescription = ''_Description''"
| "property_text PropDepends = ''_Depends''"
| "property_text PropConflicts = ''_Conflicts''"
| "property_text PropProvides = ''_Provides''"
| "property_text PropNotify = ''_Notify''"
| "property_text (OtherProperty n) = n"

type_synonym sid = nat

record command =
  cmd_path :: string
  cmd_args :: "string list"
  cmd_env :: "string list option"
  cmd_dir :: string
  cmd_Stdout :: bool    \<comment> \<open>whether the output is connected to something\<close>
  cmd_Stderr :: bool

text \<open>
  The dynamic types that \<open>SetProperty\<close> distinguishes in an \<open>interface{}\<close>.  \<open>VLogger n\<close> is
  the application's logger \<open>n\<close> and \<open>VFunc n\<close> its function \<open>n\<close>.
\<close>

datatype propval =
    VLogger nat | VBool bool | VInt int | VDuration duration
  | VString string | VStrings "string list" | VFunc nat | VCommand command | VNil

text \<open>
  What a provider's \<open>SetProperty\<close> is given: a value of the application, or one of the two
  values that \<open>NewService\<close> makes and nobody else holds, the logger \<open>s.mlog.Logger()\<close> and the
  method value \<open>s.doNotify\<close>.
\<close>

datatype provval = FromUser propval | ServiceLogger sid | ServiceNotify sid

text \<open>The logger a provider prints a line on.\<close>

datatype out_logger = ToService sid | ToUser nat

section \<open>Providers\<close>

text \<open>
  The methods that run the service return, besides their result, the provider's next state
  and the lines it printed, each with the logger it printed it on.
\<close>

record 'p provider =
  pName :: "'p \<Rightarrow> string"
  pDescription :: "'p \<Rightarrow> string"
  pProvides :: "'p \<Rightarrow> string list"
  pDepends :: "'p \<Rightarrow> string list"
  pConflicts :: "'p \<Rightarrow> string list"
  pStart :: "'p \<Rightarrow> error option \<times> 'p \<times> (out_logger \<times> string) list"
  pStop :: "'p \<Rightarrow> 'p \<times> (out_logger \<times> string) list"
  pCheck :: "'p \<Rightarrow> error option \<times> 'p \<times> (out_logger \<times> string) list"
  pSetProperty :: "property_name \<Rightarrow> provval \<Rightarrow> 'p \<Rightarrow> error option \<times> 'p"
  pProperty :: "property_name \<Rightarrow> 'p \<Rightarrow> error + propval"

section \<open>Services, the manager and the world\<close>

text \<open>
  The loggers a service's \<open>MultiLogger\<close> can hold: the one over its own log, the
  application's, and the loggers the manager allocates with \<open>getLogger\<close> (a new pointer for
  each call, hence the number).
\<close>

datatype logger_ref = SlogLogger | UserLogger nat | ManagerLogger nat

datatype manager_logger_ref = StderrLogger | ManagerUserLogger nat | ManagerLogLogger

record 'p service =
  prov :: 'p
  has_mgr :: bool                               \<comment> \<open>\<open>s.mgr != nil\<close>\<close>
  sname :: string
  desc :: string
  depends :: "string list"
  conflicts :: "string list"
  provides :: "string list"
  enabled :: bool
  running :: bool
  stopping :: bool
  failed :: bool
  restart :: bool
  in_check :: bool                              \<comment> \<open>\<open>s.checking\<close>\<close>
  healthy :: bool
  err :: "error option"
  parents :: "(string \<times> sid list) list"        \<comment> \<open>\<open>map[string]map[*Service]bool\<close>\<close>
  children :: "sid list"                        \<comment> \<open>\<open>map[*Service]bool\<close>\<close>
  incompat :: "sid list"
  s_logger :: "nat option"
  stamp :: time
  reason :: string
  starts :: int
  rateLog :: bool
  rateLimit :: int
  ratePeriod :: duration
  startTimes :: "time list"
  s_notify :: "nat option"
  s_mlog :: "logger_ref multilogger"
  s_serial :: int64

record manager =
  services :: "sid list"
  m_name :: string
  m_logger :: "manager_logger_ref option"
  mylog :: bool                                 \<comment> \<open>\<open>m.mylog != nil\<close>\<close>
  m_log :: log
  m_mlog :: "manager_logger_ref multilogger"
  cleanup :: bool
  monitoring :: bool
  m_serial :: int64
  listSerial :: int64
  listStamp :: time
  createTime :: time
  updateTime :: time
  cvs :: condvars

text \<open>What leaves the modelled code: lines for the application's loggers and callbacks started.\<close>

datatype external =
    UserLine nat string | StandardLine string | CallbackStarted nat | PackageLog string | Printed string

record 'p world =
  svc :: "sid \<Rightarrow> 'p service"
  slogs :: "sid \<Rightarrow> log"
  mgr :: manager
  clk :: clock
  ord :: order
  ext :: "external list"
  next_logger :: nat

abbreviation managed :: "'p world \<Rightarrow> sid list" where
  "managed w \<equiv> services (mgr w)"

text \<open>An assignment to fields of a service.\<close>

definition upd :: "sid \<Rightarrow> ('p service \<Rightarrow> 'p service) \<Rightarrow> 'p world \<Rightarrow> 'p world" where
  "upd s f w = w\<lparr>svc := (svc w)(s := f (svc w s))\<rparr>"

abbreviation now :: "'p world \<Rightarrow> time" where
  "now w \<equiv> reading (clk w)"

definition tick :: "'p world \<Rightarrow> 'p world" where
  "tick w = w\<lparr>clk := next_reading (clk w)\<rparr>"

definition stamp_now :: "sid \<Rightarrow> 'p world \<Rightarrow> 'p world" where
  "stamp_now s w = tick (upd s (\<lambda>S. S\<lparr>stamp := now w\<rparr>) w)"

text \<open>The keys of a map in the order of one \<open>range\<close> loop.\<close>

definition range_keys :: "sid list \<Rightarrow> 'p world \<Rightarrow> sid list \<times> 'p world" where
  "range_keys ks w = (ord w 0 ks, w\<lparr>ord := next_order (ord w)\<rparr>)"

section \<open>Serial numbers\<close>

definition bumpSerial :: "'p world \<Rightarrow> int64 \<times> 'p world" where
  "bumpSerial w =
     (let m = mgr w;
          m' = m\<lparr>updateTime := now w, m_serial := m_serial m + 1, cvs := broadcast (cvs m)\<rparr>
      in (m_serial m', tick (w\<lparr>mgr := m'\<rparr>)))"

text \<open>\<open>s.serial = s.mgr.bumpSerial()\<close>, which panics when \<open>s.mgr\<close> is nil.\<close>

definition bump :: "sid \<Rightarrow> 'p world \<Rightarrow> 'p world outcome" where
  "bump s w =
     (if has_mgr (svc w s)
      then let (sn, w') = bumpSerial w in Done (upd s (\<lambda>S. S\<lparr>s_serial := sn\<rparr>) w')
      else Panic NilDereference)"

section \<open>Logging\<close>

fun manager_println :: "manager_logger_ref \<times> string \<Rightarrow> 'p world \<Rightarrow> 'p world" where
  "manager_println (ManagerLogLogger, line) w =
     (let (l, c) = log_Write (log_text [] (line @ [newline])) (m_log (mgr w)) (clk w)
      in w\<lparr>mgr := (mgr w)\<lparr>m_log := l\<rparr>, clk := c\<rparr>)"
| "manager_println (ManagerUserLogger n, line) w = w\<lparr>ext := ext w @ [UserLine n line]\<rparr>"
| "manager_println (StderrLogger, line) w = w\<lparr>ext := ext w @ [StandardLine line]\<rparr>"

definition manager_write :: "string \<Rightarrow> 'p world \<Rightarrow> 'p world" where
  "manager_write b w = fold manager_println (ml_Write b (m_mlog (mgr w))) w"

definition m_logf :: "string \<Rightarrow> 'p world \<Rightarrow> 'p world" where
  "m_logf msg w =
     (if mylog (mgr w) then manager_write (log_text [] msg) w
      else w\<lparr>ext := ext w @ [StandardLine msg]\<rparr>)"

fun service_println :: "sid \<Rightarrow> logger_ref \<times> string \<Rightarrow> 'p world \<Rightarrow> 'p world" where
  "service_println s (SlogLogger, line) w =
     (let (l, c) = log_Write (log_text [] (line @ [newline])) (slogs w s) (clk w)
      in w\<lparr>slogs := (slogs w)(s := l), clk := c\<rparr>)"
| "service_println s (UserLogger n, line) w = w\<lparr>ext := ext w @ [UserLine n line]\<rparr>"
| "service_println s (ManagerLogger k, line) w = manager_write (log_text [] (line @ [newline])) w"

definition s_logf :: "sid \<Rightarrow> string \<Rightarrow> 'p world \<Rightarrow> 'p world" where
  "s_logf s msg w =
     (let m = s_mlog (svc w s)
      in fold (service_println s) (ml_Write (log_text (ml_prefix m) msg) m) w)"

section \<open>Calls of the provider\<close>

fun provider_println :: "out_logger \<times> string \<Rightarrow> 'p world \<Rightarrow> 'p world" where
  "provider_println (ToService s, line) w = s_logf s line w"
| "provider_println (ToUser n, line) w = w\<lparr>ext := ext w @ [UserLine n line]\<rparr>"

definition provider_prints :: "(out_logger \<times> string) list \<Rightarrow> 'p world \<Rightarrow> 'p world" where
  "provider_prints out w = fold provider_println out w"

definition prov_Start :: "'p provider \<Rightarrow> sid \<Rightarrow> 'p world \<Rightarrow> error option \<times> 'p world" where
  "prov_Start P s w =
     (let (e, p, out) = pStart P (prov (svc w s))
      in (e, provider_prints out (upd s (\<lambda>S. S\<lparr>prov := p\<rparr>) w)))"

definition prov_Stop :: "'p provider \<Rightarrow> sid \<Rightarrow> 'p world \<Rightarrow> 'p world" where
  "prov_Stop P s w =
     (let (p, out) = pStop P (prov (svc w s))
      in provider_prints out (upd s (\<lambda>S. S\<lparr>prov := p\<rparr>) w))"

definition prov_Check :: "'p provider \<Rightarrow> sid \<Rightarrow> 'p world \<Rightarrow> error option \<times> 'p world" where
  "prov_Check P s w =
     (let (e, p, out) = pCheck P (prov (svc w s))
      in (e, provider_prints out (upd s (\<lambda>S. S\<lparr>prov := p\<rparr>) w)))"

definition prov_SetProperty ::
  "'p provider \<Rightarrow> sid \<Rightarrow> property_name \<Rightarrow> provval \<Rightarrow> 'p world \<Rightarrow> error option \<times> 'p world" where
  "prov_SetProperty P s n v w =
     (let (e, p) = pSetProperty P n v (prov (svc w s))
      in (e, upd s (\<lambda>S. S\<lparr>prov := p\<rparr>) w))"

section \<open>Frame: what logging, the clock and serial numbers leave alone\<close>

lemma svc_upd [simp]: "svc (upd s f w) = (svc w)(s := f (svc w s))"
  by (simp add: upd_def)

lemma upd_frame [simp]:
  "mgr (upd s f w) = mgr w" "slogs (upd s f w) = slogs w" "ord (upd s f w) = ord w"
  "clk (upd s f w) = clk w" "ext (upd s f w) = ext w" "next_logger (upd s f w) = next_logger w"
  by (simp_all add: upd_def)

lemma tick_frame [simp]:
  "svc (tick w) = svc w" "mgr (tick w) = mgr w" "slogs (tick w) = slogs w" "ord (tick w) = ord w"
  "ext (tick w) = ext w" "next_logger (tick w) = next_logger w" "clk (tick w) = next_reading (clk w)"
  by (simp_all add: tick_def)

lemma stamp_now_frame [simp]:
  "svc (stamp_now s w) = (svc w)(s := (svc w s)\<lparr>stamp := now w\<rparr>)"
  "mgr (stamp_now s w) = mgr w" "slogs (stamp_now s w) = slogs w" "ord (stamp_now s w) = ord w"
  by (simp_all add: stamp_now_def)

text \<open>The part of the manager that logging does not touch.\<close>

definition mgr_core :: "manager \<Rightarrow> manager" where
  "mgr_core m = m\<lparr>m_log := (m_log m)\<lparr>records := None, numRecords := 0, log_id := 0, log_cvs := [],
     maxRecords := 0\<rparr>\<rparr>"

lemma mgr_core_m_log [simp]: "mgr_core (m\<lparr>m_log := l\<rparr>) = mgr_core m"
  by (cases "m_log m"; cases l; simp add: mgr_core_def)

lemma mgr_core_fields:
  assumes "mgr_core m = mgr_core m'"
  shows "services m = services m'" "m_name m = m_name m'" "m_logger m = m_logger m'"
    "mylog m = mylog m'" "m_mlog m = m_mlog m'" "cleanup m = cleanup m'"
    "monitoring m = monitoring m'" "m_serial m = m_serial m'" "listSerial m = listSerial m'"
    "listStamp m = listStamp m'" "createTime m = createTime m'" "updateTime m = updateTime m'"
    "cvs m = cvs m'"
  using assms by (cases m; cases m'; simp add: mgr_core_def)+

lemma manager_println_frame:
  "svc (manager_println x w) = svc w \<and> mgr_core (mgr (manager_println x w)) = mgr_core (mgr w) \<and>
   slogs (manager_println x w) = slogs w \<and> ord (manager_println x w) = ord w \<and>
   next_logger (manager_println x w) = next_logger w"
  by (induction x w rule: manager_println.induct) (simp_all add: case_prod_beta)

lemma fold_frame:
  assumes "\<And>x w. x \<in> set xs \<Longrightarrow> F (f x w) = F w"
  shows "F (fold f xs w) = F w"
  using assms by (induction xs arbitrary: w) simp_all

lemma manager_write_frame:
  "svc (manager_write b w) = svc w" "mgr_core (mgr (manager_write b w)) = mgr_core (mgr w)"
  "slogs (manager_write b w) = slogs w" "ord (manager_write b w) = ord w"
  "next_logger (manager_write b w) = next_logger w"
  unfolding manager_write_def by (rule fold_frame, simp add: manager_println_frame)+

lemma m_logf_frame:
  "svc (m_logf b w) = svc w" "mgr_core (mgr (m_logf b w)) = mgr_core (mgr w)"
  "slogs (m_logf b w) = slogs w" "ord (m_logf b w) = ord w"
  "next_logger (m_logf b w) = next_logger w"
  by (simp_all add: m_logf_def manager_write_frame)

lemma service_println_frame:
  "svc (service_println s x w) = svc w \<and> mgr_core (mgr (service_println s x w)) = mgr_core (mgr w) \<and>
   ord (service_println s x w) = ord w \<and> next_logger (service_println s x w) = next_logger w"
  by (induction s x w rule: service_println.induct)
    (simp_all add: case_prod_beta manager_write_frame)

lemma s_logf_frame:
  "svc (s_logf s b w) = svc w" "mgr_core (mgr (s_logf s b w)) = mgr_core (mgr w)"
  "ord (s_logf s b w) = ord w" "next_logger (s_logf s b w) = next_logger w"
  unfolding s_logf_def Let_def by (rule fold_frame, simp add: service_println_frame)+

lemmas s_logf_frames [simp] =
  s_logf_frame s_logf_frame(2) [THEN mgr_core_fields(1)] s_logf_frame(2) [THEN mgr_core_fields(2)]
  s_logf_frame(2) [THEN mgr_core_fields(5)] s_logf_frame(2) [THEN mgr_core_fields(6)]
  s_logf_frame(2) [THEN mgr_core_fields(7)] s_logf_frame(2) [THEN mgr_core_fields(8)]
  s_logf_frame(2) [THEN mgr_core_fields(9)] s_logf_frame(2) [THEN mgr_core_fields(13)]

lemmas m_logf_frames [simp] =
  m_logf_frame m_logf_frame(2) [THEN mgr_core_fields(1)] m_logf_frame(2) [THEN mgr_core_fields(2)]
  m_logf_frame(2) [THEN mgr_core_fields(5)] m_logf_frame(2) [THEN mgr_core_fields(6)]
  m_logf_frame(2) [THEN mgr_core_fields(7)] m_logf_frame(2) [THEN mgr_core_fields(8)]
  m_logf_frame(2) [THEN mgr_core_fields(9)] m_logf_frame(2) [THEN mgr_core_fields(13)]

lemma provider_println_frame:
  "svc (provider_println x w) = svc w \<and> ord (provider_println x w) = ord w \<and>
   mgr_core (mgr (provider_println x w)) = mgr_core (mgr w) \<and>
   next_logger (provider_println x w) = next_logger w"
  by (induction x w rule: provider_println.induct) simp_all

lemma provider_prints_frame:
  "svc (provider_prints out w) = svc w" "ord (provider_prints out w) = ord w"
  "mgr_core (mgr (provider_prints out w)) = mgr_core (mgr w)"
  "next_logger (provider_prints out w) = next_logger w"
  unfolding provider_prints_def by (rule fold_frame, simp add: provider_println_frame)+

lemmas provider_prints_frames [simp] =
  provider_prints_frame provider_prints_frame(3) [THEN mgr_core_fields(1)]
  provider_prints_frame(3) [THEN mgr_core_fields(2)] provider_prints_frame(3) [THEN mgr_core_fields(5)]
  provider_prints_frame(3) [THEN mgr_core_fields(6)] provider_prints_frame(3) [THEN mgr_core_fields(7)]
  provider_prints_frame(3) [THEN mgr_core_fields(8)] provider_prints_frame(3) [THEN mgr_core_fields(13)]

lemma bumpSerial_frame [simp]:
  "svc (snd (bumpSerial w)) = svc w" "slogs (snd (bumpSerial w)) = slogs w"
  "ord (snd (bumpSerial w)) = ord w" "next_logger (snd (bumpSerial w)) = next_logger w"
  "managed (snd (bumpSerial w)) = managed w" "m_name (mgr (snd (bumpSerial w))) = m_name (mgr w)"
  "m_mlog (mgr (snd (bumpSerial w))) = m_mlog (mgr w)" "ext (snd (bumpSerial w)) = ext w"
  "monitoring (mgr (snd (bumpSerial w))) = monitoring (mgr w)"
  "cleanup (mgr (snd (bumpSerial w))) = cleanup (mgr w)"
  "m_serial (mgr (snd (bumpSerial w))) = m_serial (mgr w) + 1"
  "cvs (mgr (snd (bumpSerial w))) = broadcast (cvs (mgr w))"
  "fst (bumpSerial w) = m_serial (mgr w) + 1"
  by (simp_all add: bumpSerial_def Let_def)

lemma range_keys_frame [simp]:
  "svc (snd (range_keys ks w)) = svc w" "mgr (snd (range_keys ks w)) = mgr w"
  "slogs (snd (range_keys ks w)) = slogs w" "ord (snd (range_keys ks w)) = next_order (ord w)"
  "fst (range_keys ks w) = ord w 0 ks"
  by (simp_all add: range_keys_def)

end
