(* ===== verification/Names.thy ===== *)
theory Names
  imports Model
begin

text \<open>
  Service names of \<open>service.go\<close>: the match of a dependency or conflict against the name and
  the aliases of a service, and what it means for two services to depend on each other or to
  conflict.
\<close>

abbreviation colon :: char where "colon \<equiv> CHR '':''"

definition serviceMatches :: "string \<Rightarrow> string \<Rightarrow> bool" where
  "serviceMatches s1 s2 =
     (let a1 = split2 colon s1;
          a2 = split2 colon s2
      in if a1 ! 0 \<noteq> a2 ! 0 then False
         else if length a1 = 1 then True
         else if length a2 = 1 then False
         else a1 ! 1 = a2 ! 1)"

definition Matches :: "'p service \<Rightarrow> string \<Rightarrow> bool" where
  "Matches S check =
     (if serviceMatches check (sname S) then True
      else list_ex (serviceMatches check) (provides S))"

section \<open>What matching means\<close>

definition base_name :: "string \<Rightarrow> string" where
  "base_name s = takeWhile (\<lambda>x. x \<noteq> colon) s"

lemma list2_eq_iff:
  "length xs = 2 \<Longrightarrow> length ys = 2 \<Longrightarrow> xs = ys \<longleftrightarrow> xs ! 0 = ys ! 0 \<and> xs ! 1 = ys ! 1"
  by (auto simp: numeral_2_eq_2 length_Suc_conv)

lemma serviceMatches_iff:
  "serviceMatches check n \<longleftrightarrow> (if colon \<in> set check then n = check else base_name n = check)"
proof (cases "colon \<in> set check")
  case False
  then have "base_name check = check"
    by (auto simp: base_name_def takeWhile_eq_all_conv)
  moreover have "serviceMatches check n \<longleftrightarrow> base_name check = base_name n"
    using False by (simp add: serviceMatches_def split2_hd split2_length Let_def base_name_def)
  ultimately have "serviceMatches check n \<longleftrightarrow> check = base_name n" by simp
  with False show ?thesis by (simp add: eq_commute)
next
  case True
  then have l1: "length (split2 colon check) = 2" by (simp add: split2_length)
  show ?thesis
  proof (cases "colon \<in> set n")
    case True
    then have l2: "length (split2 colon n) = 2" by (simp add: split2_length)
    have "serviceMatches check n \<longleftrightarrow> split2 colon check = split2 colon n"
      unfolding list2_eq_iff [OF l1 l2] using l1 l2 by (auto simp: serviceMatches_def Let_def)
    also have "\<dots> \<longleftrightarrow> n = check" using split2_inj by auto
    finally show ?thesis using \<open>colon \<in> set check\<close> by simp
  next
    case False
    then have "n \<noteq> check" using True by auto
    then show ?thesis
      using True False l1 by (auto simp: serviceMatches_def Let_def split2_length)
  qed
qed

lemma Matches_iff:
  "Matches S check \<longleftrightarrow> (\<exists>n \<in> set (sname S # provides S). serviceMatches check n)"
  by (auto simp: Matches_def list_ex_iff)

section \<open>Dependency and conflict between services\<close>

text \<open>
  The dependency of \<open>t\<close> under which a service \<open>s\<close> is registered as a parent of \<open>t\<close>: the loops
  of \<open>setManager\<close> leave at the first dependency that matches.
\<close>

definition registered_dep :: "'p service \<Rightarrow> 'p service \<Rightarrow> string option" where
  "registered_dep T S = find (Matches S) (depends T)"

definition conflicting :: "'p service \<Rightarrow> 'p service \<Rightarrow> bool" where
  "conflicting S T \<longleftrightarrow> list_ex (Matches S) (conflicts T) \<or> list_ex (Matches T) (conflicts S)"

lemma conflicting_sym: "conflicting S T \<longleftrightarrow> conflicting T S"
  by (auto simp: conflicting_def)

lemma registered_dep_Some: "registered_dep T S = Some d \<Longrightarrow> d \<in> set (depends T) \<and> Matches S d"
  by (auto simp: registered_dep_def find_Some_iff)

lemma registered_dep_None: "registered_dep T S = None \<longleftrightarrow> (\<forall>d \<in> set (depends T). \<not> Matches S d)"
  by (auto simp: registered_dep_def find_None_iff)

text \<open>Matching looks at the identity of a service only.\<close>

definition same_identity :: "'p service \<Rightarrow> 'q service \<Rightarrow> bool" where
  "same_identity S T \<longleftrightarrow> sname S = sname T \<and> provides S = provides T \<and> depends S = depends T \<and>
     conflicts S = conflicts T"

lemma same_identity_Matches: "same_identity S S' \<Longrightarrow> Matches S = Matches S'"
  by (simp add: same_identity_def Matches_def fun_eq_iff)

lemma same_identity_registered:
  "same_identity S S' \<Longrightarrow> same_identity T T' \<Longrightarrow> registered_dep T S = registered_dep T' S'"
  using same_identity_Matches [of S S'] by (simp add: registered_dep_def same_identity_def)

lemma same_identity_conflicting:
  "same_identity S S' \<Longrightarrow> same_identity T T' \<Longrightarrow> conflicting S T = conflicting S' T'"
  using same_identity_Matches [of S S'] same_identity_Matches [of T T']
  by (simp add: conflicting_def same_identity_def)

text \<open>
  A name with a colon is matched by that name only, one without by every name of which it is the part before
  the first colon.
\<close>

lemma matching_by_name:
  "Matches S check \<longleftrightarrow> (\<exists>n \<in> set (sname S # provides S).
     if colon \<in> set check then n = check else takeWhile (\<lambda>x. x \<noteq> colon) n = check)"
  unfolding Matches_iff serviceMatches_iff base_name_def by (rule refl)

end
