(* ===== verification/Graph.thy ===== *)
theory Graph
  imports Names "HOL-Library.AList"
begin

text \<open>
  The dependency graph: \<open>setManager\<close> and \<open>delManager\<close> of \<open>service.go\<close>.  The links between the
  services of a manager are, after any sequence of additions and removals, a function of the
  names of the services alone (\<open>graph_ok\<close>): they do not depend on the order of the
  additions, nor on the order in which the loops visit the map of services.
\<close>

section \<open>Linking a service to one other service\<close>

text \<open>\<open>t.parents[d][s] = true\<close>, which panics when \<open>t.parents[d]\<close> is nil.\<close>

definition add_parent :: "sid \<Rightarrow> string \<Rightarrow> sid \<Rightarrow> 'p world \<Rightarrow> 'p world outcome" where
  "add_parent t d s w =
     (case map_of (parents (svc w t)) d of
        None \<Rightarrow> Panic NilMapWrite
      | Some ps \<Rightarrow> Done (upd t (\<lambda>T. T\<lparr>parents := AList.update d (add_key s ps) (parents T)\<rparr>) w))"

text \<open>"Does \<open>s\<close> satisfy a dependency of \<open>t\<close>?": the loop over \<open>t.Depends()\<close> breaks at the first match.\<close>

definition link_dependency :: "sid \<Rightarrow> sid \<Rightarrow> 'p world \<Rightarrow> 'p world outcome" where
  "link_dependency s t w =
     (case registered_dep (svc w t) (svc w s) of
        None \<Rightarrow> Done w
      | Some d \<Rightarrow>
          bindO (add_parent t d s w) (\<lambda>w1.
          Done (upd s (\<lambda>S. S\<lparr>children := add_key t (children S)\<rparr>) w1)))"

text \<open>A conflict that \<open>t\<close> declares and \<open>s\<close> matches is recorded on both sides.\<close>

definition link_conflict :: "sid \<Rightarrow> sid \<Rightarrow> 'p world \<Rightarrow> 'p world" where
  "link_conflict s t w =
     (if list_ex (Matches (svc w s)) (conflicts (svc w t))
      then upd t (\<lambda>T. T\<lparr>incompat := add_key s (incompat T)\<rparr>)
             (upd s (\<lambda>S. S\<lparr>incompat := add_key t (incompat S)\<rparr>) w)
      else w)"

definition link :: "sid \<Rightarrow> sid \<Rightarrow> 'p world \<Rightarrow> 'p world outcome" where
  "link s t w =
     bindO (link_dependency s t w) (\<lambda>w1.
     bindO (link_dependency t s w1) (\<lambda>w2.
     Done (link_conflict t s (link_conflict s t w2))))"

definition make_parents :: "string list \<Rightarrow> (string \<times> sid list) list" where
  "make_parents ds = fold (\<lambda>d ps. AList.update d [] ps) ds []"

definition getLogger :: "'p world \<Rightarrow> logger_ref \<times> 'p world" where
  "getLogger w = (ManagerLogger (next_logger w), w\<lparr>next_logger := next_logger w + 1\<rparr>)"

definition setManager :: "sid \<Rightarrow> 'p world \<Rightarrow> 'p world outcome" where
  "setManager s w =
     (if has_mgr (svc w s) then Panic AlreadyManaged
      else
        let (lg, w1) = getLogger w;
            w2 = upd s (\<lambda>S. S\<lparr>s_mlog := ml_AddLogger lg (s_mlog S), has_mgr := True,
                   incompat := [], children := [], parents := make_parents (depends S)\<rparr>) w1
        in bindO (foldO (link s) (managed w2) w2) (\<lambda>w3.
           let w4 = upd s (\<lambda>S. S\<lparr>reason := ''Added service''\<rparr>) (stamp_now s w3);
               w5 = s_logf s (''Added service '' @ sname (svc w4 s) @ '' to '' @ m_name (mgr w4) @
                      '': '' @ desc (svc w4 s)) w4
           in Done (w5\<lparr>mgr := (mgr w5)\<lparr>services := add_key s (services (mgr w5))\<rparr>\<rparr>)))"

section \<open>Removing a service\<close>

definition unlink_conflict :: "sid \<Rightarrow> sid \<Rightarrow> 'p world \<Rightarrow> 'p world" where
  "unlink_conflict s c w =
     upd s (\<lambda>S. S\<lparr>incompat := delete_key c (incompat S)\<rparr>)
       (upd c (\<lambda>C. C\<lparr>incompat := delete_key s (incompat C)\<rparr>) w)"

definition unlink_child :: "sid \<Rightarrow> sid \<Rightarrow> 'p world \<Rightarrow> 'p world" where
  "unlink_child s c w =
     upd s (\<lambda>S. S\<lparr>children := delete_key c (children S)\<rparr>)
       (upd c (\<lambda>C. C\<lparr>parents := map (\<lambda>(d, ps). (d, delete_key s ps)) (parents C)\<rparr>) w)"

definition unlink_parent :: "sid \<Rightarrow> string \<times> sid list \<Rightarrow> 'p world \<Rightarrow> 'p world" where
  "unlink_parent s dp w =
     (let w1 = fold (\<lambda>t. upd t (\<lambda>T. T\<lparr>children := delete_key s (children T)\<rparr>)) (snd dp) w
      in upd s (\<lambda>S. S\<lparr>parents := AList.delete (fst dp) (parents S)\<rparr>) w1)"

definition delManager :: "sid \<Rightarrow> 'p world \<Rightarrow> 'p world" where
  "delManager s w =
     (if \<not> has_mgr (svc w s) then w
      else
        let w1 = w\<lparr>mgr := (mgr w)\<lparr>services := delete_key s (services (mgr w))\<rparr>\<rparr>;
            w2 = fold (unlink_conflict s) (incompat (svc w1 s)) w1;
            w3 = fold (unlink_child s) (children (svc w2 s)) w2;
            w4 = fold (unlink_parent s) (parents (svc w3 s)) w3;
            w5 = stamp_now s (upd s (\<lambda>S. S\<lparr>reason := ''Removed service''\<rparr>) w4)
        in upd s (\<lambda>S. S\<lparr>has_mgr := False\<rparr>) w5)"

section \<open>The graph is a function of the names\<close>

definition identity_of :: "'p service \<Rightarrow> string \<times> string list \<times> string list \<times> string list" where
  "identity_of S = (sname S, provides S, depends S, conflicts S)"

definition links_of :: "'p service \<Rightarrow> (string \<times> sid list) list \<times> sid list \<times> sid list" where
  "links_of S = (parents S, children S, incompat S)"

definition status_of ::
  "'p service \<Rightarrow> bool \<times> bool \<times> bool \<times> bool \<times> error option \<times> bool \<times> int \<times> int \<times> time list" where
  "status_of S = (enabled S, running S, stopping S, failed S, err S, in_check S,
     rateLimit S, starts S, startTimes S)"

lemma identity_of_same: "identity_of S = identity_of S' \<longleftrightarrow> same_identity S S'"
  by (auto simp: identity_of_def same_identity_def)

text \<open>
  \<open>links dep conf keys V G t\<close>: the links of \<open>t\<close> in the heap \<open>V\<close> are those to the members of \<open>G\<close>
  that \<open>dep\<close> (which of my dependencies does the other satisfy) and \<open>conf\<close> ask for.
\<close>

definition links ::
  "(sid \<Rightarrow> sid \<Rightarrow> string option) \<Rightarrow> (sid \<Rightarrow> sid \<Rightarrow> bool) \<Rightarrow> (sid \<Rightarrow> string set) \<Rightarrow>
   (sid \<Rightarrow> 'p service) \<Rightarrow> sid set \<Rightarrow> sid \<Rightarrow> bool" where
  "links dep conf keys V G t \<longleftrightarrow>
     set (children (V t)) = {u \<in> G. u \<noteq> t \<and> dep u t \<noteq> None} \<and>
     set (incompat (V t)) = {u \<in> G. u \<noteq> t \<and> conf t u} \<and>
     distinct (map fst (parents (V t))) \<and> dom (map_of (parents (V t))) = keys t \<and>
     (\<forall>d ps. map_of (parents (V t)) d = Some ps \<longrightarrow> set ps = {u \<in> G. u \<noteq> t \<and> dep t u = Some d})"

definition dep_of :: "'p world \<Rightarrow> sid \<Rightarrow> sid \<Rightarrow> string option" where
  "dep_of w t u = registered_dep (svc w t) (svc w u)"

definition conf_of :: "'p world \<Rightarrow> sid \<Rightarrow> sid \<Rightarrow> bool" where
  "conf_of w t u = conflicting (svc w t) (svc w u)"

definition keys_of :: "'p world \<Rightarrow> sid \<Rightarrow> string set" where
  "keys_of w t = set (depends (svc w t))"

definition graph_ok :: "'p world \<Rightarrow> bool" where
  "graph_ok w \<longleftrightarrow>
     distinct (managed w) \<and> (\<forall>s. has_mgr (svc w s) \<longleftrightarrow> s \<in> set (managed w)) \<and>
     inj_on (\<lambda>s. sname (svc w s)) (set (managed w)) \<and>
     (\<forall>t \<in> set (managed w). links (dep_of w) (conf_of w) (keys_of w) (svc w) (set (managed w)) t)"

lemma links_cong:
  "links_of (V t) = links_of (V' t) \<Longrightarrow> links dep conf keys V G t = links dep conf keys V' G t"
  by (simp add: links_def links_of_def)

lemma identity_cong:
  assumes "\<And>u. identity_of (svc w u) = identity_of (svc w' u)"
  shows "dep_of w = dep_of w'" "conf_of w = conf_of w'" "keys_of w = keys_of w'"
proof -
  have same: "same_identity (svc w u) (svc w' u)" for u
    using assms by (simp add: identity_of_same)
  show "dep_of w = dep_of w'"
    by (simp add: dep_of_def fun_eq_iff same same_identity_registered)
  show "conf_of w = conf_of w'"
    by (simp add: conf_of_def fun_eq_iff same same_identity_conflicting)
  show "keys_of w = keys_of w'"
    using same by (simp add: keys_of_def fun_eq_iff same_identity_def)
qed

lemma graph_ok_cong:
  assumes "managed w = managed w'"
    and "\<And>u. identity_of (svc w u) = identity_of (svc w' u)"
    and "\<And>u. links_of (svc w u) = links_of (svc w' u)"
    and "\<And>u. has_mgr (svc w u) = has_mgr (svc w' u)"
  shows "graph_ok w \<longleftrightarrow> graph_ok w'"
proof -
  have "sname (svc w u) = sname (svc w' u)" for u
    using assms(2) [of u] by (simp add: identity_of_def)
  moreover have "links d c k (svc w) G t = links d c k (svc w') G t" for d c k G t
    by (rule links_cong) (rule assms(3))
  ultimately show ?thesis
    by (simp add: graph_ok_def assms(1,4) identity_cong [OF assms(2)] inj_on_def)
qed


section \<open>Adding a service keeps the graph\<close>

text \<open>What \<open>link\<close> does to the links of one of the two services.\<close>

definition link_to :: "string option \<Rightarrow> bool \<Rightarrow> bool \<Rightarrow> sid \<Rightarrow> 'p service \<Rightarrow> 'p service" where
  "link_to d child conflict u T =
     T\<lparr>parents := (case d of None \<Rightarrow> parents T
          | Some k \<Rightarrow> AList.update k (add_key u (the (map_of (parents T) k))) (parents T)),
       children := (if child then add_key u (children T) else children T),
       incompat := (if conflict then add_key u (incompat T) else incompat T)\<rparr>"

lemma link_to_frame [simp]:
  "identity_of (link_to d c i u T) = identity_of T" "status_of (link_to d c i u T) = status_of T"
  "has_mgr (link_to d c i u T) = has_mgr T"
  by (simp_all add: link_to_def identity_of_def status_of_def)

lemma Matches_ignore_links [simp]:
  "Matches (S\<lparr>parents := x\<rparr>) = Matches S" "Matches (S\<lparr>children := y\<rparr>) = Matches S"
  "Matches (S\<lparr>incompat := y\<rparr>) = Matches S"
  by (simp_all add: Matches_def fun_eq_iff)

lemma deps_ignore_links [simp]:
  "registered_dep (T\<lparr>parents := x\<rparr>) S = registered_dep T S"
  "registered_dep (T\<lparr>children := y\<rparr>) S = registered_dep T S"
  "registered_dep T (S\<lparr>parents := x\<rparr>) = registered_dep T S"
  "registered_dep T (S\<lparr>children := y\<rparr>) = registered_dep T S"
  by (simp_all add: registered_dep_def)

lemma link_to_conflict [simp]:
  "link_to None False c u (link_to d ch False u T) = link_to d ch c u T"
  "link_to d False False u (link_to None ch False u T) = link_to d ch False u T"
  "link_to None ch False u (link_to d False False u T) = link_to d ch False u T"
  by (simp_all add: link_to_def split: option.split)

lemma link_dependency_effect:
  assumes "s \<noteq> t" and "\<And>d. dep_of w t s = Some d \<Longrightarrow> d \<in> dom (map_of (parents (svc w t)))"
  shows "link_dependency s t w = Done (w\<lparr>svc := (svc w)
    (s := link_to None (dep_of w t s \<noteq> None) False t (svc w s),
     t := link_to (dep_of w t s) False False s (svc w t))\<rparr>)"
proof (cases "dep_of w t s")
  case None
  then show ?thesis
    by (simp add: link_dependency_def dep_of_def link_to_def)
next
  case (Some d)
  with assms(2) obtain ps where "map_of (parents (svc w t)) d = Some ps" by auto
  with Some assms(1) show ?thesis
    by (simp add: link_dependency_def dep_of_def add_parent_def link_to_def upd_def fun_upd_twist [of s t])
qed

lemma link_conflict_effect:
  assumes "s \<noteq> t"
  shows "link_conflict t s (link_conflict s t w) = w\<lparr>svc := (svc w)
    (s := link_to None False (conf_of w s t) t (svc w s),
     t := link_to None False (conf_of w t s) s (svc w t))\<rparr>"
  using assms
  by (simp add: link_conflict_def conf_of_def conflicting_def link_to_def upd_def fun_upd_twist)

lemma link_effect:
  assumes "s \<noteq> t"
    and "\<And>d. dep_of w t s = Some d \<Longrightarrow> d \<in> dom (map_of (parents (svc w t)))"
    and "\<And>d. dep_of w s t = Some d \<Longrightarrow> d \<in> dom (map_of (parents (svc w s)))"
  shows "link s t w = Done (w\<lparr>svc := (svc w)
    (s := link_to (dep_of w s t) (dep_of w t s \<noteq> None) (conf_of w s t) t (svc w s),
     t := link_to (dep_of w t s) (dep_of w s t \<noteq> None) (conf_of w t s) s (svc w t))\<rparr>)"
proof -
  define w1 where "w1 = w\<lparr>svc := (svc w)
    (s := link_to None (dep_of w t s \<noteq> None) False t (svc w s),
     t := link_to (dep_of w t s) False False s (svc w t))\<rparr>"
  have V1: "svc w1 s = link_to None (dep_of w t s \<noteq> None) False t (svc w s)"
    "svc w1 t = link_to (dep_of w t s) False False s (svc w t)"
    using assms(1) by (simp_all add: w1_def)
  have "identity_of (svc w1 u) = identity_of (svc w u)" for u
    by (simp add: w1_def)
  then have same1: "dep_of w1 = dep_of w" "conf_of w1 = conf_of w"
    by (rule identity_cong)+
  define w2 where "w2 = w1\<lparr>svc := (svc w1)
    (t := link_to None (dep_of w1 s t \<noteq> None) False s (svc w1 t),
     s := link_to (dep_of w1 s t) False False t (svc w1 s))\<rparr>"
  have "identity_of (svc w2 u) = identity_of (svc w1 u)" for u
    by (simp add: w2_def)
  then have same2: "conf_of w2 = conf_of w" using same1 identity_cong(2) by metis
  have "link_dependency s t w = Done w1"
    unfolding w1_def using assms by (intro link_dependency_effect) auto
  moreover have "link_dependency t s w1 = Done w2"
    unfolding w2_def using assms(1,3) V1
    by (intro link_dependency_effect) (auto simp: same1 link_to_def)
  moreover have V2: "svc w2 s = link_to (dep_of w s t) (dep_of w t s \<noteq> None) False t (svc w s)"
    "svc w2 t = link_to (dep_of w t s) (dep_of w s t \<noteq> None) False s (svc w t)"
    using assms(1) by (simp_all add: w2_def V1 same1 del: not_None_eq)
  moreover have "w2\<lparr>svc := (svc w2)(s := a, t := b)\<rparr> = w\<lparr>svc := (svc w)(s := a, t := b)\<rparr>" for a b
    by (simp add: w2_def w1_def fun_eq_iff)
  ultimately show ?thesis
    using assms(1) by (simp add: link_def link_conflict_effect same2 del: not_None_eq)
qed

lemma links_insert:
  assumes "links dep conf keys V G t" and "u \<notin> G" and "u \<noteq> t"
    and "\<And>d. dep t u = Some d \<Longrightarrow> d \<in> keys t"
    and "V' t = link_to (dep t u) (dep u t \<noteq> None) (conf t u) u (V t)"
  shows "links dep conf keys V' (insert u G) t"
proof -
  have C: "set (children (V' t)) = {v \<in> insert u G. v \<noteq> t \<and> dep v t \<noteq> None}"
    using assms(1,3) by (auto simp: assms(5) links_def link_to_def)
  have I: "set (incompat (V' t)) = {v \<in> insert u G. v \<noteq> t \<and> conf t v}"
    using assms(1,3) by (auto simp: assms(5) links_def link_to_def)
  have P: "map_of (parents (V' t)) =
      (case dep t u of None \<Rightarrow> map_of (parents (V t))
       | Some k \<Rightarrow> (map_of (parents (V t)))(k \<mapsto> add_key u (the (map_of (parents (V t)) k))))"
    by (simp add: assms(5) link_to_def update_conv' split: option.split)
  have D: "distinct (map fst (parents (V' t)))"
    using assms(1) by (simp add: assms(5) links_def link_to_def distinct_update split: option.split)
  have old: "dom (map_of (parents (V t))) = keys t"
    "\<And>d ps. map_of (parents (V t)) d = Some ps \<Longrightarrow> set ps = {v \<in> G. v \<noteq> t \<and> dep t v = Some d}"
    using assms(1) by (simp_all add: links_def)
  have K: "dom (map_of (parents (V' t))) = keys t"
    using old(1) assms(4) by (auto simp: P split: option.splits)
  have S: "set ps = {v \<in> insert u G. v \<noteq> t \<and> dep t v = Some d}"
    if "map_of (parents (V' t)) d = Some ps" for d ps
  proof (cases "dep t u = Some d")
    case True
    then obtain qs where q: "map_of (parents (V t)) d = Some qs"
      using assms(4) old(1) by blast
    then have "set ps = insert u (set qs)"
      using that True by (auto simp: P)
    then show ?thesis using old(2) [OF q] True assms(3) by auto
  next
    case False
    then have "map_of (parents (V t)) d = Some ps"
      using that by (auto simp: P split: option.splits if_splits)
    then show ?thesis using old(2) False by auto
  qed
  show ?thesis
    unfolding links_def using C I D K S by blast
qed

lemma make_parents_map:
  "map_of (make_parents ds) d = (if d \<in> set ds then Some [] else None)"
  "distinct (map fst (make_parents ds))"
proof -
  have "map_of (fold (\<lambda>d ps. AList.update d [] ps) ds ps) d =
      (if d \<in> set ds then Some [] else map_of ps d) \<and>
    (distinct (map fst ps) \<longrightarrow> distinct (map fst (fold (\<lambda>d ps. AList.update d [] ps) ds ps)))"
    for ps :: "(string \<times> sid list) list"
    by (induction ds arbitrary: ps) (auto simp: update_conv' distinct_update)
  from this [of "[]"] show "map_of (make_parents ds) d = (if d \<in> set ds then Some [] else None)"
    "distinct (map fst (make_parents ds))"
    by (simp_all add: make_parents_def)
qed

text \<open>The worlds differ in the links only.\<close>

definition without_links :: "'p service \<Rightarrow> 'p service" where
  "without_links S = S\<lparr>parents := [], children := [], incompat := []\<rparr>"

definition without_services :: "'p world \<Rightarrow> 'p world" where
  "without_services w = w\<lparr>svc := undefined\<rparr>"

definition only_links :: "'p world \<Rightarrow> 'p world \<Rightarrow> bool" where
  "only_links w w' \<longleftrightarrow> without_services w' = without_services w \<and>
     (\<forall>u. without_links (svc w' u) = without_links (svc w u))"

lemma only_links_refl [simp]: "only_links w w"
  by (simp add: only_links_def)

lemma only_links_trans: "only_links w w' \<Longrightarrow> only_links w' w'' \<Longrightarrow> only_links w w''"
  by (simp add: only_links_def)

lemma without_links_eq:
  assumes "without_links S' = without_links S"
  shows "identity_of S' = identity_of S" "status_of S' = status_of S" "has_mgr S' = has_mgr S"
    "s_mlog S' = s_mlog S" "S' = S\<lparr>parents := parents S', children := children S', incompat := incompat S'\<rparr>"
  using assms
  by (cases S; cases S'; simp add: without_links_def identity_of_def status_of_def)+

lemma without_services_eq:
  assumes "without_services w' = without_services w"
  shows "mgr w' = mgr w" "slogs w' = slogs w" "ord w' = ord w" "clk w' = clk w" "ext w' = ext w"
    "next_logger w' = next_logger w"
  using assms by (cases w; cases w'; simp add: without_services_def)+

lemma only_links_fields:
  assumes "only_links w w'"
  shows "mgr w' = mgr w" "slogs w' = slogs w" "ord w' = ord w" "clk w' = clk w" "ext w' = ext w"
    "next_logger w' = next_logger w"
    "identity_of (svc w' u) = identity_of (svc w u)" "status_of (svc w' u) = status_of (svc w u)"
    "has_mgr (svc w' u) = has_mgr (svc w u)" "s_mlog (svc w' u) = s_mlog (svc w u)"
  using assms without_services_eq [of w' w] without_links_eq [of "svc w' u" "svc w u"]
  by (simp_all add: only_links_def)

lemma only_links_deps:
  assumes "only_links w w'"
  shows "dep_of w' = dep_of w" "conf_of w' = conf_of w" "keys_of w' = keys_of w"
  using identity_cong [of w' w] only_links_fields(7) [OF assms] by simp_all

lemma dep_key: "dep_of w t u = Some d \<Longrightarrow> d \<in> keys_of w t"
  by (auto simp: dep_of_def keys_of_def dest: registered_dep_Some)


lemma without_links_link_to [simp]: "without_links (link_to d c i u T) = without_links T"
  by (simp add: link_to_def without_links_def)

lemma without_services_svc [simp]: "without_services (w\<lparr>svc := V\<rparr>) = without_services w"
  by (simp add: without_services_def)

lemma links_insert_self: "links dep conf keys V (insert t G) t = links dep conf keys V G t"
proof -
  have "{u \<in> insert t G. u \<noteq> t \<and> P u} = {u \<in> G. u \<noteq> t \<and> P u}" for P by auto
  then show ?thesis by (simp add: links_def)
qed

text \<open>The loop of \<open>setManager\<close> over the services already present.\<close>

lemma link_loop:
  fixes w0 :: "'p world"
  defines "M \<equiv> set (managed w0)"
  assumes new: "s \<notin> M" and dist: "distinct (managed w0)"
    and old: "\<forall>t \<in> M. links (dep_of w0) (conf_of w0) (keys_of w0) (svc w0) M t"
    and none: "links (dep_of w0) (conf_of w0) (keys_of w0) (svc w0) {} s"
  shows "returns (foldO (link s) (managed w0) w0) (\<lambda>w. only_links w0 w \<and>
    (\<forall>t \<in> insert s M. links (dep_of w0) (conf_of w0) (keys_of w0) (svc w) (insert s M) t))"
proof -
  let ?links = "links (dep_of w0) (conf_of w0) (keys_of w0)"
  define I where "I xs w \<longleftrightarrow> only_links w0 w \<and> set xs \<subseteq> M \<and> distinct xs \<and>
    ?links (svc w) (M - set xs) s \<and>
    (\<forall>t \<in> M. ?links (svc w) (if t \<in> set xs then M else insert s M) t)" for xs w
  have "returns (foldO (link s) (managed w0) w0) (I [])"
  proof (rule returns_foldO [where I = I])
    show "I (managed w0) w0"
      using dist old none by (simp add: I_def M_def)
  next
    fix x ys w
    assume I: "I (x # ys) w"
    then have x: "x \<in> M" "x \<noteq> s" "x \<notin> set ys" "set ys \<subseteq> M" "distinct ys"
      using new by (auto simp: I_def)
    have ol: "only_links w0 w" and Ls: "?links (svc w) (M - set (x # ys)) s"
      and Lt: "\<And>t. t \<in> M \<Longrightarrow> ?links (svc w) (if t \<in> set (x # ys) then M else insert s M) t"
      using I by (simp_all add: I_def)
    note same = only_links_deps [OF ol]
    have Lx: "?links (svc w) M x" using Lt [OF x(1)] by simp
    define w' where "w' = w\<lparr>svc := (svc w)
      (s := link_to (dep_of w0 s x) (dep_of w0 x s \<noteq> None) (conf_of w0 s x) x (svc w s),
       x := link_to (dep_of w0 x s) (dep_of w0 s x \<noteq> None) (conf_of w0 x s) s (svc w x))\<rparr>"
    have "link s x w = Done w'"
      unfolding w'_def same [symmetric]
    proof (rule link_effect)
      show "s \<noteq> x" using x by simp
    next
      fix d assume "dep_of w x s = Some d"
      then show "d \<in> dom (map_of (parents (svc w x)))"
        using Lx dep_key [of w x s d] by (simp add: links_def same)
    next
      fix d assume "dep_of w s x = Some d"
      then show "d \<in> dom (map_of (parents (svc w s)))"
        using Ls dep_key [of w s x d] by (simp add: links_def same)
    qed
    moreover have "I ys w'"
    proof -
      have "only_links w w'" by (simp add: only_links_def w'_def)
      with ol have 1: "only_links w0 w'" by (rule only_links_trans)
      have 2: "?links (svc w') (M - set ys) s"
      proof -
        have "?links (svc w') (insert x (M - set (x # ys))) s"
          by (rule links_insert [OF Ls]) (use x in \<open>auto simp: w'_def intro: dep_key\<close>)
        moreover have "insert x (M - set (x # ys)) = M - set ys" using x by auto
        ultimately show ?thesis by simp
      qed
      have 3: "?links (svc w') (if t \<in> set ys then M else insert s M) t" if t: "t \<in> M" for t
      proof (cases "t = x")
        case True
        have "?links (svc w') (insert s M) x"
          by (rule links_insert [OF Lx]) (use x new in \<open>auto simp: w'_def intro: dep_key\<close>)
        then show ?thesis using True x by simp
      next
        case False
        then have "svc w' t = svc w t" using t new by (auto simp: w'_def)
        then show ?thesis using Lt [OF t] False links_cong [of "svc w'" t "svc w"] by simp
      qed
      show ?thesis unfolding I_def using 1 2 3 x by blast
    qed
    ultimately show "returns (link s x w) (I ys)" by simp
  qed
  then show ?thesis
    by (rule returns_mono) (auto simp: I_def links_insert_self)
qed

lemma setManager_ok:
  assumes ok: "graph_ok w" and new: "s \<notin> set (managed w)"
    and name: "\<forall>t \<in> set (managed w). sname (svc w t) \<noteq> sname (svc w s)"
  shows "returns (setManager s w) (\<lambda>w'. graph_ok w' \<and> managed w' = s # managed w \<and>
    ord w' = ord w \<and> m_serial (mgr w') = m_serial (mgr w) \<and>
    (\<forall>u. status_of (svc w' u) = status_of (svc w u) \<and> identity_of (svc w' u) = identity_of (svc w u)))"
proof -
  define w2 where "w2 = upd s (\<lambda>S. S\<lparr>s_mlog := ml_AddLogger (fst (getLogger w)) (s_mlog S),
    has_mgr := True, incompat := [], children := [], parents := make_parents (depends S)\<rparr>)
    (snd (getLogger w))"
  let ?M = "set (managed w)"
  let ?links = "links (dep_of w2) (conf_of w2) (keys_of w2)"
  have no: "\<not> has_mgr (svc w s)" using ok new by (simp add: graph_ok_def)
  have base: "managed w2 = managed w" "ord w2 = ord w" "m_serial (mgr w2) = m_serial (mgr w)"
    "\<And>u. u \<noteq> s \<Longrightarrow> svc w2 u = svc w u"
    by (simp_all add: w2_def getLogger_def)
  have id2: "identity_of (svc w2 u) = identity_of (svc w u)" for u
    by (simp add: w2_def getLogger_def identity_of_def)
  have st2: "status_of (svc w2 u) = status_of (svc w u)" for u
    by (simp add: w2_def getLogger_def status_of_def)
  have hm2: "has_mgr (svc w2 u) \<longleftrightarrow> u = s \<or> has_mgr (svc w u)" for u
    by (simp add: w2_def getLogger_def)
  have same: "dep_of w2 = dep_of w" "conf_of w2 = conf_of w" "keys_of w2 = keys_of w"
    using identity_cong [of w2 w] id2 by simp_all
  have none: "?links (svc w2) {} s"
    by (auto simp: links_def w2_def getLogger_def keys_of_def make_parents_map dom_def
        split: if_splits)
  have old: "\<forall>t \<in> ?M. ?links (svc w2) ?M t"
  proof
    fix t assume t: "t \<in> ?M"
    then have "t \<noteq> s" using new by auto
    then have "svc w2 t = svc w t" by (rule base(4))
    then show "?links (svc w2) ?M t"
      using ok t links_cong [of "svc w2" t "svc w"] by (simp add: graph_ok_def same)
  qed
  have loop: "returns (foldO (link s) (managed w2) w2) (\<lambda>w3. only_links w2 w3 \<and>
      (\<forall>t \<in> insert s ?M. ?links (svc w3) (insert s ?M) t))"
    using link_loop [of s w2] new ok none old by (simp add: base graph_ok_def)
  have names: "inj_on (\<lambda>t. sname (svc w t)) (insert s ?M)"
    using ok name new by (auto simp: graph_ok_def inj_on_def)
  have final: "graph_ok w' \<and> managed w' = s # managed w \<and> ord w' = ord w \<and>
      m_serial (mgr w') = m_serial (mgr w) \<and>
      (\<forall>u. status_of (svc w' u) = status_of (svc w u) \<and> identity_of (svc w' u) = identity_of (svc w u))"
    if w3: "only_links w2 w3" "\<forall>t \<in> insert s ?M. ?links (svc w3) (insert s ?M) t"
      and w': "managed w' = s # managed w3" "ord w' = ord w3" "m_serial (mgr w') = m_serial (mgr w3)"
        "\<And>u. \<exists>x y. svc w' u = (svc w3 u)\<lparr>stamp := x, reason := y\<rparr>"
    for w3 w'
  proof -
    note f = only_links_fields [OF w3(1)]
    have 3: "identity_of (svc w' u) = identity_of (svc w3 u)" "status_of (svc w' u) = status_of (svc w3 u)"
      "has_mgr (svc w' u) = has_mgr (svc w3 u)" "links_of (svc w' u) = links_of (svc w3 u)" for u
      using w'(4) [of u] by (auto simp: identity_of_def status_of_def links_of_def)
    have id': "identity_of (svc w' u) = identity_of (svc w u)" for u by (simp add: 3 f id2)
    have same': "dep_of w' = dep_of w2" "conf_of w' = conf_of w2" "keys_of w' = keys_of w2"
      using identity_cong [of w' w2] 3 f by simp_all
    have L: "?links (svc w') (insert s ?M) t" if "t \<in> insert s ?M" for t
    proof -
      have "?links (svc w3) (insert s ?M) t" using w3(2) that by blast
      then show ?thesis using links_cong [of "svc w'" t "svc w3"] 3(4) by simp
    qed
    have nm: "sname (svc w' u) = sname (svc w u)" for u
      using id' [of u] by (simp add: identity_of_def)
    have "graph_ok w'"
      unfolding graph_ok_def w'(1) f(1) base same'
      using L names ok new by (auto simp: 3 f hm2 nm graph_ok_def)
    then show ?thesis by (simp add: w' f base 3 id2 st2)
  qed
  define joined where "joined w3 =
     (let w4 = upd s (\<lambda>S. S\<lparr>reason := ''Added service''\<rparr>) (stamp_now s w3);
          w5 = s_logf s (''Added service '' @ sname (svc w4 s) @ '' to '' @ m_name (mgr w4) @
                 '': '' @ desc (svc w4 s)) w4
      in w5\<lparr>mgr := (mgr w5)\<lparr>services := add_key s (services (mgr w5))\<rparr>\<rparr>)" for w3 :: "'a world"
  have eq: "setManager s w = bindO (foldO (link s) (managed w2) w2) (\<lambda>w3. Done (joined w3))"
    using no by (simp add: setManager_def w2_def joined_def Let_def case_prod_beta)
  have joined: "managed (joined w3) = add_key s (managed w3)" "ord (joined w3) = ord w3"
    "m_serial (mgr (joined w3)) = m_serial (mgr w3)"
    "\<exists>x y. svc (joined w3) u = (svc w3 u)\<lparr>stamp := x, reason := y\<rparr>" for w3 u
  proof -
    have "svc (joined w3) u = (svc w3 u)\<lparr>stamp := (if u = s then now w3 else stamp (svc w3 u)),
        reason := (if u = s then ''Added service'' else reason (svc w3 u))\<rparr>"
      by (simp add: joined_def Let_def)
    then show "\<exists>x y. svc (joined w3) u = (svc w3 u)\<lparr>stamp := x, reason := y\<rparr>" by blast
  qed (simp_all add: joined_def Let_def)
  show ?thesis
    unfolding eq returns_bindO
  proof (rule returns_mono [OF loop], elim conjE, simp only: returns.simps, rule final)
    fix w3 assume w3: "only_links w2 w3"
    then show "managed (joined w3) = s # managed w3"
      using new by (simp add: joined only_links_fields(1) [OF w3] base)
  qed (simp_all add: joined)
qed


section \<open>Removing a service keeps the graph\<close>

text \<open>The three loops of \<open>delManager\<close>, on the links of any service \<open>u\<close>.\<close>

lemma unlink_conflicts_links:
  assumes "s \<notin> set cs"
  shows "set (incompat (svc (fold (unlink_conflict s) cs w) u)) =
      set (incompat (svc w u)) - (if u = s then set cs else if u \<in> set cs then {s} else {}) \<and>
    children (svc (fold (unlink_conflict s) cs w) u) = children (svc w u) \<and>
    parents (svc (fold (unlink_conflict s) cs w) u) = parents (svc w u)"
  using assms
proof (induction cs arbitrary: w)
  case Nil
  then show ?case by simp
next
  case (Cons c cs)
  have "set (incompat (svc (unlink_conflict s c w) u)) =
      set (incompat (svc w u)) - (if u = s then {c} else if u = c then {s} else {})"
    "children (svc (unlink_conflict s c w) u) = children (svc w u)"
    "parents (svc (unlink_conflict s c w) u) = parents (svc w u)"
    using Cons.prems by (auto simp: unlink_conflict_def)
  moreover have "s \<notin> set cs" using Cons.prems by simp
  ultimately show ?case
    using Cons.IH [of "unlink_conflict s c w"] by auto
qed

lemma unlink_children_links:
  assumes "s \<notin> set cs"
  shows "incompat (svc (fold (unlink_child s) cs w) u) = incompat (svc w u) \<and>
    set (children (svc (fold (unlink_child s) cs w) u)) =
      set (children (svc w u)) - (if u = s then set cs else {}) \<and>
    map fst (parents (svc (fold (unlink_child s) cs w) u)) = map fst (parents (svc w u)) \<and>
    map_of (parents (svc (fold (unlink_child s) cs w) u)) =
      (if u \<in> set cs then map_option (delete_key s) \<circ> map_of (parents (svc w u))
       else map_of (parents (svc w u)))"
  using assms
proof (induction cs arbitrary: w)
  case Nil
  then show ?case by simp
next
  case (Cons c cs)
  have *: "map_of (map (\<lambda>(d, ps). (d, delete_key s ps)) al) = map_option (delete_key s) \<circ> map_of al"
    for al :: "(string \<times> sid list) list"
    by (simp add: map_of_map)
  have "incompat (svc (unlink_child s c w) u) = incompat (svc w u)"
    "set (children (svc (unlink_child s c w) u)) = set (children (svc w u)) - (if u = s then {c} else {})"
    "map fst (parents (svc (unlink_child s c w) u)) = map fst (parents (svc w u))"
    "map_of (parents (svc (unlink_child s c w) u)) =
      (if u = c then map_option (delete_key s) \<circ> map_of (parents (svc w u))
       else map_of (parents (svc w u)))"
    using Cons.prems by (auto simp: unlink_child_def * comp_def case_prod_beta)
  moreover have "map_option (delete_key s) \<circ> (map_option (delete_key s) \<circ> m) =
      map_option (delete_key s) \<circ> m" for m :: "string \<Rightarrow> sid list option"
    by (simp add: fun_eq_iff option.map_comp comp_def)
  moreover have "s \<notin> set cs" using Cons.prems by simp
  ultimately show ?case
    using Cons.IH [of "unlink_child s c w"] by auto
qed

lemma unlink_parent_inner:
  "incompat (svc (fold (\<lambda>t. upd t (\<lambda>T. T\<lparr>children := delete_key s (children T)\<rparr>)) ts w) u) =
     incompat (svc w u) \<and>
   parents (svc (fold (\<lambda>t. upd t (\<lambda>T. T\<lparr>children := delete_key s (children T)\<rparr>)) ts w) u) =
     parents (svc w u) \<and>
   set (children (svc (fold (\<lambda>t. upd t (\<lambda>T. T\<lparr>children := delete_key s (children T)\<rparr>)) ts w) u)) =
     set (children (svc w u)) - (if u \<in> set ts then {s} else {})"
  by (induction ts arbitrary: w) auto

lemma unlink_parents_links:
  shows "incompat (svc (fold (unlink_parent s) dps w) u) = incompat (svc w u) \<and>
    set (children (svc (fold (unlink_parent s) dps w) u)) =
      set (children (svc w u)) - (if u \<in> \<Union> (set ` snd ` set dps) then {s} else {}) \<and>
    (u \<noteq> s \<longrightarrow> parents (svc (fold (unlink_parent s) dps w) u) = parents (svc w u)) \<and>
    set (parents (svc (fold (unlink_parent s) dps w) s)) =
      {dp \<in> set (parents (svc w s)). fst dp \<notin> fst ` set dps}"
proof (induction dps arbitrary: w)
  case Nil
  then show ?case by simp
next
  case (Cons dp dps)
  have "incompat (svc (unlink_parent s dp w) u) = incompat (svc w u)"
    "set (children (svc (unlink_parent s dp w) u)) =
      set (children (svc w u)) - (if u \<in> set (snd dp) then {s} else {})"
    "u \<noteq> s \<Longrightarrow> parents (svc (unlink_parent s dp w) u) = parents (svc w u)"
    "set (parents (svc (unlink_parent s dp w) s)) = {x \<in> set (parents (svc w s)). fst x \<noteq> fst dp}"
    using unlink_parent_inner [of s "snd dp" w u] unlink_parent_inner [of s "snd dp" w s]
    by (auto simp: unlink_parent_def Let_def AList.delete_eq)
  then show ?case
    using Cons.IH [of "unlink_parent s dp w"] by auto
qed

lemma only_links_upd:
  "(\<And>S. without_links (f S) = without_links S) \<Longrightarrow> only_links w (upd s f w)"
  by (simp add: only_links_def upd_def)

lemma only_links_fold:
  "(\<And>x w. only_links w (f x w)) \<Longrightarrow> only_links w (fold f xs w)"
proof (induction xs arbitrary: w)
  case (Cons x xs)
  then show ?case
    using only_links_trans [of w "f x w" "fold f xs (f x w)"] by simp
qed simp

lemma only_links_unlink:
  "only_links w (unlink_conflict s c w)" "only_links w (unlink_child s c w)"
  "only_links w (unlink_parent s dp w)"
proof -
  have U: "only_links w (upd t (\<lambda>S. S\<lparr>incompat := f S\<rparr>) w)"
    "only_links w (upd t (\<lambda>S. S\<lparr>children := g S\<rparr>) w)"
    "only_links w (upd t (\<lambda>S. S\<lparr>parents := h S\<rparr>) w)" for t f g h and w :: "'b world"
    by (rule only_links_upd, simp add: without_links_def)+
  show "only_links w (unlink_conflict s c w)" "only_links w (unlink_child s c w)"
    unfolding unlink_conflict_def unlink_child_def by (rule only_links_trans [OF U(1) U(1)] only_links_trans [OF U(3) U(2)])+
  show "only_links w (unlink_parent s dp w)"
    unfolding unlink_parent_def Let_def
    by (rule only_links_trans [OF only_links_fold U(3)]) (rule U(2))
qed


lemma conf_of_sym: "conf_of w s t = conf_of w t s"
  by (simp add: conf_of_def conflicting_sym)

lemma map_of_distinct_set:
  "distinct (map fst al) \<Longrightarrow> (d, ps) \<in> set al \<longleftrightarrow> map_of al d = Some ps"
  by (simp add: map_of_eq_Some_iff)

text \<open>The world after the three loops, for a service \<open>s\<close> of the manager.\<close>

definition unlinked :: "sid \<Rightarrow> 'p world \<Rightarrow> 'p world" where
  "unlinked s w1 =
     (let w2 = fold (unlink_conflict s) (incompat (svc w1 s)) w1;
          w3 = fold (unlink_child s) (children (svc w2 s)) w2
      in fold (unlink_parent s) (parents (svc w3 s)) w3)"

lemma only_links_unlinked: "only_links w (unlinked s w)"
proof -
  have *: "only_links v (fold (unlink_conflict s) cs v)" "only_links v (fold (unlink_child s) cs v)"
    "only_links v (fold (unlink_parent s) dps v)" for v :: "'a world" and cs dps
    by (intro only_links_fold only_links_unlink)+
  show ?thesis
    unfolding unlinked_def Let_def
    by (rule only_links_trans [OF only_links_trans [OF *(1) *(2)] *(3)])
qed

lemma unlinked_links:
  assumes ok: "\<And>t. t \<in> M \<Longrightarrow> links (dep_of w) (conf_of w) (keys_of w) (svc w) M t" and s: "s \<in> M"
  shows "t \<in> M - {s} \<Longrightarrow> links (dep_of w) (conf_of w) (keys_of w) (svc (unlinked s w)) (M - {s}) t"
    and "parents (svc (unlinked s w) s) = [] \<and> children (svc (unlinked s w) s) = [] \<and>
      incompat (svc (unlinked s w) s) = []"
proof -
  define w2 where "w2 = fold (unlink_conflict s) (incompat (svc w s)) w"
  define w3 where "w3 = fold (unlink_child s) (children (svc w2 s)) w2"
  define w4 where "w4 = fold (unlink_parent s) (parents (svc w3 s)) w3"
  have w4: "unlinked s w = w4" by (simp add: unlinked_def w4_def w3_def w2_def Let_def)
  have Ls: "set (children (svc w s)) = {u \<in> M. u \<noteq> s \<and> dep_of w u s \<noteq> None}"
    "set (incompat (svc w s)) = {u \<in> M. u \<noteq> s \<and> conf_of w s u}"
    "distinct (map fst (parents (svc w s)))" "dom (map_of (parents (svc w s))) = keys_of w s"
    "\<And>d ps. map_of (parents (svc w s)) d = Some ps \<Longrightarrow> set ps = {u \<in> M. u \<noteq> s \<and> dep_of w s u = Some d}"
    using ok [OF s] by (simp_all add: links_def)
  have ns: "s \<notin> set (incompat (svc w s))" "s \<notin> set (children (svc w s))" using Ls by auto
  note c2 = unlink_conflicts_links [OF ns(1), of w, folded w2_def]
  have ns2: "s \<notin> set (children (svc w2 s))" using c2 ns by simp
  note c3 = unlink_children_links [OF ns2, of w2, folded w3_def]
  note c4 = unlink_parents_links [of s "parents (svc w3 s)" w3, folded w4_def]
  have P3: "map_of (parents (svc w3 s)) = map_of (parents (svc w s))"
    "distinct (map fst (parents (svc w3 s)))"
    using c3 [of s] c2 [of s] ns Ls(3) by simp_all
  have provider: "t \<in> \<Union> (set ` snd ` set (parents (svc w3 s))) \<longleftrightarrow> dep_of w s t \<noteq> None"
    if t: "t \<in> M" "t \<noteq> s" for t
  proof
    assume "t \<in> \<Union> (set ` snd ` set (parents (svc w3 s)))"
    then obtain d ps where "map_of (parents (svc w s)) d = Some ps" "t \<in> set ps"
      using P3 by (force simp: map_of_distinct_set)
    then show "dep_of w s t \<noteq> None" using Ls(5) by auto
  next
    assume "dep_of w s t \<noteq> None"
    then obtain d where d: "dep_of w s t = Some d" by auto
    then obtain ps where ps: "map_of (parents (svc w s)) d = Some ps"
      using Ls(4) dep_key [OF d] by blast
    then have "(d, ps) \<in> set (parents (svc w3 s))" using P3 map_of_distinct_set by metis
    moreover have "t \<in> set ps" using t d Ls(5) [OF ps] by simp
    ultimately show "t \<in> \<Union> (set ` snd ` set (parents (svc w3 s)))" by force
  qed
  show "links (dep_of w) (conf_of w) (keys_of w) (svc (unlinked s w)) (M - {s}) t"
    if t: "t \<in> M - {s}" for t
  proof -
    have Lt: "set (children (svc w t)) = {u \<in> M. u \<noteq> t \<and> dep_of w u t \<noteq> None}"
      "set (incompat (svc w t)) = {u \<in> M. u \<noteq> t \<and> conf_of w t u}"
      "distinct (map fst (parents (svc w t)))" "dom (map_of (parents (svc w t))) = keys_of w t"
      "\<And>d ps. map_of (parents (svc w t)) d = Some ps \<Longrightarrow> set ps = {u \<in> M. u \<noteq> t \<and> dep_of w t u = Some d}"
      using ok [of t] t by (simp_all add: links_def)
    have C: "set (children (svc w4 t)) = {u \<in> M - {s}. u \<noteq> t \<and> dep_of w u t \<noteq> None}"
      using t c4 [of t] c3 [of t] c2 [of t] provider [of t] Lt(1) by auto
    have I: "set (incompat (svc w4 t)) = {u \<in> M - {s}. u \<noteq> t \<and> conf_of w t u}"
      using t c4 [of t] c3 [of t] c2 [of t] Lt(2) Ls(2) conf_of_sym [of w s t] by auto
    have P: "map_of (parents (svc w4 t)) =
        (if dep_of w t s \<noteq> None then map_option (delete_key s) \<circ> map_of (parents (svc w t))
         else map_of (parents (svc w t)))"
      using t c4 [of t] c3 [of t] c2 [of t] c2 [of s] Ls(1) by auto
    have D: "distinct (map fst (parents (svc w4 t)))" "dom (map_of (parents (svc w4 t))) = keys_of w t"
      using t c4 [of t] c3 [of t] c2 [of t] Lt(3,4) by (auto simp: P)
    have S: "set ps = {u \<in> M - {s}. u \<noteq> t \<and> dep_of w t u = Some d}"
      if ps: "map_of (parents (svc w4 t)) d = Some ps" for d ps
    proof (cases "dep_of w t s")
      case None
      then have "map_of (parents (svc w t)) d = Some ps" using ps by (simp add: P)
      then show ?thesis using Lt(5) None by auto
    next
      case (Some k)
      then obtain qs where "map_of (parents (svc w t)) d = Some qs" "ps = delete_key s qs"
        using ps by (auto simp: P)
      then show ?thesis using Lt(5) by auto
    qed
    show ?thesis
      unfolding links_def w4 using C I D S by blast
  qed
  have "set (parents (svc w4 s)) = {}" using c4 [of s] by auto
  moreover have "set (children (svc w4 s)) = {}" using c4 [of s] c3 [of s] c2 [of s] by auto
  moreover have "set (incompat (svc w4 s)) = {}" using c4 [of s] c3 [of s] c2 [of s] by auto
  ultimately show "parents (svc (unlinked s w) s) = [] \<and> children (svc (unlinked s w) s) = [] \<and>
      incompat (svc (unlinked s w) s) = []"
    by (simp add: w4)
qed

lemma delManager_unlinked:
  assumes "has_mgr (svc w s)"
  shows "delManager s w = upd s (\<lambda>S. S\<lparr>has_mgr := False\<rparr>) (stamp_now s
    (upd s (\<lambda>S. S\<lparr>reason := ''Removed service''\<rparr>)
      (unlinked s (w\<lparr>mgr := (mgr w)\<lparr>services := delete_key s (services (mgr w))\<rparr>\<rparr>))))"
  using assms by (simp add: delManager_def unlinked_def Let_def)

lemma delManager_none: "\<not> has_mgr (svc w s) \<Longrightarrow> delManager s w = w"
  by (simp add: delManager_def)

lemma delManager_frame:
  shows "managed (delManager s w) = (if has_mgr (svc w s) then delete_key s (managed w) else managed w)"
    and "ord (delManager s w) = ord w" and "m_serial (mgr (delManager s w)) = m_serial (mgr w)"
    and "status_of (svc (delManager s w) u) = status_of (svc w u)"
    and "identity_of (svc (delManager s w) u) = identity_of (svc w u)"
    and "has_mgr (svc (delManager s w) u) \<longleftrightarrow> u \<noteq> s \<and> has_mgr (svc w u)"
proof -
  let ?w1 = "w\<lparr>mgr := (mgr w)\<lparr>services := delete_key s (services (mgr w))\<rparr>\<rparr>"
  note f = only_links_fields [OF only_links_unlinked [of ?w1 s]]
  show "managed (delManager s w) = (if has_mgr (svc w s) then delete_key s (managed w) else managed w)"
    "ord (delManager s w) = ord w" "m_serial (mgr (delManager s w)) = m_serial (mgr w)"
    by (cases "has_mgr (svc w s)"; simp add: delManager_unlinked delManager_none f)+
  have "status_of (svc (delManager s w) u) = status_of (svc w u) \<and>
    identity_of (svc (delManager s w) u) = identity_of (svc w u) \<and>
    (has_mgr (svc (delManager s w) u) \<longleftrightarrow> u \<noteq> s \<and> has_mgr (svc w u))"
  proof (cases "has_mgr (svc w s)")
    case True
    have *: "status_of (S\<lparr>has_mgr := a, reason := b, stamp := c\<rparr>) = status_of S"
      "identity_of (S\<lparr>has_mgr := a, reason := b, stamp := c\<rparr>) = identity_of S"
      for S :: "'a service" and a b c
      by (simp_all add: status_of_def identity_of_def)
    show ?thesis
      using True f(7-9) [of u] f(7-9) [of s]
      by (simp add: delManager_unlinked status_of_def identity_of_def)
  next
    case False
    then show ?thesis by (auto simp: delManager_def)
  qed
  then show "status_of (svc (delManager s w) u) = status_of (svc w u)"
    "identity_of (svc (delManager s w) u) = identity_of (svc w u)"
    "has_mgr (svc (delManager s w) u) \<longleftrightarrow> u \<noteq> s \<and> has_mgr (svc w u)"
    by simp_all
qed

lemma delManager_graph:
  assumes ok: "graph_ok w"
  shows "graph_ok (delManager s w)"
proof (cases "has_mgr (svc w s)")
  case False
  then show ?thesis using ok by (simp add: delManager_def)
next
  case True
  let ?w1 = "w\<lparr>mgr := (mgr w)\<lparr>services := delete_key s (services (mgr w))\<rparr>\<rparr>"
  let ?M = "set (managed w)"
  have s: "s \<in> ?M" using True ok by (simp add: graph_ok_def)
  have same1: "dep_of ?w1 = dep_of w" "conf_of ?w1 = conf_of w" "keys_of ?w1 = keys_of w"
    using identity_cong [of ?w1 w] by simp_all
  have same: "dep_of (delManager s w) = dep_of w" "conf_of (delManager s w) = conf_of w"
    "keys_of (delManager s w) = keys_of w"
    using identity_cong [of "delManager s w" w] delManager_frame(5) by auto
  have L: "links (dep_of w) (conf_of w) (keys_of w) (svc (delManager s w)) (?M - {s}) t"
    if t: "t \<in> ?M - {s}" for t
  proof -
    have "links (dep_of w) (conf_of w) (keys_of w) (svc (unlinked s ?w1)) (?M - {s}) t"
      using unlinked_links(1) [of ?M ?w1 s t] ok s t same1 by (simp add: graph_ok_def)
    moreover have "links_of (svc (delManager s w) t) = links_of (svc (unlinked s ?w1) t)"
      using t by (simp add: delManager_unlinked [OF True] links_of_def)
    ultimately show ?thesis
      using links_cong [of "svc (delManager s w)" t "svc (unlinked s ?w1)"] by simp
  qed
  have nm: "sname (svc (delManager s w) u) = sname (svc w u)" for u
    using delManager_frame(5) [of s w u] by (simp add: identity_of_def)
  show ?thesis
    unfolding graph_ok_def same
    using ok L True
    by (auto simp: graph_ok_def delManager_frame nm distinct_removeAll inj_on_def)
qed

end
