(* ===== verification/Engine.thy ===== *)
theory Engine
  imports Graph
begin

text \<open>
  Starting, stopping and checking services: \<open>tooQuickly\<close>, \<open>canRun\<close>, \<open>startRecurse\<close>,
  \<open>stopRecurse\<close>, \<open>checkService\<close> and \<open>selfHeal\<close> of \<open>service.go\<close>.  The two recursions over the
  dependency graph carry fuel; \<open>fuel\<close>, one more than the number of services, is proved to be
  enough (every call marks one more service as running or as stopping).
\<close>

section \<open>The code\<close>

definition index_time :: "time list \<Rightarrow> int \<Rightarrow> time outcome" where
  "index_time ts i =
     (if 0 \<le> i \<and> i < int (length ts) then Done (ts ! nat i) else Panic IndexOutOfRange)"

definition tooQuickly :: "sid \<Rightarrow> 'p world \<Rightarrow> (error option \<times> 'p world) outcome" where
  "tooQuickly s w =
     (let S = svc w s in
      if rateLimit S = 0 then Done (None, w)
      else if starts S < rateLimit S then Done (None, w)
      else
        bindO (index_time (startTimes S) ((starts S - 1) smod rateLimit S)) (\<lambda>end_time.
        let t = now w; w1 = tick w in
        if t < end_time + ratePeriod S then
          let w2 = (if \<not> rateLog S
                    then s_logf s (''Service '' @ sname S @ '' restarting too quickly'') w1 else w1)
          in Done (Some ErrRateLimited, upd s (\<lambda>S. S\<lparr>rateLog := True\<rparr>) w2)
        else if \<not> rateLog S then Done (None, w1)
        else
          bindO (index_time (startTimes S) ((starts S - 2) smod rateLimit S)) (\<lambda>end_time.
          let t = now w1; w2 = tick w1 in
          if t < end_time + ratePeriod S then Done (Some ErrRateLimited, w2)
          else Done (None, upd s (\<lambda>S. S\<lparr>rateLog := False\<rparr>) w2))))"

text \<open>A service that satisfies the dependencies it matches.\<close>

definition serving :: "'p service \<Rightarrow> bool" where
  "serving D \<longleftrightarrow> enabled D \<and> running D \<and> \<not> stopping D \<and> \<not> failed D"

definition canRun :: "sid \<Rightarrow> 'p world \<Rightarrow> (bool \<times> 'p world) outcome" where
  "canRun s w =
     (let S = svc w s in
      if stopping S \<or> \<not> enabled S then Done (False, w)
      else if list_ex (\<lambda>(_, deps). \<not> list_ex (\<lambda>d. serving (svc w d)) deps) (parents S) then
        if reason S \<noteq> ''Unmet dependency'' then
          bindO (bump s (upd s (\<lambda>S. S\<lparr>reason := ''Unmet dependency''\<rparr>) w)) (\<lambda>w1.
          Done (False, stamp_now s w1))
        else Done (False, w)
      else if list_ex (\<lambda>c. enabled (svc w c)) (incompat S) then Done (False, w)
      else Done (True, w))"

text \<open>\<open>s.startTimes[s.starts % s.rateLimit] = time.Now()\<close>\<close>

definition record_start :: "sid \<Rightarrow> 'p world \<Rightarrow> 'p world outcome" where
  "record_start s w =
     (let S = svc w s in
      if 0 < rateLimit S then
        let i = starts S smod rateLimit S in
        if 0 \<le> i \<and> i < int (length (startTimes S))
        then Done (tick (upd s (\<lambda>S. S\<lparr>startTimes := (startTimes S)[nat i := now w]\<rparr>) w))
        else Panic IndexOutOfRange
      else Done w)"

fun startRecurse :: "nat \<Rightarrow> 'p provider \<Rightarrow> sid \<Rightarrow> string \<Rightarrow> 'p world \<Rightarrow> 'p world outcome" where
  "startRecurse 0 P s detail w = OutOfFuel"
| "startRecurse (Suc n) P s detail w =
     (if running (svc w s) then Done w
      else
        bindO (canRun s w) (\<lambda>(ok, w1).
        if \<not> ok then Done w1
        else
          bindO (tooQuickly s w1) (\<lambda>(e, w2).
          if e \<noteq> None then Done w2
          else
            bindO (record_start s w2) (\<lambda>w3.
            bindO (bump s (upd s (\<lambda>S. S\<lparr>starts := starts S + 1\<rparr>) w3)) (\<lambda>w4.
            let (e, w5) = prov_Start P s w4 in
            case e of
              Some er \<Rightarrow>
                let w6 = s_logf s (''Failed to start '' @ sname (svc w5 s) @ '': '' @ error_text er) w5;
                    w7 = upd s (\<lambda>S. S\<lparr>reason := ''Failed start:'' @ error_text er\<rparr>) w6;
                    w8 = stamp_now s w7
                in Done (upd s (\<lambda>S. S\<lparr>err := Some er, failed := True\<rparr>) w8)
            | None \<Rightarrow>
                let w6 = stamp_now s (upd s (\<lambda>S. S\<lparr>reason := ''Started''\<rparr>) w5);
                    w7 = s_logf s (''Started '' @ sname (svc w6 s) @ '': '' @ detail) w6;
                    w8 = upd s (\<lambda>S. S\<lparr>running := True, failed := False\<rparr>) w7;
                    (cs, w9) = range_keys (children (svc w8 s)) w8
                in foldO (\<lambda>c. startRecurse n P c ''Dependency running'') cs w9)))))"

fun stopRecurse :: "nat \<Rightarrow> 'p provider \<Rightarrow> sid \<Rightarrow> string \<Rightarrow> 'p world \<Rightarrow> 'p world outcome" where
  "stopRecurse 0 P s detail w = OutOfFuel"
| "stopRecurse (Suc n) P s detail w =
     (if \<not> running (svc w s) \<or> stopping (svc w s) then Done w
      else
        let w1 = upd s (\<lambda>S. S\<lparr>stopping := True\<rparr>) w;
            (cs, w2) = range_keys (children (svc w1 s)) w1
        in bindO (foldO (\<lambda>c w. bindO (canRun c w) (\<lambda>(ok, w').
                    if ok then Done w' else stopRecurse n P c ''Unmet dependency'' w')) cs w2) (\<lambda>w3.
           bindO (bump s w3) (\<lambda>w4.
           let w5 = prov_Stop P s w4;
               w6 = stamp_now s (upd s (\<lambda>S. S\<lparr>reason := detail\<rparr>) w5);
               w7 = s_logf s (''Stopped '' @ sname (svc w6 s) @ '': '' @ detail) w6
           in Done (upd s (\<lambda>S. S\<lparr>running := False, stopping := False\<rparr>) w7))))"

definition fuel :: "'p world \<Rightarrow> nat" where
  "fuel w = Suc (length (managed w))"

definition checkService :: "'p provider \<Rightarrow> sid \<Rightarrow> 'p world \<Rightarrow> (error option \<times> 'p world) outcome" where
  "checkService P s w =
     (if failed (svc w s) then Done (err (svc w s), w)
      else if \<not> running (svc w s) then Done (Some ErrNotRunning, w)
      else
        let (e, w2) = prov_Check P s (upd s (\<lambda>S. S\<lparr>in_check := True\<rparr>) w) in
        case e of
          Some er \<Rightarrow>
            bindO (bump s w2) (\<lambda>w3.
            let w4 = s_logf s (''Service '' @ sname (svc w3 s) @ '' faulted: '' @ error_text er) w3;
                w5 = upd s (\<lambda>S. S\<lparr>failed := True\<rparr>) w4
            in bindO (stopRecurse (fuel w5) P s (''Faulted: '' @ error_text er) w5) (\<lambda>w6.
               Done (Some er, upd s (\<lambda>S. S\<lparr>err := Some er, in_check := False\<rparr>) w6)))
        | None \<Rightarrow>
            if reason (svc w2 s) \<noteq> ''Healthy'' then
              bindO (bump s w2) (\<lambda>w3.
              let w4 = s_logf s ''Service healthy'' (upd s (\<lambda>S. S\<lparr>reason := ''Healthy''\<rparr>) w3);
                  w5 = stamp_now s w4
              in Done (None, upd s (\<lambda>S. S\<lparr>in_check := False\<rparr>) w5))
            else Done (None, upd s (\<lambda>S. S\<lparr>in_check := False\<rparr>) w2))"

definition selfHeal :: "'p provider \<Rightarrow> sid \<Rightarrow> 'p world \<Rightarrow> 'p world outcome" where
  "selfHeal P s w =
     (if failed (svc w s) \<and> restart (svc w s)
      then startRecurse (fuel w) P s ''Self-healing attempt'' (s_logf s ''Attempting self-healing'' w)
      else Done w)"

section \<open>What holds between the operations\<close>

text \<open>Every dependency of \<open>s\<close> has a serving parent.\<close>

definition satisfied :: "'p world \<Rightarrow> sid \<Rightarrow> bool" where
  "satisfied w s \<longleftrightarrow> (\<forall>(d, ps) \<in> set (parents (svc w s)). \<exists>p \<in> set ps. serving (svc w p))"

definition can_run :: "'p world \<Rightarrow> sid \<Rightarrow> bool" where
  "can_run w s \<longleftrightarrow> \<not> stopping (svc w s) \<and> enabled (svc w s) \<and> satisfied w s \<and>
     (\<forall>c \<in> set (incompat (svc w s)). \<not> enabled (svc w c))"

definition rate_ok :: "'p service \<Rightarrow> bool" where
  "rate_ok S \<longleftrightarrow> 0 \<le> rateLimit S \<and> 0 \<le> starts S \<and>
     (0 < rateLimit S \<longrightarrow> int (length (startTimes S)) = rateLimit S)"

definition limited :: "'p service \<Rightarrow> bool" where
  "limited S \<longleftrightarrow> rateLimit S \<noteq> 0 \<and> rateLimit S \<le> starts S"

text \<open>A service that is left stopped although it could be started.\<close>

definition stuck :: "'p world \<Rightarrow> sid \<Rightarrow> bool" where
  "stuck w s \<longleftrightarrow> s \<in> set (managed w) \<and> can_run w s \<and> \<not> running (svc w s) \<and>
     \<not> failed (svc w s) \<and> \<not> limited (svc w s)"

text \<open>A service that could be started, whether it has failed or not.\<close>

definition waiting :: "'p world \<Rightarrow> sid \<Rightarrow> bool" where
  "waiting w s \<longleftrightarrow> s \<in> set (managed w) \<and> can_run w s \<and> \<not> running (svc w s) \<and> \<not> limited (svc w s)"

lemma stuck_waiting: "stuck w s \<longleftrightarrow> waiting w s \<and> \<not> failed (svc w s)"
  by (auto simp: stuck_def waiting_def)

definition base_ok :: "'p world \<Rightarrow> bool" where
  "base_ok w \<longleftrightarrow> graph_ok w \<and> permutes_keys (ord w) \<and> (\<forall>u. rate_ok (svc w u)) \<and>
     (\<forall>u. u \<notin> set (managed w) \<longrightarrow> \<not> enabled (svc w u) \<and> \<not> running (svc w u))"

definition service_ok :: "'p service \<Rightarrow> bool" where
  "service_ok S \<longleftrightarrow> \<not> stopping S \<and> \<not> in_check S \<and> (running S \<longrightarrow> enabled S \<and> \<not> failed S) \<and>
     (failed S \<longrightarrow> err S \<noteq> None)"

definition exclusive :: "'p world \<Rightarrow> bool" where
  "exclusive w \<longleftrightarrow> (\<forall>s \<in> set (managed w). \<forall>t \<in> set (incompat (svc w s)).
     \<not> (enabled (svc w s) \<and> enabled (svc w t)))"

definition inv :: "'p world \<Rightarrow> bool" where
  "inv w \<longleftrightarrow> base_ok w \<and> exclusive w \<and> (\<forall>u. service_ok (svc w u)) \<and>
     (\<forall>u. running (svc w u) \<longrightarrow> satisfied w u)"

section \<open>Frames\<close>

definition flags_of :: "'p service \<Rightarrow> bool \<times> bool \<times> bool \<times> bool \<times> bool \<times> error option" where
  "flags_of S = (enabled S, running S, stopping S, failed S, in_check S, err S)"

definition frame :: "'p world \<Rightarrow> 'p world \<Rightarrow> bool" where
  "frame w w' \<longleftrightarrow> managed w' = managed w \<and> (permutes_keys (ord w) \<longrightarrow> permutes_keys (ord w')) \<and>
     (\<forall>u. links_of (svc w' u) = links_of (svc w u) \<and> identity_of (svc w' u) = identity_of (svc w u) \<and>
       has_mgr (svc w' u) = has_mgr (svc w u) \<and> rateLimit (svc w' u) = rateLimit (svc w u) \<and>
       restart (svc w' u) = restart (svc w u) \<and> (rate_ok (svc w u) \<longrightarrow> rate_ok (svc w' u)))"

definition still :: "'p world \<Rightarrow> 'p world \<Rightarrow> bool" where
  "still w w' \<longleftrightarrow> frame w w' \<and>
     (\<forall>u. flags_of (svc w' u) = flags_of (svc w u) \<and> starts (svc w' u) = starts (svc w u))"

lemma frame_refl [simp]: "frame w w"
  by (simp add: frame_def)

lemma frame_trans: "frame w w' \<Longrightarrow> frame w' w'' \<Longrightarrow> frame w w''"
  by (simp add: frame_def)

lemma still_refl [simp]: "still w w"
  by (simp add: still_def)

lemma still_trans [trans]: "still w w' \<Longrightarrow> still w' w'' \<Longrightarrow> still w w''"
  by (auto simp: still_def intro: frame_trans)

lemma frame_managed: "frame w w' \<Longrightarrow> managed w' = managed w"
  by (simp add: frame_def)

lemma frame_links:
  assumes "frame w w'"
  shows "parents (svc w' u) = parents (svc w u)" "children (svc w' u) = children (svc w u)"
    "incompat (svc w' u) = incompat (svc w u)"
  using assms by (auto simp: frame_def links_of_def)

lemma frame_graph: "frame w w' \<Longrightarrow> graph_ok w' \<longleftrightarrow> graph_ok w"
  by (rule graph_ok_cong) (simp_all add: frame_def)

lemma frame_fuel: "frame w w' \<Longrightarrow> fuel w' = fuel w"
  by (simp add: fuel_def frame_def)

lemma still_frame: "still w w' \<Longrightarrow> frame w w'"
  by (simp add: still_def)

lemma still_flags:
  assumes "still w w'"
  shows "enabled (svc w' u) = enabled (svc w u)" "running (svc w' u) = running (svc w u)"
    "stopping (svc w' u) = stopping (svc w u)" "failed (svc w' u) = failed (svc w u)"
    "in_check (svc w' u) = in_check (svc w u)" "err (svc w' u) = err (svc w u)"
    "starts (svc w' u) = starts (svc w u)"
  using assms by (auto simp: still_def flags_of_def)

lemma still_serving: "still w w' \<Longrightarrow> serving (svc w' u) = serving (svc w u)"
  by (simp add: serving_def still_flags)

lemma still_satisfied: "still w w' \<Longrightarrow> satisfied w' u = satisfied w u"
  by (simp add: satisfied_def still_serving frame_links [OF still_frame])

lemma still_can_run: "still w w' \<Longrightarrow> can_run w' u = can_run w u"
  by (simp add: can_run_def still_satisfied still_flags frame_links [OF still_frame])

lemma still_limited: "still w w' \<Longrightarrow> limited (svc w' u) = limited (svc w u)"
  using still_frame [of w w'] by (simp add: limited_def still_flags frame_def)

lemma still_stuck: "still w w' \<Longrightarrow> stuck w' u = stuck w u"
  by (simp add: stuck_def still_can_run still_flags still_limited frame_managed [OF still_frame])

lemma still_waiting: "still w w' \<Longrightarrow> waiting w' u = waiting w u"
  by (simp add: waiting_def still_can_run still_flags still_limited frame_managed [OF still_frame])

lemma frame_base_ok:
  assumes "frame w w'" and "base_ok w"
    and "\<And>u. enabled (svc w' u) \<Longrightarrow> u \<notin> set (managed w) \<Longrightarrow> enabled (svc w u)"
    and "\<And>u. running (svc w' u) \<Longrightarrow> u \<notin> set (managed w) \<Longrightarrow> running (svc w u)"
  shows "base_ok w'"
  using assms frame_graph [of w w'] by (auto simp: base_ok_def frame_def)

lemma still_base_ok: "still w w' \<Longrightarrow> base_ok w \<Longrightarrow> base_ok w'"
  by (rule frame_base_ok) (simp_all add: still_frame still_flags)

lemma still_inv: "still w w' \<Longrightarrow> inv w \<Longrightarrow> inv w'"
  by (auto simp: inv_def still_base_ok exclusive_def service_ok_def still_satisfied still_flags
      frame_links [OF still_frame] frame_managed [OF still_frame])

text \<open>The assignments, calls and log lines that leave the flags alone.\<close>

lemma still_upd:
  assumes "\<And>S. links_of (f S) = links_of S" "\<And>S. identity_of (f S) = identity_of S"
    "\<And>S. has_mgr (f S) = has_mgr S" "\<And>S. rateLimit (f S) = rateLimit S"
    "\<And>S. restart (f S) = restart S" "\<And>S. rate_ok S \<Longrightarrow> rate_ok (f S)"
    "\<And>S. flags_of (f S) = flags_of S" "\<And>S. starts (f S) = starts S"
  shows "still w (upd s f w)"
  using assms by (simp add: still_def frame_def)

lemma still_same_svc:
  assumes "svc w' = svc w" "managed w' = managed w" "ord w' = ord w"
  shows "still w w'"
  using assms by (simp add: still_def frame_def)

lemma still_fields [simp]:
  "still w (upd s (\<lambda>S. S\<lparr>prov := p S\<rparr>) w)" "still w (upd s (\<lambda>S. S\<lparr>reason := r S\<rparr>) w)"
  "still w (upd s (\<lambda>S. S\<lparr>stamp := t S\<rparr>) w)" "still w (upd s (\<lambda>S. S\<lparr>rateLog := b S\<rparr>) w)"
  "still w (upd s (\<lambda>S. S\<lparr>s_serial := n S\<rparr>) w)"
  by (rule still_upd; simp add: links_of_def identity_of_def flags_of_def rate_ok_def)+

lemma still_logf [simp]: "still w (s_logf s msg w)" "still w (m_logf msg w)"
  by (rule still_same_svc; simp)+

lemma still_prints [simp]: "still w (provider_prints out w)"
  by (rule still_same_svc) simp_all

lemma still_tick [simp]: "still w (tick w)"
  by (rule still_same_svc) simp_all

lemma still_stamp [simp]: "still w (stamp_now s w)"
  unfolding stamp_now_def by (rule still_trans [OF still_fields(3) still_tick])

lemma still_bumpSerial [simp]: "still w (snd (bumpSerial w))"
  by (rule still_same_svc) simp_all

lemma still_range_keys [simp]: "still w (snd (range_keys ks w))"
  by (simp add: still_def frame_def)

lemma still_prov [simp]:
  "still w (snd (prov_Start P s w))" "still w (prov_Stop P s w)" "still w (snd (prov_Check P s w))"
  by (simp_all add: prov_Start_def prov_Stop_def prov_Check_def case_prod_beta
      still_trans [OF still_fields(1) still_prints])

lemma bump_still: "has_mgr (svc w s) \<Longrightarrow> returns (bump s w) (still w)"
  by (simp add: bump_def case_prod_beta still_trans [OF still_bumpSerial still_fields(5)])

lemma bump_upd_reason_still:
  "has_mgr (svc w s) \<Longrightarrow> returns (bump s (upd s (\<lambda>S. S\<lparr>reason := r\<rparr>) w)) (still w)"
  by (rule returns_mono [OF bump_still]) (simp, rule still_trans [OF still_fields(2)])


section \<open>Single steps\<close>

lemma base_ok_has_mgr: "base_ok w \<Longrightarrow> s \<in> set (managed w) \<Longrightarrow> has_mgr (svc w s)"
  by (simp add: base_ok_def graph_ok_def)

lemma base_ok_rate: "base_ok w \<Longrightarrow> rate_ok (svc w s)"
  by (simp add: base_ok_def)

lemma satisfied_list:
  "list_ex (\<lambda>(_, deps). \<not> list_ex (\<lambda>d. serving (svc w d)) deps) (parents (svc w s)) \<longleftrightarrow> \<not> satisfied w s"
  by (auto simp: satisfied_def list_ex_iff)

lemma canRun_spec:
  assumes "base_ok w" and "s \<in> set (managed w)"
  shows "returns (canRun s w) (\<lambda>(ok, w'). still w w' \<and> ok = can_run w s)"
proof -
  have b: "returns (bump s (upd s (\<lambda>S. S\<lparr>reason := ''Unmet dependency''\<rparr>) w))
      (\<lambda>w1. still w (stamp_now s w1))"
    by (rule returns_mono [OF bump_upd_reason_still])
      (auto simp: base_ok_has_mgr [OF assms] intro: still_trans [OF _ still_stamp])
  consider "stopping (svc w s) \<or> \<not> enabled (svc w s)"
    | "\<not> (stopping (svc w s) \<or> \<not> enabled (svc w s))" "\<not> satisfied w s"
    | "\<not> (stopping (svc w s) \<or> \<not> enabled (svc w s))" "satisfied w s"
    by blast
  then show ?thesis
  proof cases
    case 2
    then show ?thesis
      using returns_mono [OF b] by (simp add: canRun_def Let_def satisfied_list can_run_def)
  next
    case 3
    then show ?thesis
      by (simp add: canRun_def Let_def satisfied_list) (auto simp: can_run_def list_ex_iff)
  qed (auto simp: canRun_def can_run_def)
qed

lemma smod_index:
  assumes "0 < m" "- m \<le> i" "i = - 1 \<longrightarrow> m = 1"  "0 \<le> i \<or> i = - 1"
  shows "0 \<le> i smod m \<and> i smod m < (m :: int)"
  using assms by (auto simp: smod_int_alt_def sgn_if)

lemma limited_tooQuickly: "\<not> limited (svc w s) \<Longrightarrow> rate_ok (svc w s) \<Longrightarrow> tooQuickly s w = Done (None, w)"
  by (auto simp: tooQuickly_def limited_def Let_def rate_ok_def)

lemma tooQuickly_spec:
  assumes "rate_ok (svc w s)"
  shows "returns (tooQuickly s w) (\<lambda>(e, w'). still w w' \<and> (e \<noteq> None \<longrightarrow> limited (svc w s)))"
proof (cases "limited (svc w s)")
  case False
  then show ?thesis
    by (simp add: limited_tooQuickly [OF False assms])
next
  case True
  let ?S = "svc w s"
  have S: "0 < rateLimit ?S" "rateLimit ?S \<le> starts ?S" "int (length (startTimes ?S)) = rateLimit ?S"
    using True assms by (auto simp: limited_def rate_ok_def)
  have "0 \<le> (starts ?S - 1) smod rateLimit ?S \<and> (starts ?S - 1) smod rateLimit ?S < rateLimit ?S"
    using S by (intro smod_index) auto
  then obtain t1 where t1: "index_time (startTimes ?S) ((starts ?S - 1) smod rateLimit ?S) = Done t1"
    using S(3) by (simp add: index_time_def)
  have "0 \<le> (starts ?S - 2) smod rateLimit ?S \<and> (starts ?S - 2) smod rateLimit ?S < rateLimit ?S"
    using S by (intro smod_index) auto
  then obtain t2 where t2: "index_time (startTimes ?S) ((starts ?S - 2) smod rateLimit ?S) = Done t2"
    using S(3) by (simp add: index_time_def)
  have log: "still w (upd s (\<lambda>S. S\<lparr>rateLog := True\<rparr>) (if b then s_logf s m (tick w) else tick w))"
    for b m
    by (rule still_trans [OF _ still_fields(4)]) (auto intro: still_trans [OF still_tick still_logf(1)])
  have clear: "still w (upd s (\<lambda>S. S\<lparr>rateLog := False\<rparr>) (tick (tick w)))"
    by (rule still_trans [OF still_trans [OF still_tick still_tick] still_fields(4)])
  show ?thesis
    using S True by (simp add: tooQuickly_def Let_def t1 t2 log clear still_trans [OF still_tick still_tick])
qed

text \<open>One start of \<open>s\<close> is counted, nothing else that matters changes.\<close>

definition started_once :: "sid \<Rightarrow> 'p world \<Rightarrow> 'p world \<Rightarrow> bool" where
  "started_once s w w' \<longleftrightarrow> frame w w' \<and> (\<forall>u. flags_of (svc w' u) = flags_of (svc w u)) \<and>
     (\<forall>u. starts (svc w' u) = starts (svc w u) + (if u = s then 1 else 0))"

lemma started_once_still: "started_once s w w' \<Longrightarrow> still w' w'' \<Longrightarrow> started_once s w w''"
  by (auto simp: still_def started_once_def intro: frame_trans)

lemma record_start_spec:
  assumes "rate_ok (svc w s)"
  shows "returns (record_start s w) (\<lambda>w'. still w w')"
proof (cases "0 < rateLimit (svc w s)")
  case False
  then show ?thesis by (simp add: record_start_def Let_def)
next
  case True
  let ?S = "svc w s"
  let ?i = "nat (starts ?S smod rateLimit ?S)"
  have i: "0 \<le> starts ?S smod rateLimit ?S \<and> starts ?S smod rateLimit ?S < rateLimit ?S"
    using True assms by (intro smod_index) (auto simp: rate_ok_def)
  have "still w (upd s (\<lambda>S. S\<lparr>startTimes := (startTimes S)[?i := now w]\<rparr>) w)"
    by (rule still_upd) (simp_all add: links_of_def identity_of_def flags_of_def rate_ok_def)
  then show ?thesis
    using True i assms by (simp add: record_start_def Let_def rate_ok_def still_trans [OF _ still_tick])
qed

lemma count_start_spec:
  assumes "has_mgr (svc w s)"
  shows "returns (bump s (upd s (\<lambda>S. S\<lparr>starts := starts S + 1\<rparr>) w)) (started_once s w)"
proof -
  let ?v = "upd s (\<lambda>S. S\<lparr>starts := starts S + 1\<rparr>) w"
  have v: "started_once s w ?v"
    by (simp add: started_once_def frame_def links_of_def identity_of_def flags_of_def rate_ok_def)
  have "returns (bump s ?v) (still ?v)" using assms by (intro bump_still) simp
  then show ?thesis by (rule returns_mono) (rule started_once_still [OF v])
qed

lemma started_once_facts:
  assumes "started_once s w w'"
  shows "frame w w'" "flags_of (svc w' u) = flags_of (svc w u)"
    "enabled (svc w' u) = enabled (svc w u)" "running (svc w' u) = running (svc w u)"
    "stopping (svc w' u) = stopping (svc w u)" "failed (svc w' u) = failed (svc w u)"
    "serving (svc w' u) = serving (svc w u)" "satisfied w' u = satisfied w u"
proof -
  show "frame w w'" "flags_of (svc w' u) = flags_of (svc w u)" for u
    using assms by (simp_all add: started_once_def)
  then show "enabled (svc w' u) = enabled (svc w u)" "running (svc w' u) = running (svc w u)"
    "stopping (svc w' u) = stopping (svc w u)" "failed (svc w' u) = failed (svc w u)" for u
    by (auto simp: flags_of_def)
  then show serving: "serving (svc w' u) = serving (svc w u)" for u by (simp add: serving_def)
  show "satisfied w' u = satisfied w u"
    by (simp add: satisfied_def serving frame_links [OF \<open>frame w w'\<close>])
qed

end
