(* ===== verification/Recursion.thy ===== *)
theory Recursion
  imports Engine
begin

text \<open>
  What the two recursions over the dependency graph do: \<open>stopRecurse\<close> leaves no service running
  whose dependencies are gone and stops no service that could go on, \<open>startRecurse\<close> starts
  every service that the start of its argument makes startable; both return within \<open>fuel\<close>,
  and \<open>checkService\<close> and \<open>selfHeal\<close>, which call them, keep the invariant.
\<close>

section \<open>Stopping\<close>

lemma graph_links:
  "graph_ok w \<Longrightarrow> s \<in> set (managed w) \<Longrightarrow>
   links (dep_of w) (conf_of w) (keys_of w) (svc w) (set (managed w)) s"
  unfolding graph_ok_def by blast

lemma in_links:
  assumes "graph_ok w" and "s \<in> set (managed w)"
  shows "c \<in> set (children (svc w s)) \<longleftrightarrow> c \<in> set (managed w) \<and> c \<noteq> s \<and> dep_of w c s \<noteq> None"
    and "c \<in> set (incompat (svc w s)) \<longleftrightarrow> c \<in> set (managed w) \<and> c \<noteq> s \<and> conf_of w s c"
    and "(d, ps) \<in> set (parents (svc w s)) \<Longrightarrow>
      c \<in> set ps \<longleftrightarrow> c \<in> set (managed w) \<and> c \<noteq> s \<and> dep_of w s c = Some d"
  using graph_links [OF assms] unfolding links_def by simp_all

lemma parent_has_child:
  assumes "graph_ok w" and "u \<in> set (managed w)" and "(d, ps) \<in> set (parents (svc w u))" and "p \<in> set ps"
  shows "u \<in> set (children (svc w p))" "p \<in> set (managed w)" "p \<noteq> u"
  using assms(4) in_links(1) [OF assms(1), of p u] assms(2)
  unfolding in_links(3) [OF assms(1,2,3)] by auto

lemma children_managed:
  "graph_ok w \<Longrightarrow> s \<in> set (managed w) \<Longrightarrow> c \<in> set (children (svc w s)) \<Longrightarrow> c \<in> set (managed w) \<and> c \<noteq> s"
  by (simp add: in_links(1))

lemma incompat_managed:
  assumes "graph_ok w" "s \<in> set (managed w)" "c \<in> set (incompat (svc w s))"
  shows "c \<in> set (managed w)" "c \<noteq> s" "s \<in> set (incompat (svc w c))"
  using assms(3) in_links(2) [OF assms(1), of c s] conf_of_sym [of w s c]
  unfolding in_links(2) [OF assms(1,2)] by (simp_all add: assms(2))

text \<open>The dependencies of every service outside \<open>X\<close> that is running, and not about to stop, are met.\<close>

definition dep_ok :: "sid set \<Rightarrow> 'p world \<Rightarrow> bool" where
  "dep_ok X w \<longleftrightarrow> (\<forall>u. u \<notin> X \<and> running (svc w u) \<and> \<not> stopping (svc w u) \<longrightarrow> satisfied w u)"

text \<open>Some services stopped, and of those outside \<open>A\<close> only ones that cannot run.\<close>

definition halted :: "sid set \<Rightarrow> 'p world \<Rightarrow> 'p world \<Rightarrow> bool" where
  "halted A w w' \<longleftrightarrow> frame w w' \<and>
     (\<forall>u. enabled (svc w' u) = enabled (svc w u) \<and> stopping (svc w' u) = stopping (svc w u) \<and>
       failed (svc w' u) = failed (svc w u) \<and> in_check (svc w' u) = in_check (svc w u) \<and>
       err (svc w' u) = err (svc w u) \<and> starts (svc w' u) = starts (svc w u) \<and>
       (running (svc w' u) \<longrightarrow> running (svc w u)) \<and>
       (stopping (svc w u) \<longrightarrow> running (svc w' u) = running (svc w u)) \<and>
       (u \<notin> A \<and> running (svc w u) \<and> \<not> running (svc w' u) \<longrightarrow> \<not> can_run w' u))"

lemma still_halted: "still w w' \<Longrightarrow> halted A w w'"
  by (simp add: halted_def still_frame still_flags)

lemma halted_flags:
  assumes "halted A w w'"
  shows "frame w w'" "enabled (svc w' u) = enabled (svc w u)" "stopping (svc w' u) = stopping (svc w u)"
    "failed (svc w' u) = failed (svc w u)" "in_check (svc w' u) = in_check (svc w u)"
    "err (svc w' u) = err (svc w u)" "starts (svc w' u) = starts (svc w u)"
    "running (svc w' u) \<Longrightarrow> running (svc w u)"
    "stopping (svc w u) \<Longrightarrow> running (svc w' u) = running (svc w u)"
  using assms by (auto simp: halted_def)

lemma halted_satisfied:
  assumes "halted A w w'" and "satisfied w' u"
  shows "satisfied w u"
proof -
  have "serving (svc w' p) \<Longrightarrow> serving (svc w p)" for p
    using halted_flags(2-) [OF assms(1), of p] by (auto simp: serving_def)
  then show ?thesis
    using assms(2) frame_links [OF halted_flags(1) [OF assms(1)]] by (fastforce simp: satisfied_def)
qed

lemma halted_can_run:
  assumes "halted A w w'" and "can_run w' u"
  shows "can_run w u"
  using assms(2) halted_satisfied [OF assms(1)] frame_links [OF halted_flags(1) [OF assms(1)]]
  by (simp add: can_run_def halted_flags [OF assms(1)])

lemma halted_trans:
  assumes "halted A w w'" and "halted {c} w' w''" and "\<not> can_run w' c"
  shows "halted A w w''"
proof -
  have "\<not> can_run w'' u" if "u \<notin> A" "running (svc w u)" "\<not> running (svc w'' u)" for u
  proof (cases "running (svc w' u) \<and> u \<noteq> c")
    case True
    then show ?thesis using assms(2) that by (simp add: halted_def)
  next
    case False
    then have "\<not> can_run w' u" using assms(1,3) that by (auto simp: halted_def)
    then show ?thesis using halted_can_run [OF assms(2)] by blast
  qed
  then show ?thesis
    using assms(1,2) by (auto simp: halted_def intro: frame_trans)
qed

lemma halted_still:
  assumes "halted A w w'" and "still w' w''"
  shows "halted A w w''"
  using assms still_flags [OF assms(2)] still_can_run [OF assms(2)]
  by (auto simp: halted_def intro: frame_trans still_frame)

lemma halted_base_ok:
  assumes "halted A w w'" and "base_ok w"
  shows "base_ok w'"
  by (rule frame_base_ok [OF halted_flags(1) [OF assms(1)] assms(2)])
    (simp_all add: halted_flags [OF assms(1)])

definition active :: "'p world \<Rightarrow> nat" where
  "active w = length (filter (\<lambda>u. running (svc w u) \<and> \<not> stopping (svc w u)) (managed w))"

lemma halted_active: "halted A w w' \<Longrightarrow> active w' \<le> active w"
  unfolding active_def frame_managed [OF halted_flags(1)]
  by (rule length_filter_mono) (auto dest: halted_flags)

lemma still_dep_ok: "still w w' \<Longrightarrow> dep_ok X w' = dep_ok X w"
  by (simp add: dep_ok_def still_flags still_satisfied)


section \<open>The specification of \<open>stopRecurse\<close>\<close>

lemma mark_stopping:
  assumes "base_ok w" and "s \<in> set (managed w)" and "running (svc w s)" "\<not> stopping (svc w s)"
    and "dep_ok (insert s (X \<union> set (children (svc w s)))) w"
  defines "w1 \<equiv> upd s (\<lambda>S. S\<lparr>stopping := True\<rparr>) w"
  shows "frame w w1" "base_ok w1" "dep_ok (X \<union> set (children (svc w s))) w1" "active w1 < active w"
proof -
  show f: "frame w w1"
    by (simp add: frame_def w1_def links_of_def identity_of_def rate_ok_def)
  show "base_ok w1"
    by (rule frame_base_ok [OF f assms(1)]) (auto simp: w1_def split: if_splits)
  show "active w1 < active w"
    unfolding active_def frame_managed [OF f]
    by (rule length_filter_strict [where y = s]) (use assms(2,3,4) in \<open>auto simp: w1_def split: if_splits\<close>)
  show "dep_ok (X \<union> set (children (svc w s))) w1"
    unfolding dep_ok_def
  proof (intro allI impI)
    fix u
    assume u: "u \<notin> X \<union> set (children (svc w s)) \<and> running (svc w1 u) \<and> \<not> stopping (svc w1 u)"
    then have us: "u \<noteq> s" and run: "running (svc w u)" "\<not> stopping (svc w u)"
      by (auto simp: w1_def split: if_splits)
    then have "satisfied w u" and "u \<in> set (managed w)"
      using u assms(1,5) by (auto simp: dep_ok_def base_ok_def)
    moreover have "p \<noteq> s" if "(d, ps) \<in> set (parents (svc w u))" "p \<in> set ps" for d ps p
      using parent_has_child(1) [OF _ \<open>u \<in> set (managed w)\<close> that] assms(1) u by (auto simp: base_ok_def)
    ultimately show "satisfied w1 u"
      using us by (fastforce simp: satisfied_def w1_def)
  qed
qed

lemma clear_stopping:
  assumes "frame w w1" "halted {s} w1 w3" "still w3 w4"
    and "w1 = upd s (\<lambda>S. S\<lparr>stopping := True\<rparr>) w"
    and "running (svc w s)" "\<not> stopping (svc w s)" "dep_ok X w3"
  defines "w' \<equiv> upd s (\<lambda>S. S\<lparr>running := False, stopping := False\<rparr>) w4"
  shows "halted {s} w w'" "\<not> running (svc w' s)" "dep_ok X w'"
proof -
  have f4: "frame w4 w'"
    by (simp add: frame_def w'_def links_of_def identity_of_def rate_ok_def)
  have f: "frame w w'"
    by (rule frame_trans [OF frame_trans [OF assms(1) halted_flags(1) [OF assms(2)]]
        frame_trans [OF still_frame [OF assms(3)] f4]])
  have st3: "stopping (svc w3 s)"
    using halted_flags(3) [OF assms(2), of s] by (simp add: assms(4))
  have serving: "serving (svc w' u) = serving (svc w3 u)" for u
    using st3 still_serving [OF assms(3), of u] by (simp add: w'_def serving_def)
  have sat: "satisfied w' u = satisfied w3 u" for u
    by (simp add: satisfied_def serving frame_links [OF f4] frame_links [OF still_frame [OF assms(3)]])
  have other: "flags_of (svc w' u) = flags_of (svc w3 u)" if "u \<noteq> s" for u
    using that assms(3) by (simp add: w'_def still_def)
  have en: "enabled (svc w' u) = enabled (svc w3 u)" for u
    by (simp add: w'_def still_flags [OF assms(3)])
  have can: "can_run w' u = can_run w3 u" if "u \<noteq> s" for u
    using other [OF that] sat frame_links [OF f4] frame_links [OF still_frame [OF assms(3)]]
    by (simp add: can_run_def en flags_of_def)
  have w1: "flags_of (svc w1 u) = flags_of (svc w u)" if "u \<noteq> s" for u
    using that by (simp add: assms(4))
  show stopped: "\<not> running (svc w' s)" by (simp add: w'_def)
  show "dep_ok X w'"
    unfolding dep_ok_def
  proof (intro allI impI)
    fix u
    assume u: "u \<notin> X \<and> running (svc w' u) \<and> \<not> stopping (svc w' u)"
    then have "u \<noteq> s" using stopped by auto
    then show "satisfied w' u"
      using u assms(7) other [of u] sat by (simp add: dep_ok_def flags_of_def)
  qed
  show "halted {s} w w'"
    unfolding halted_def
  proof (intro conjI f allI)
    fix u
    note h = halted_flags(2-) [OF assms(2), of u]
    note k = still_flags [OF assms(3), of u]
    show "enabled (svc w' u) = enabled (svc w u)" "failed (svc w' u) = failed (svc w u)"
      "in_check (svc w' u) = in_check (svc w u)" "err (svc w' u) = err (svc w u)"
      "starts (svc w' u) = starts (svc w u)" "stopping (svc w' u) = stopping (svc w u)"
      "running (svc w' u) \<longrightarrow> running (svc w u)"
      "stopping (svc w u) \<longrightarrow> running (svc w' u) = running (svc w u)"
      using h k assms(6) by (simp_all add: w'_def assms(4) split: if_splits)
    show "u \<notin> {s} \<and> running (svc w u) \<and> \<not> running (svc w' u) \<longrightarrow> \<not> can_run w' u"
      using assms(2) can [of u] other [of u] w1 [of u] by (auto simp: halted_def flags_of_def)
  qed
qed


text \<open>The fuel of the recursion bounds the services still active.\<close>

lemma stopRecurse_spec:
  assumes "base_ok w" and "s \<in> set (managed w)" and "active w < n"
    and "dep_ok (insert s (X \<union> set (children (svc w s)))) w"
  shows "returns (stopRecurse n P s detail w) (\<lambda>w'. halted {s} w w' \<and> base_ok w' \<and>
    (if running (svc w s) \<and> \<not> stopping (svc w s)
     then \<not> running (svc w' s) \<and> dep_ok X w' else w' = w))"
  using assms
proof (induction n arbitrary: s X detail w)
  case 0
  then show ?case by simp
next
  case (Suc n)
  show ?case
  proof (cases "running (svc w s) \<and> \<not> stopping (svc w s)")
    case False
    then show ?thesis using Suc.prems(1) by (simp add: still_halted)
  next
    case True
    define w1 where "w1 = upd s (\<lambda>S. S\<lparr>stopping := True\<rparr>) w"
    define cs where "cs = fst (range_keys (children (svc w1 s)) w1)"
    define w2 where "w2 = snd (range_keys (children (svc w1 s)) w1)"
    note mark = mark_stopping [OF Suc.prems(1,2) _ _ Suc.prems(4), folded w1_def]
    have m: "frame w w1" "base_ok w1" "dep_ok (X \<union> set (children (svc w s))) w1" "active w1 < n"
      using mark True Suc.prems(3) by auto
    have cs: "set cs = set (children (svc w s))"
      using m(2) by (simp add: cs_def w1_def base_ok_def)
    have w2: "still w1 w2" by (simp add: w2_def)
    let ?step = "\<lambda>c w. bindO (canRun c w) (\<lambda>(ok, w'). if ok then Done w'
      else stopRecurse n P c ''Unmet dependency'' w')"
    let ?I = "\<lambda>ys v. halted {s} w1 v \<and> base_ok v \<and> dep_ok (X \<union> set ys) v"
    have step: "returns (?step c v) (?I ys)" if c: "c \<in> set cs" and I: "?I (c # ys) v" for c ys v
    proof -
      have man: "managed v = managed w"
        using frame_managed [OF m(1)] frame_managed [OF halted_flags(1)] I by metis
      have cm: "c \<in> set (managed v)"
        using c cs man children_managed [OF _ Suc.prems(2)] Suc.prems(1) by (auto simp: base_ok_def)
      have go: "returns (if can_run v c then Done v' else stopRecurse n P c ''Unmet dependency'' v') (?I ys)"
        if st: "still v v'" for v'
      proof -
        have h: "halted {s} w1 v'" and b: "base_ok v'" and d: "dep_ok (X \<union> set (c # ys)) v'"
          using I halted_still [OF _ st] still_base_ok [OF st] still_dep_ok [OF st] by auto
        show ?thesis
        proof (cases "can_run v c")
          case True
          then have "satisfied v' c" by (simp add: can_run_def still_satisfied [OF st])
          then have "dep_ok (X \<union> set ys) v'" using d by (auto simp: dep_ok_def)
          then show ?thesis using True h b by simp
        next
          case False
          then have nc: "\<not> can_run v' c" by (simp add: still_can_run [OF st])
          have "active v' < n" using halted_active [OF h] m(4) by simp
          moreover have "dep_ok (insert c ((X \<union> set ys) \<union> set (children (svc v' c)))) v'"
            using d by (auto simp: dep_ok_def)
          moreover have "c \<in> set (managed v')" using cm frame_managed [OF still_frame [OF st]] by simp
          ultimately have "returns (stopRecurse n P c ''Unmet dependency'' v') (\<lambda>v''.
            halted {c} v' v'' \<and> base_ok v'' \<and>
            (if running (svc v' c) \<and> \<not> stopping (svc v' c)
             then \<not> running (svc v'' c) \<and> dep_ok (X \<union> set ys) v'' else v'' = v'))"
            using b by (intro Suc.IH)
          moreover have "dep_ok (X \<union> set ys) v'" if "\<not> (running (svc v' c) \<and> \<not> stopping (svc v' c))"
            using d that by (auto simp: dep_ok_def)
          ultimately show ?thesis
            using False by (auto intro: returns_mono halted_trans [OF h _ nc] split: if_splits)
        qed
      qed
      show ?thesis
        by (simp, rule returns_mono [OF canRun_spec [OF _ cm]]) (use I go in auto)
    qed
    have "?I cs w2"
      using m still_halted [OF w2] still_base_ok [OF w2] by (simp add: still_dep_ok [OF w2] cs)
    then have loop: "returns (foldO ?step cs w2) (?I [])"
      by (rule returns_foldO) (rule step)
    have finish: "returns (bump s v) (\<lambda>w4. \<forall>w5. still w4 w5 \<longrightarrow>
        (let w' = upd s (\<lambda>S. S\<lparr>running := False, stopping := False\<rparr>) w5
         in halted {s} w w' \<and> base_ok w' \<and> \<not> running (svc w' s) \<and> dep_ok X w'))"
      if I: "?I [] v" for v
    proof (rule returns_mono [OF bump_still])
      have "s \<in> set (managed v)"
        using Suc.prems(2) frame_managed [OF m(1)] frame_managed [OF halted_flags(1)] I by metis
      then show "has_mgr (svc v s)" using I by (simp add: base_ok_has_mgr)
      fix w4
      assume v4: "still v w4"
      have "halted {s} w w' \<and> base_ok w' \<and> \<not> running (svc w' s) \<and> dep_ok X w'"
        if "still w4 w5" "w' = upd s (\<lambda>S. S\<lparr>running := False, stopping := False\<rparr>) w5" for w5 w'
      proof -
        have h: "halted {s} w1 v" and d: "dep_ok X v" and run: "running (svc w s)" "\<not> stopping (svc w s)"
          using I True by simp_all
        note c = clear_stopping [OF m(1) h still_trans [OF v4 that(1)] w1_def run d, folded that(2)]
        show ?thesis using c halted_base_ok [OF c(1) Suc.prems(1)] by blast
      qed
      then show "\<forall>w5. still w4 w5 \<longrightarrow>
        (let w' = upd s (\<lambda>S. S\<lparr>running := False, stopping := False\<rparr>) w5
         in halted {s} w w' \<and> base_ok w' \<and> \<not> running (svc w' s) \<and> dep_ok X w')"
        by (simp add: Let_def)
    qed
    have last: "still w4 (s_logf s m (stamp_now s (upd s (\<lambda>S. S\<lparr>reason := detail\<rparr>) (prov_Stop P s w4))))"
      for w4 m
      by (rule still_trans [OF still_prov(2) still_trans [OF still_fields(2)
          still_trans [OF still_stamp still_logf(1)]]])
    have "returns (foldO ?step cs w2) (\<lambda>v. returns (bump s v) (\<lambda>w4. returns (
        let w5 = prov_Stop P s w4;
            w6 = stamp_now s (upd s (\<lambda>S. S\<lparr>reason := detail\<rparr>) w5);
            w7 = s_logf s (''Stopped '' @ sname (svc w6 s) @ '': '' @ detail) w6
        in Done (upd s (\<lambda>S. S\<lparr>running := False, stopping := False\<rparr>) w7))
      (\<lambda>w'. halted {s} w w' \<and> base_ok w' \<and> \<not> running (svc w' s) \<and> dep_ok X w')))"
      by (rule returns_mono [OF loop], rule returns_mono [OF finish], assumption)
        (use last in \<open>simp add: Let_def\<close>)
    then show ?thesis
      using True by (simp add: Let_def case_prod_beta w1_def cs_def w2_def)
  qed
qed


section \<open>Starting\<close>

definition idle :: "'p world \<Rightarrow> nat" where
  "idle w = length (filter (\<lambda>u. \<not> running (svc w u)) (managed w))"

text \<open>The start counters grow with the services that start.\<close>

definition counted :: "'p world \<Rightarrow> 'p world \<Rightarrow> bool" where
  "counted w w' \<longleftrightarrow> (\<forall>u. starts (svc w' u) =
     starts (svc w u) + (if running (svc w' u) \<and> \<not> running (svc w u) then 1 else 0))"

text \<open>
  The invariant is kept, no service stops, and none fails unless its provider does; if providers
  do not fail, each service that starts is counted once.
\<close>

definition may_fail :: "'p provider \<Rightarrow> bool" where
  "may_fail P \<longleftrightarrow> (\<exists>p. fst (pStart P p) \<noteq> None)"

definition progress :: "'p provider \<Rightarrow> 'p world \<Rightarrow> 'p world \<Rightarrow> bool" where
  "progress P w w' \<longleftrightarrow> inv w' \<and> frame w w' \<and>
     (\<forall>u. enabled (svc w' u) = enabled (svc w u) \<and> (running (svc w u) \<longrightarrow> running (svc w' u)) \<and>
       (failed (svc w' u) \<longrightarrow> failed (svc w u) \<or> may_fail P) \<and> starts (svc w u) \<le> starts (svc w' u) \<and>
       (running (svc w' u) \<and> \<not> running (svc w u) \<longrightarrow> starts (svc w u) < starts (svc w' u))) \<and>
     (may_fail P \<or> counted w w')"

lemma counted_trans:
  assumes "counted w w'" and "counted w' w''"
    and "\<And>u. running (svc w u) \<Longrightarrow> running (svc w' u)" "\<And>u. running (svc w' u) \<Longrightarrow> running (svc w'' u)"
  shows "counted w w''"
  unfolding counted_def
proof
  fix u
  show "starts (svc w'' u) = starts (svc w u) + (if running (svc w'' u) \<and> \<not> running (svc w u) then 1 else 0)"
    using assms(1,2) assms(3,4) [of u] unfolding counted_def
    by (cases "running (svc w u)"; cases "running (svc w' u)"; cases "running (svc w'' u)") simp_all
qed

lemma progress_trans:
  assumes "progress P w w'" and "progress P w' w''"
  shows "progress P w w''"
proof -
  have "starts (svc w u) \<le> starts (svc w'' u) \<and>
      (running (svc w'' u) \<and> \<not> running (svc w u) \<longrightarrow> starts (svc w u) < starts (svc w'' u))" for u
    using assms unfolding progress_def by (meson le_less_trans less_le_trans order_trans)
  then show ?thesis
    using assms frame_trans [of w w' w''] counted_trans [of w w' w''] by (auto simp: progress_def)
qed

lemma progress_running: "progress P w w' \<Longrightarrow> running (svc w u) \<Longrightarrow> running (svc w' u)"
  by (simp add: progress_def)

lemma still_progress: "inv w \<Longrightarrow> still w w' \<Longrightarrow> progress P w w'"
  by (simp add: progress_def counted_def still_inv still_frame still_flags)

lemma progress_idle: "progress P w w' \<Longrightarrow> idle w' \<le> idle w"
  unfolding idle_def progress_def frame_def
  by (auto intro: length_filter_mono)

lemma inv_parts:
  assumes "inv w"
  shows "base_ok w" "graph_ok w" "exclusive w" "service_ok (svc w u)"
    "running (svc w u) \<Longrightarrow> satisfied w u" "rate_ok (svc w u)" "running (svc w u) \<Longrightarrow> u \<in> set (managed w)"
    "\<not> stopping (svc w u)" "running (svc w u) \<Longrightarrow> enabled (svc w u) \<and> \<not> failed (svc w u)"
    "failed (svc w u) \<Longrightarrow> err (svc w u) \<noteq> None"
  using assms by (auto simp: inv_def base_ok_def service_ok_def)

lemma started_once_limited:
  assumes "started_once s w v" and "u \<noteq> s"
  shows "limited (svc v u) = limited (svc w u)"
  using assms by (simp add: started_once_def limited_def frame_def)

lemma exclusive_cong:
  assumes "frame w w'" and "\<And>u. enabled (svc w' u) = enabled (svc w u)"
  shows "exclusive w' = exclusive w"
  by (simp add: exclusive_def assms(2) frame_links [OF assms(1)] frame_managed [OF assms(1)])

lemma failed_step:
  fixes er :: error
  assumes "inv w" and "s \<in> set (managed w)" and "\<not> running (svc w s)" and "started_once s w v"
    and may: "may_fail P"
  defines "w' \<equiv> upd s (\<lambda>S. S\<lparr>err := Some er, failed := True\<rparr>) v"
  shows "progress P w w'" and "stuck w' u \<Longrightarrow> stuck w u \<and> u \<noteq> s" and "failed (svc w' s)"
    and "waiting w' u \<Longrightarrow> waiting w u \<and> u \<noteq> s \<or> starts (svc w u) < starts (svc w' u)"
proof -
  note v = started_once_facts [OF assms(4)]
  have fv: "frame v w'"
    by (simp add: frame_def w'_def links_of_def identity_of_def rate_ok_def)
  have f: "frame w w'" by (rule frame_trans [OF v(1) fv])
  have flags: "enabled (svc w' t) = enabled (svc w t)" "running (svc w' t) = running (svc w t)"
    "stopping (svc w' t) = stopping (svc w t)" for t
    by (simp_all add: w'_def v)
  have other: "flags_of (svc w' t) = flags_of (svc w t)" if "t \<noteq> s" for t
    using that by (simp add: w'_def v)
  have serving: "serving (svc w' t) = serving (svc w t)" for t
    using other [of t] assms(3) flags(2) [of t] by (cases "t = s") (auto simp: serving_def flags_of_def)
  have sat: "satisfied w' t = satisfied w t" for t
    by (simp add: satisfied_def serving frame_links [OF f])
  show "failed (svc w' s)" by (simp add: w'_def)
  have "service_ok (svc w' t)" for t
  proof (cases "t = s")
    case True
    then show ?thesis
      using inv_parts(4) [OF assms(1), of s] v(2) [of s] assms(3)
      by (simp add: w'_def service_ok_def flags_of_def)
  next
    case False
    then show ?thesis
      using inv_parts(4) [OF assms(1), of t] other [of t] by (simp add: service_ok_def flags_of_def)
  qed
  moreover have "base_ok w'"
    by (rule frame_base_ok [OF f inv_parts(1) [OF assms(1)]]) (simp_all add: flags)
  moreover have "exclusive w'"
    using inv_parts(3) [OF assms(1)] exclusive_cong [OF f flags(1)] by simp
  ultimately have "inv w'"
    using inv_parts(5) [OF assms(1)] by (simp add: inv_def flags sat)
  moreover have starts: "starts (svc w' t) = starts (svc w t) + (if t = s then 1 else 0)" for t
    using assms(4) by (simp add: w'_def started_once_def)
  ultimately show "progress P w w'" using f flags may by (simp add: progress_def)
  have can: "can_run w' t = can_run w t" for t
    by (simp add: can_run_def flags sat frame_links [OF f])
  have "failed (svc w' s)" by (simp add: w'_def)
  moreover have "limited (svc w' t) = limited (svc w t)" if "t \<noteq> s" for t
    using that started_once_limited [OF assms(4) that] by (simp add: w'_def)
  ultimately show "stuck w' u \<Longrightarrow> stuck w u \<and> u \<noteq> s"
    and "waiting w' u \<Longrightarrow> waiting w u \<and> u \<noteq> s \<or> starts (svc w u) < starts (svc w' u)"
    using other [of u] frame_managed [OF f] starts
    by (cases "u = s"; simp add: stuck_def waiting_def can flags_of_def)+
qed

lemma running_step:
  assumes "inv w" and "s \<in> set (managed w)" and "\<not> running (svc w s)" and "started_once s w v"
    and "can_run w s"
  defines "w' \<equiv> upd s (\<lambda>S. S\<lparr>running := True, failed := False\<rparr>) v"
  shows "progress P w w'" and "waiting w' u \<Longrightarrow> waiting w u \<and> u \<noteq> s \<or> u \<in> set (children (svc w s))"
    and "running (svc w' s)" and "idle w' < idle w"
    and "stuck w' u \<Longrightarrow> stuck w u \<and> u \<noteq> s \<or> u \<in> set (children (svc w s))"
proof -
  note v = started_once_facts [OF assms(4)]
  have fv: "frame v w'"
    by (simp add: frame_def w'_def links_of_def identity_of_def rate_ok_def)
  have f: "frame w w'" by (rule frame_trans [OF v(1) fv])
  have flags: "enabled (svc w' t) = enabled (svc w t)" "stopping (svc w' t) = stopping (svc w t)"
    "running (svc w' t) = (running (svc w t) \<or> t = s)" for t
    by (simp_all add: w'_def v)
  have other: "flags_of (svc w' t) = flags_of (svc w t)" if "t \<noteq> s" for t
    using that by (simp add: w'_def v)
  have serving: "serving (svc w t) \<Longrightarrow> serving (svc w' t)" for t
    using other [of t] assms(3) by (cases "t = s") (auto simp: serving_def flags_of_def)
  have sat: "satisfied w t \<Longrightarrow> satisfied w' t" for t
    using serving by (fastforce simp: satisfied_def frame_links [OF f])
  have s_can: "satisfied w s" "enabled (svc w s)" using assms(5) by (simp_all add: can_run_def)
  show run: "running (svc w' s)" by (simp add: w'_def)
  have "service_ok (svc w' t)" for t
  proof (cases "t = s")
    case True
    then show ?thesis
      using inv_parts(4) [OF assms(1), of s] v(2) [of s] s_can
      by (simp add: w'_def service_ok_def flags_of_def)
  next
    case False
    then show ?thesis
      using inv_parts(4) [OF assms(1), of t] other [of t] by (simp add: service_ok_def flags_of_def)
  qed
  moreover have "base_ok w'"
    by (rule frame_base_ok [OF f inv_parts(1) [OF assms(1)]]) (use assms(2) in \<open>auto simp: flags\<close>)
  moreover have "exclusive w'"
    using inv_parts(3) [OF assms(1)] exclusive_cong [OF f flags(1)] by simp
  moreover have "running (svc w' t) \<Longrightarrow> satisfied w' t" for t
    using sat [of t] s_can inv_parts(5) [OF assms(1), of t] by (auto simp: flags)
  ultimately have "inv w'" by (simp add: inv_def)
  moreover have "failed (svc w' u) \<Longrightarrow> failed (svc w u)" for u
    using other [of u] by (cases "u = s") (simp_all add: flags_of_def w'_def)
  moreover have starts: "starts (svc w' u) = starts (svc w u) + (if running (svc w' u) \<and> \<not> running (svc w u) then 1 else 0)" for u
    using assms(3,4) other [of u] by (cases "u = s") (simp_all add: flags_of_def w'_def started_once_def)
  then have "counted w w'" by (simp add: counted_def)
  moreover have "starts (svc w u) \<le> starts (svc w' u)"
    "running (svc w' u) \<and> \<not> running (svc w u) \<Longrightarrow> starts (svc w u) < starts (svc w' u)" for u
    by (simp_all add: starts)
  ultimately show "progress P w w'" using f flags by (auto simp: progress_def)
  show "idle w' < idle w"
    unfolding idle_def frame_managed [OF f]
    by (rule length_filter_strict [where y = s]) (use assms(2,3) in \<open>auto simp: flags\<close>)
  have wait: "waiting w u \<and> u \<noteq> s \<or> u \<in> set (children (svc w s))" if stuck: "waiting w' u" for u
  proof (rule disjCI)
    assume nc: "u \<notin> set (children (svc w s))"
    have us: "u \<noteq> s" using stuck run by (auto simp: waiting_def)
    have um: "u \<in> set (managed w)" using stuck frame_managed [OF f] by (simp add: waiting_def)
    have "satisfied w u"
      unfolding satisfied_def
    proof (safe)
      fix d ps
      assume dps: "(d, ps) \<in> set (parents (svc w u))"
      then obtain p where p: "p \<in> set ps" "serving (svc w' p)"
        using stuck frame_links [OF f] by (auto simp: waiting_def can_run_def satisfied_def)
      then have "p \<noteq> s"
        using parent_has_child(1) [OF inv_parts(2) [OF assms(1)] um dps] nc by auto
      then have "serving (svc w p)" using p other [of p] by (simp add: serving_def flags_of_def)
      with p show "\<exists>p \<in> set ps. serving (svc w p)" by auto
    qed
    moreover have "limited (svc w' u) = limited (svc w u)"
      using us started_once_limited [OF assms(4) us] by (simp add: w'_def)
    ultimately show "waiting w u \<and> u \<noteq> s"
      using stuck us um other [OF us] frame_links [OF f]
      by (simp add: waiting_def can_run_def flags flags_of_def)
  qed
  then show "waiting w' u \<Longrightarrow> waiting w u \<and> u \<noteq> s \<or> u \<in> set (children (svc w s))" by blast
  show "stuck w' u \<Longrightarrow> stuck w u \<and> u \<noteq> s \<or> u \<in> set (children (svc w s))"
    using wait other [of u] by (auto simp: stuck_waiting flags_of_def)
qed


section \<open>The specification of \<open>startRecurse\<close>\<close>

definition started :: "'p provider \<Rightarrow> sid \<Rightarrow> 'p world \<Rightarrow> 'p world \<Rightarrow> bool" where
  "started P s w w' \<longleftrightarrow> progress P w w' \<and> (\<forall>u. stuck w' u \<longrightarrow> stuck w u \<and> u \<noteq> s) \<and>
     (can_run w s \<and> \<not> limited (svc w s) \<longrightarrow> running (svc w' s) \<or> failed (svc w' s)) \<and>
     (\<forall>u. waiting w' u \<longrightarrow> waiting w u \<and> u \<noteq> s \<or> starts (svc w u) < starts (svc w' u))"

lemma startRecurse_children:
  assumes children: "\<And>c v. c \<in> set cs \<Longrightarrow> progress P w v \<Longrightarrow> returns (startRecurse n P c d v) (started P c v)"
    and "progress P w v"
    and "\<And>u. stuck v u \<Longrightarrow> Q u \<or> u \<in> set cs" and "\<And>u. waiting v u \<Longrightarrow> R u \<or> u \<in> set cs"
  shows "returns (foldO (\<lambda>c. startRecurse n P c d) cs v) (\<lambda>w'. progress P w w' \<and> (\<forall>u. stuck w' u \<longrightarrow> Q u) \<and>
    (\<forall>u. running (svc v u) \<longrightarrow> running (svc w' u)) \<and>
    (\<forall>u. waiting w' u \<longrightarrow> R u \<or> starts (svc w u) < starts (svc w' u)))"
proof -
  let ?I = "\<lambda>ys x. progress P w x \<and> (\<forall>u. stuck x u \<longrightarrow> Q u \<or> u \<in> set ys) \<and>
    (\<forall>u. running (svc v u) \<longrightarrow> running (svc x u)) \<and>
    (\<forall>u. waiting x u \<longrightarrow> R u \<or> u \<in> set ys \<or> starts (svc w u) < starts (svc x u))"
  have "returns (foldO (\<lambda>c. startRecurse n P c d) cs v) (?I [])"
  proof (rule returns_foldO)
    show "?I cs v" using assms(2-4) by blast
    fix c ys x
    assume c: "c \<in> set cs" and I: "?I (c # ys) x"
    have "?I ys y" if y: "started P c x y" for y
    proof -
      have p: "progress P x y" using y by (simp add: started_def)
      have "R u \<or> u \<in> set ys \<or> starts (svc w u) < starts (svc y u)" if "waiting y u" for u
      proof -
        have "waiting x u \<and> u \<noteq> c \<or> starts (svc x u) < starts (svc y u)"
          using y that by (simp add: started_def)
        moreover have "starts (svc w u) \<le> starts (svc x u)" "starts (svc x u) \<le> starts (svc y u)"
          using I p by (simp_all add: progress_def)
        ultimately show ?thesis using I by auto
      qed
      moreover have "Q u \<or> u \<in> set ys" if "stuck y u" for u
        using I y that by (auto simp: started_def)
      ultimately show ?thesis
        using I progress_trans [of P w x y] p progress_running [OF p] by simp
    qed
    then show "returns (startRecurse n P c d x) (?I ys)"
      using I by (intro returns_mono [OF children [OF c]]) simp_all
  qed
  then show ?thesis by simp
qed

lemma startRecurse_spec:
  assumes "inv w" and "s \<in> set (managed w)" and "idle w < n"
  shows "returns (startRecurse n P s detail w) (started P s w)"
  using assms
proof (induction n arbitrary: s detail w)
  case 0
  then show ?case by simp
next
  case (Suc n)
  have stops: "started P s w w'" if "still w w'" "\<not> can_run w s \<or> limited (svc w s) \<or> running (svc w s)" for w'
  proof -
    have "\<not> stuck w s" "\<not> waiting w s" using that(2) by (auto simp: stuck_def waiting_def)
    moreover have "can_run w s \<and> \<not> limited (svc w s) \<Longrightarrow> running (svc w' s)"
      using that(2) still_flags(2) [OF that(1)] by auto
    ultimately show ?thesis
      using still_progress [OF Suc.prems(1) that(1)] still_stuck [OF that(1)] still_waiting [OF that(1)]
      unfolding started_def by metis
  qed
  show ?case
  proof (cases "running (svc w s)")
    case True
    then show ?thesis using stops by simp
  next
    case idle: False
    let ?body = "\<lambda>v. (let (e, w5) = prov_Start P s v in
            case e of
              Some er \<Rightarrow>
                let w6 = s_logf s (''Failed to start '' @ sname (svc w5 s) @ '': '' @ error_text er) w5;
                    w7 = upd s (\<lambda>S. S\<lparr>reason := ''Failed start:'' @ error_text er\<rparr>) w6;
                    w8 = stamp_now s w7
                in Done (upd s (\<lambda>S. S\<lparr>err := Some er, failed := True\<rparr>) w8)
            | None \<Rightarrow>
                let w6 = stamp_now s (upd s (\<lambda>S. S\<lparr>reason := ''Started''\<rparr>) w5);
                    w7 = s_logf s (''Started '' @ sname (svc w6 s) @ '': '' @ detail) w6;
                    w8 = upd s (\<lambda>S. S\<lparr>running := True, failed := False\<rparr>) w7;
                    (cs, w9) = range_keys (children (svc w8 s)) w8
                in foldO (\<lambda>c. startRecurse n P c ''Dependency running'') cs w9)"
    have body: "returns (?body v) (started P s w)" if v: "started_once s w v" and can: "can_run w s" for v
    proof -
      define w5 where "w5 = snd (prov_Start P s v)"
      have w5: "started_once s w w5" unfolding w5_def by (rule started_once_still [OF v still_prov(1)])
      show ?thesis
      proof (cases "fst (prov_Start P s v)")
        case (Some er)
        have "may_fail P"
          using Some by (auto simp: may_fail_def prov_Start_def case_prod_beta)
        moreover have "started_once s w (stamp_now s (upd s (\<lambda>S. S\<lparr>reason := r\<rparr>) (s_logf s m w5)))" for r m
          by (rule started_once_still [OF w5 still_trans [OF still_logf(1)
              still_trans [OF still_fields(2) still_stamp]]])
        note failed_step [OF Suc.prems(1,2) idle this]
        ultimately show ?thesis
          using Some by (simp add: started_def case_prod_beta Let_def flip: w5_def)
      next
        case None
        have "started_once s w (s_logf s m (stamp_now s (upd s (\<lambda>S. S\<lparr>reason := r\<rparr>) w5)))" for r m
          by (rule started_once_still [OF w5 still_trans [OF still_fields(2)
              still_trans [OF still_stamp still_logf(1)]]])
        note run = running_step [OF Suc.prems(1,2) idle this can]
        have loop: "returns (foldO (\<lambda>c. startRecurse n P c ''Dependency running'')
            (fst (range_keys (children (svc w8 s)) w8)) (snd (range_keys (children (svc w8 s)) w8)))
            (started P s w)"
          if w8: "w8 = upd s (\<lambda>S. S\<lparr>running := True, failed := False\<rparr>)
            (s_logf s m (stamp_now s (upd s (\<lambda>S. S\<lparr>reason := r\<rparr>) w5)))" for w8 m r
        proof -
          define w9 where "w9 = snd (range_keys (children (svc w8 s)) w8)"
          define cs where "cs = fst (range_keys (children (svc w8 s)) w8)"
          note r8 = run(1) [of P m r, folded w8] run(2-) [of m r, folded w8]
          have st: "still w8 w9" by (simp add: w9_def)
          have p9: "progress P w w9"
            by (rule progress_trans [OF r8(1) still_progress [OF _ st]]) (use r8(1) in \<open>simp add: progress_def\<close>)
          then have inv9: "inv w9" by (simp add: progress_def)
          have "permutes_keys (ord w8)" "children (svc w8 s) = children (svc w s)"
            using r8(1) by (auto simp: progress_def inv_def base_ok_def frame_links)
          then have cs: "set cs = set (children (svc w s))" by (simp add: cs_def)
          have "managed w8 = managed w9" by (simp add: w9_def)
          then have i9: "idle w9 < n"
            using r8(4) Suc.prems(3) by (simp add: idle_def still_flags [OF st])
          have kids: "returns (startRecurse n P c d v) (started P c v)" if c: "c \<in> set cs" and v: "progress P w9 v" for c d v
          proof (rule Suc.IH)
            show "inv v" "idle v < n" using v i9 progress_idle [OF v] by (auto simp: progress_def)
            have "managed v = managed w" using progress_trans [OF p9 v] by (simp add: progress_def frame_def)
            then show "c \<in> set (managed v)"
              using c cs children_managed [OF inv_parts(2) [OF Suc.prems(1)] Suc.prems(2)] by auto
          qed
          have st9: "(stuck w u \<and> u \<noteq> s) \<or> u \<in> set cs" if "stuck w9 u" for u
            using r8(5) [of u] that cs by (simp add: still_stuck [OF st])
          have wt9: "(waiting w u \<and> u \<noteq> s) \<or> u \<in> set cs" if "waiting w9 u" for u
            using r8(2) [of u] that cs by (simp add: still_waiting [OF st])
          have less9: "starts (svc w9 u) < n \<Longrightarrow> starts (svc w u) < n" for u n
            using p9 by (auto simp: progress_def intro: le_less_trans)
          have run9: "running (svc w9 s)" using r8(3) by (simp add: still_flags [OF st])
          show ?thesis
            unfolding cs_def [symmetric] w9_def [symmetric]
            by (rule returns_mono [OF startRecurse_children [where Q = "\<lambda>u. stuck w u \<and> u \<noteq> s" and
                R = "\<lambda>u. waiting w u \<and> u \<noteq> s", OF kids still_progress [OF inv9 still_refl] st9 wt9]])
              (use run9 progress_trans [OF p9] less9 in \<open>auto simp: started_def\<close>)
        qed
        then show ?thesis
          using None by (simp add: case_prod_beta Let_def flip: w5_def)
      qed
    qed
    let ?count = "\<lambda>w2. bindO (record_start s w2) (\<lambda>w3.
      bindO (bump s (upd s (\<lambda>S. S\<lparr>starts := starts S + 1\<rparr>) w3)) ?body)"
    have count: "returns (?count w2) (started P s w)" if w2: "still w w2" and can: "can_run w s" for w2
    proof -
      have "returns (bump s (upd s (\<lambda>S. S\<lparr>starts := starts S + 1\<rparr>) w3)) (\<lambda>w4. returns (?body w4) (started P s w))"
        if w3: "still w2 w3" for w3
      proof (rule returns_mono [OF count_start_spec])
        have w: "still w w3" by (rule still_trans [OF w2 w3])
        show "has_mgr (svc w3 s)"
          using still_base_ok [OF w inv_parts(1) [OF Suc.prems(1)]] Suc.prems(2) frame_managed [OF still_frame [OF w]]
          by (simp add: base_ok_has_mgr)
        fix w4 assume "started_once s w3 w4"
        then have "started_once s w w4"
          using w by (auto simp: started_once_def still_def intro: frame_trans)
        then show "returns (?body w4) (started P s w)" by (rule body [OF _ can])
      qed
      moreover have "returns (record_start s w2) (still w2)"
        using still_base_ok [OF w2 inv_parts(1) [OF Suc.prems(1)]] by (intro record_start_spec base_ok_rate)
      ultimately show ?thesis by (simp add: returns_mono)
    qed
    let ?limit = "\<lambda>w1. bindO (tooQuickly s w1) (\<lambda>(e, w2). if e \<noteq> None then Done w2 else ?count w2)"
    have limit: "returns (?limit w1) (started P s w)" if w1: "still w w1" and can: "can_run w s" for w1
    proof -
      have "returns (tooQuickly s w1) (\<lambda>(e, w2). still w1 w2 \<and> (e \<noteq> None \<longrightarrow> limited (svc w1 s)))"
        using still_base_ok [OF w1 inv_parts(1) [OF Suc.prems(1)]] by (intro tooQuickly_spec base_ok_rate)
      then have "returns (tooQuickly s w1) (\<lambda>(e, w2). returns (if e \<noteq> None then Done w2 else ?count w2) (started P s w))"
      proof (rule returns_mono, clarify)
        fix e w2
        assume w2: "still w1 w2" and lim: "e \<noteq> None \<longrightarrow> limited (svc w1 s)"
        have w: "still w w2" by (rule still_trans [OF w1 w2])
        show "returns (if e \<noteq> None then Done w2 else ?count w2) (started P s w)"
        proof (cases "e = None")
          case True
          then show ?thesis using count [OF w can] by (simp only: if_False simp_thms)
        next
          case False
          then show ?thesis using lim stops [OF w] still_limited [OF w1, of s] by simp
        qed
      qed
      then show ?thesis
        unfolding returns_bindO by (rule returns_mono) (simp only: split_paired_all prod.case)
    qed
    have "returns (canRun s w) (\<lambda>(ok, w1). returns (if \<not> ok then Done w1 else ?limit w1) (started P s w))"
    proof (rule returns_mono [OF canRun_spec [OF inv_parts(1) [OF Suc.prems(1)] Suc.prems(2)]], clarify)
      fix w1
      assume w1: "still w w1"
      show "returns (if \<not> can_run w s then Done w1 else ?limit w1) (started P s w)"
      proof (cases "can_run w s")
        case True
        then show ?thesis using limit [OF w1] by (simp only: if_False simp_thms)
      next
        case False
        then show ?thesis using stops [OF w1] by simp
      qed
    qed
    then show ?thesis
      unfolding startRecurse.simps if_not_P [OF idle] returns_bindO
      by (rule returns_mono) (simp only: split_paired_all prod.case)
  qed
qed


section \<open>Starting and stopping between the operations\<close>

lemma active_fuel: "active w < fuel w"
  by (simp add: active_def fuel_def less_Suc_eq_le)

lemma idle_fuel: "idle w < fuel w"
  by (simp add: idle_def fuel_def less_Suc_eq_le)

lemma start_returns:
  "inv w \<Longrightarrow> s \<in> set (managed w) \<Longrightarrow> returns (startRecurse (fuel w) P s detail w) (started P s w)"
  by (rule startRecurse_spec) (simp_all add: idle_fuel)

text \<open>With its starts forgotten, a stopped service that can run is really started, and not refused.\<close>

lemma start_anew:
  assumes "inv w" and "s \<in> set (managed w)" and "starts (svc w s) = 0"
  shows "returns (startRecurse (fuel w) P s detail w) (\<lambda>w'. started P s w w' \<and>
    (running (svc w' s) \<longrightarrow> running (svc w s) \<or> 0 < starts (svc w' s)) \<and>
    (can_run w' s \<longrightarrow> running (svc w' s) \<or> failed (svc w' s)))"
proof -
  obtain w' where w': "startRecurse (fuel w) P s detail w = Done w'" "started P s w w'"
    using start_returns [OF assms(1,2)] by (auto simp: returns_iff)
  have free: "\<not> limited (svc w s)" using inv_parts(6) [OF assms(1), of s] assms(3) by (auto simp: limited_def rate_ok_def)
  have "can_run w' s \<longrightarrow> running (svc w' s) \<or> failed (svc w' s)"
  proof (cases "can_run w s \<or> running (svc w s)")
    case True
    then show ?thesis using w'(2) free by (auto simp: started_def progress_def)
  next
    case False
    have "returns (startRecurse (fuel w) P s detail w) (still w)"
      using canRun_spec [OF inv_parts(1) [OF assms(1)] assms(2)] False by (auto simp: fuel_def returns_iff)
    then have "still w w'" using w'(1) by (simp add: returns_iff)
    then show ?thesis using False by (simp add: still_can_run)
  qed
  moreover have "running (svc w' s) \<longrightarrow> running (svc w s) \<or> 0 < starts (svc w' s)"
    using w'(2) assms(3) by (auto simp: started_def progress_def)
  ultimately show ?thesis using w' by (simp add: returns_iff)
qed

text \<open>Only the flags of \<open>s\<close> differ, and \<open>s\<close> serves nobody.\<close>

definition withdrawn :: "sid \<Rightarrow> 'p world \<Rightarrow> 'p world \<Rightarrow> bool" where
  "withdrawn s w v \<longleftrightarrow> frame w v \<and>
     (\<forall>u. u \<noteq> s \<longrightarrow> flags_of (svc v u) = flags_of (svc w u) \<and> starts (svc v u) = starts (svc w u)) \<and>
     running (svc v s) = running (svc w s) \<and> \<not> stopping (svc v s) \<and> \<not> serving (svc v s) \<and>
     (enabled (svc v s) \<longrightarrow> enabled (svc w s))"

lemma withdrawn_still:
  assumes "withdrawn s w v" and "still v v'"
  shows "withdrawn s w v'"
proof -
  have "flags_of (svc v' u) = flags_of (svc v u) \<and> starts (svc v' u) = starts (svc v u)" for u
    using assms(2) by (simp add: still_def)
  then show ?thesis
    using assms(1) frame_trans [OF _ still_frame [OF assms(2)]]
    by (simp add: withdrawn_def still_flags [OF assms(2)] still_serving [OF assms(2)])
qed

lemma withdrawn_serving: "withdrawn s w v \<Longrightarrow> serving (svc v p) \<Longrightarrow> p \<noteq> s \<and> serving (svc w p)"
  by (cases "p = s") (auto simp: withdrawn_def serving_def flags_of_def)

lemma withdrawn_satisfied:
  assumes "withdrawn s w v" and "satisfied v u"
  shows "satisfied w u"
  using assms(2) withdrawn_serving [OF assms(1)] frame_links(1) [of w v u] assms(1)
  by (fastforce simp: satisfied_def withdrawn_def)

lemma withdrawn_base_ok:
  assumes "withdrawn s w v" and "base_ok w" and "s \<in> set (managed w)"
  shows "base_ok v"
proof -
  have *: "enabled (svc v u) = enabled (svc w u) \<and> running (svc v u) = running (svc w u)" if "u \<noteq> s" for u
    using assms(1) that by (simp add: withdrawn_def flags_of_def)
  show ?thesis
  proof (rule frame_base_ok [OF _ assms(2)])
    show "frame w v" using assms(1) by (simp add: withdrawn_def)
    fix u
    assume "u \<notin> set (managed w)"
    then have "u \<noteq> s" using assms(3) by auto
    then show "enabled (svc v u) \<Longrightarrow> enabled (svc w u)" "running (svc v u) \<Longrightarrow> running (svc w u)"
      using * by simp_all
  qed
qed

lemma stop_withdrawn:
  assumes "inv w" and "s \<in> set (managed w)" and "withdrawn s w v"
  shows "returns (stopRecurse (fuel v) P s detail v)
    (\<lambda>w'. halted {s} v w' \<and> base_ok w' \<and> \<not> running (svc w' s) \<and> dep_ok {} w')"
proof -
  have f: "frame w v" and other: "\<And>u. u \<noteq> s \<Longrightarrow> flags_of (svc v u) = flags_of (svc w u)"
    and s: "running (svc v s) = running (svc w s)" "\<not> stopping (svc v s)"
    using assms(3) by (simp_all add: withdrawn_def)
  have keeps: "satisfied v u" if u: "running (svc v u)" "u \<noteq> s" "u \<notin> set (children (svc w s)) \<or> \<not> running (svc w s)" for u
  proof -
    have run: "running (svc w u)" using u other [of u] by (simp add: flags_of_def)
    have um: "u \<in> set (managed w)" by (rule inv_parts(7) [OF assms(1) run])
    have "serving (svc v p)" if "(d, ps) \<in> set (parents (svc w u))" "p \<in> set ps" "serving (svc w p)" for d ps p
    proof -
      have "p \<noteq> s"
        using that u(3) parent_has_child(1) [OF inv_parts(2) [OF assms(1)] um] by (auto simp: serving_def)
      then show ?thesis using that(3) other [of p] by (simp add: serving_def flags_of_def)
    qed
    then show ?thesis
      using inv_parts(5) [OF assms(1) run] frame_links(1) [OF f, of u] by (fastforce simp: satisfied_def)
  qed
  have d: "dep_ok (insert s ({} \<union> set (children (svc v s)))) v"
    using keeps frame_links(2) [OF f, of s] by (auto simp: dep_ok_def)
  have spec: "returns (stopRecurse (fuel v) P s detail v) (\<lambda>w'. halted {s} v w' \<and> base_ok w' \<and>
    (if running (svc v s) \<and> \<not> stopping (svc v s) then \<not> running (svc w' s) \<and> dep_ok {} w' else w' = v))"
    using assms(2) frame_managed [OF f]
    by (intro stopRecurse_spec withdrawn_base_ok [OF assms(3) inv_parts(1) [OF assms(1)] assms(2)] active_fuel d)
      simp
  have "dep_ok {} v" if "\<not> running (svc v s)"
    using keeps that s by (auto simp: dep_ok_def)
  then show ?thesis
    using s by (auto intro: returns_mono [OF spec] split: if_splits)
qed


text \<open>After the stop, with only \<open>s\<close> changed once more, and still stopped.\<close>

lemma stopped_inv:
  assumes "inv w" and "s \<in> set (managed w)" and "withdrawn s w v"
    and "halted {s} v w'" "base_ok w'" "\<not> running (svc w' s)" "dep_ok {} w'"
    and "frame w' z" "\<And>u. u \<noteq> s \<Longrightarrow> flags_of (svc z u) = flags_of (svc w' u) \<and> starts (svc z u) = starts (svc w' u)"
    and "service_ok (svc z s)" "\<not> running (svc z s)"
    and "enabled (svc z s) \<Longrightarrow> enabled (svc w s)"
  shows "inv z" "frame w z" "u \<noteq> s \<Longrightarrow> waiting z u \<Longrightarrow> waiting w u"
    "u \<noteq> s \<Longrightarrow> enabled (svc z u) = enabled (svc w u) \<and> failed (svc z u) = failed (svc w u)"
    "u \<noteq> s \<Longrightarrow> stuck z u \<Longrightarrow> stuck w u" "u \<noteq> s \<Longrightarrow> starts (svc z u) = starts (svc w u)"
proof -
  note h = halted_flags(2-) [OF assms(4)]
  have fwv: "frame w v" using assms(3) by (simp add: withdrawn_def)
  show f: "frame w z" by (rule frame_trans [OF frame_trans [OF fwv halted_flags(1) [OF assms(4)]] assms(8)])
  have vw: "enabled (svc v u) = enabled (svc w u)" "running (svc v u) = running (svc w u)"
    "stopping (svc v u) = stopping (svc w u)" "failed (svc v u) = failed (svc w u)"
    "in_check (svc v u) = in_check (svc w u)" "err (svc v u) = err (svc w u)"
    "starts (svc v u) = starts (svc w u)" if "u \<noteq> s" for u
    using assms(3) that by (simp_all add: withdrawn_def flags_of_def)
  have zw: "enabled (svc z u) = enabled (svc w u)" "stopping (svc z u) = stopping (svc w u)"
    "failed (svc z u) = failed (svc w u)" "in_check (svc z u) = in_check (svc w u)"
    "err (svc z u) = err (svc w u)" "starts (svc z u) = starts (svc w u)"
    "running (svc z u) = running (svc w' u)" "running (svc z u) \<Longrightarrow> running (svc w u)" if "u \<noteq> s" for u
    using assms(9) [OF that] h [of u] vw [OF that] by (auto simp: flags_of_def)
  then show "u \<noteq> s \<Longrightarrow> enabled (svc z u) = enabled (svc w u) \<and> failed (svc z u) = failed (svc w u)" by simp
  have serving: "serving (svc z p) = serving (svc w' p)" for p
    using assms(6,9,11) by (cases "p = s") (auto simp: serving_def flags_of_def)
  have sat: "satisfied z u = satisfied w' u" for u
    by (simp add: satisfied_def serving frame_links [OF assms(8)])
  have en: "enabled (svc z u) \<Longrightarrow> enabled (svc w u)" for u
    using zw(1) [of u] assms(12) by (cases "u = s") auto
  have "service_ok (svc z u)" for u
  proof (cases "u = s")
    case False
    then show ?thesis
      using inv_parts(4) [OF assms(1), of u] zw [OF False] by (auto simp: service_ok_def)
  qed (use assms(10) in simp)
  moreover have "base_ok z"
  proof (rule frame_base_ok [OF f inv_parts(1) [OF assms(1)] en])
    fix u show "running (svc z u) \<Longrightarrow> running (svc w u)"
      using zw(8) [of u] assms(11) by (cases "u = s") auto
  qed
  moreover have "exclusive z"
    using inv_parts(3) [OF assms(1)] en by (auto simp: exclusive_def frame_links [OF f] frame_managed [OF f])
  moreover have "satisfied z u" if "running (svc z u)" for u
  proof -
    have us: "u \<noteq> s" using that assms(11) by auto
    then have "\<not> stopping (svc w' u)"
      using h(2) [of u] vw(3) [OF us] inv_parts(8) [OF assms(1), of u] by simp
    then show ?thesis
      using assms(7) that zw(7) [OF us] by (simp add: dep_ok_def sat)
  qed
  ultimately show "inv z" by (simp add: inv_def)
  have wait: "waiting w u" if us: "u \<noteq> s" and st: "waiting z u" for u
  proof -
    have um: "u \<in> set (managed w)" using st frame_managed [OF f] by (simp add: waiting_def)
    have e: "enabled (svc w u)" using st en by (simp add: waiting_def can_run_def)
    have cz: "\<not> stopping (svc w u)" "satisfied w' u" "\<not> running (svc w' u)"
      "\<not> limited (svc w u)"
      using st zw [OF us] frame_def [of w z] f by (simp_all add: waiting_def can_run_def sat limited_def)
    have "satisfied w u"
      by (rule withdrawn_satisfied [OF assms(3) halted_satisfied [OF assms(4) cz(2)]])
    moreover have inc: "\<forall>c \<in> set (incompat (svc w u)). \<not> enabled (svc w c)"
      using inv_parts(3) [OF assms(1)] um e by (auto simp: exclusive_def)
    moreover have "\<not> running (svc w u)"
    proof
      assume "running (svc w u)"
      then have "\<not> can_run w' u"
        using assms(4) us cz(3) vw(2) [OF us] by (auto simp: halted_def)
      moreover have "incompat (svc w' u) = incompat (svc w u)"
        using frame_links [OF fwv] frame_links [OF halted_flags(1) [OF assms(4)]] by simp
      moreover have "enabled (svc w' c) \<Longrightarrow> enabled (svc w c)" for c
        using h(1) [of c] vw(1) [of c] assms(3) by (cases "c = s") (auto simp: withdrawn_def)
      ultimately show False
        using cz(1,2) inc e h(1,2) [of u] vw(1,3) [OF us] by (auto simp: can_run_def)
    qed
    ultimately show ?thesis
      using um e cz by (simp add: waiting_def can_run_def)
  qed
  then show "u \<noteq> s \<Longrightarrow> waiting z u \<Longrightarrow> waiting w u" .
  show "u \<noteq> s \<Longrightarrow> stuck z u \<Longrightarrow> stuck w u" using wait [of u] zw(3) [of u] by (simp add: stuck_waiting)
  show "u \<noteq> s \<Longrightarrow> starts (svc z u) = starts (svc w u)" by (rule zw(6))
qed

end
