(* ===== verification/ServiceApi.thy ===== *)
theory ServiceApi
  imports Recursion
begin

text \<open>
  The exported methods of \<open>*Service\<close> (\<open>service.go\<close>), each under the manager's lock and hence
  atomic: construction, queries, \<open>Enable\<close>, \<open>Disable\<close>, \<open>Restart\<close>, \<open>Clear\<close>, \<open>Check\<close> and the
  properties, with their effect on the invariant.
\<close>

section \<open>Construction\<close>

definition service_defaults :: "'p provider \<Rightarrow> 'p \<Rightarrow> 'p service" where
  "service_defaults P p =
     \<lparr>prov = p, has_mgr = False, sname = pName P p, desc = pDescription P p,
      depends = pDepends P p, conflicts = pConflicts P p, provides = pProvides P p,
      enabled = False, running = False, stopping = False, failed = False, restart = False,
      in_check = False, healthy = False, err = None, parents = [], children = [], incompat = [],
      s_logger = None, stamp = zero_time, reason = [], starts = 0, rateLog = False, rateLimit = 10,
      ratePeriod = minute, startTimes = replicate 10 zero_time, s_notify = None,
      s_mlog = NewMultiLogger, s_serial = 0\<rparr>"

text \<open>\<open>NewService\<close> for a provider in state \<open>p\<close>; the new pointer is \<open>s\<close>.\<close>

definition NewService :: "'p provider \<Rightarrow> 'p \<Rightarrow> sid \<Rightarrow> 'p world \<Rightarrow> 'p world" where
  "NewService P p s w =
     (let w1 = upd s (\<lambda>_. service_defaults P p) w;
          w2 = upd s (\<lambda>S. S\<lparr>s_mlog := (s_mlog S)\<lparr>ml_prefix := ''['' @ sname S @ ''] ''\<rparr>\<rparr>) w1;
          w3 = snd (prov_SetProperty P s PropLogger (ServiceLogger s) w2);
          (l, c) = NewLog (clk w3);
          w4 = w3\<lparr>slogs := (slogs w3)(s := l), clk := c\<rparr>;
          w5 = upd s (\<lambda>S. S\<lparr>s_mlog := ml_AddLogger SlogLogger (s_mlog S)\<rparr>) w4
      in snd (prov_SetProperty P s PropNotify (ServiceNotify s) w5))"

section \<open>Queries\<close>

definition Name :: "'p service \<Rightarrow> string" where "Name S = sname S"

definition Description :: "'p service \<Rightarrow> string" where "Description S = desc S"

definition Provides :: "'p service \<Rightarrow> string list" where "Provides S = provides S"

definition Depends :: "'p service \<Rightarrow> string list" where "Depends S = depends S"

definition Conflicts :: "'p service \<Rightarrow> string list" where "Conflicts S = conflicts S"

definition Serial :: "'p service \<Rightarrow> int64" where
  "Serial S = (if has_mgr S then s_serial S else 0)"

definition Status :: "'p service \<Rightarrow> string \<times> time" where
  "Status S = (reason S, stamp S)"

definition Enabled :: "'p service \<Rightarrow> bool" where
  "Enabled S = (if has_mgr S then enabled S else False)"

definition Running :: "'p service \<Rightarrow> bool" where
  "Running S = (if has_mgr S then running S \<and> \<not> stopping S else False)"

definition Failed :: "'p service \<Rightarrow> bool" where
  "Failed S = (if has_mgr S then failed S else False)"

definition GetLog :: "sid \<Rightarrow> int64 \<Rightarrow> 'p world \<Rightarrow> log_record list option \<times> int64" where
  "GetLog s lastid w = log_GetRecords lastid (slogs w s)"

section \<open>Operations\<close>

definition Enable :: "'p provider \<Rightarrow> sid \<Rightarrow> 'p world \<Rightarrow> (error option \<times> 'p world) outcome" where
  "Enable P s w =
     (if \<not> has_mgr (svc w s) then Done (Some ErrNoManager, w)
      else if enabled (svc w s) then Done (None, w)
      else
        let (cs, w1) = range_keys (incompat (svc w s)) w in
        case find (\<lambda>c. enabled (svc w1 c)) cs of
          Some c \<Rightarrow>
            let w2 = s_logf s (''Cannot enable '' @ sname (svc w1 s) @ '': conflicts with '' @
                       sname (svc w1 c)) w1
            in bindO (bump s (upd s (\<lambda>S. S\<lparr>reason := ''Disabled due to conflict''\<rparr>) w2)) (\<lambda>w3.
               Done (Some ErrConflict, stamp_now s w3))
        | None \<Rightarrow>
            bindO (bump s w1) (\<lambda>w2.
            let w3 = stamp_now s (upd s (\<lambda>S. S\<lparr>reason := ''Enabled''\<rparr>) w2);
                w4 = s_logf s (''Enabling service '' @ sname (svc w3 s)) w3;
                w5 = upd s (\<lambda>S. S\<lparr>enabled := True, starts := 0\<rparr>) w4
            in bindO (startRecurse (fuel w5) P s ''Enabled service'' w5) (\<lambda>w6. Done (None, w6))))"

definition Disable :: "'p provider \<Rightarrow> sid \<Rightarrow> 'p world \<Rightarrow> (error option \<times> 'p world) outcome" where
  "Disable P s w =
     (if \<not> has_mgr (svc w s) then Done (Some ErrNoManager, w)
      else if \<not> enabled (svc w s) \<and> reason (svc w s) = ''Disabled'' then Done (None, w)
      else
        bindO (bump s w) (\<lambda>w1.
        let w2 = stamp_now s (s_logf s (''Disabling service '' @ sname (svc w1 s)) w1);
            w3 = upd s (\<lambda>S. S\<lparr>reason := ''Disabled'', enabled := False, failed := False, err := None\<rparr>) w2
        in bindO (stopRecurse (fuel w3) P s ''Disabled'' w3) (\<lambda>w4. Done (None, w4))))"

definition Restart :: "'p provider \<Rightarrow> sid \<Rightarrow> 'p world \<Rightarrow> (error option \<times> 'p world) outcome" where
  "Restart P s w =
     (if \<not> has_mgr (svc w s) then Done (Some ErrNoManager, w)
      else if \<not> enabled (svc w s) then Done (None, w)
      else
        bindO (bump s w) (\<lambda>w1.
        let w2 = upd s (\<lambda>S. S\<lparr>enabled := False\<rparr>)
                   (s_logf s (''Restarting service '' @ sname (svc w1 s)) w1)
        in bindO (stopRecurse (fuel w2) P s ''Stopping for restart'' w2) (\<lambda>w3.
           let w4 = stamp_now s w3;
               w5 = upd s (\<lambda>S. S\<lparr>reason := ''Restarting'', starts := 0, failed := False, err := None,
                      enabled := True\<rparr>) w4
           in bindO (startRecurse (fuel w5) P s ''Restarting'' w5) (\<lambda>w6. Done (None, w6)))))"

definition Clear :: "'p provider \<Rightarrow> sid \<Rightarrow> 'p world \<Rightarrow> 'p world outcome" where
  "Clear P s w =
     (if \<not> has_mgr (svc w s) then Done w
      else
        bindO (bump s w) (\<lambda>w1.
        let w2 = (if failed (svc w1 s)
                  then s_logf s (''Clearing fault on '' @ sname (svc w1 s))
                         (stamp_now s (upd s (\<lambda>S. S\<lparr>reason := ''Cleared fault''\<rparr>) w1))
                  else w1);
            w3 = upd s (\<lambda>S. S\<lparr>starts := 0, failed := False, err := None\<rparr>) w2
        in startRecurse (fuel w3) P s ''Cleared fault'' w3))"

definition Check :: "'p provider \<Rightarrow> sid \<Rightarrow> 'p world \<Rightarrow> (error option \<times> 'p world) outcome" where
  "Check P s w =
     (if \<not> has_mgr (svc w s) then Done (Some ErrNoManager, w) else checkService P s w)"

section \<open>Properties\<close>

definition read_only_when_managed :: "property_name \<Rightarrow> bool" where
  "read_only_when_managed n \<longleftrightarrow>
     n \<in> {PropName, PropDescription, PropConflicts, PropDepends, PropProvides}"

text \<open>
  The assignments of the switch: \<open>Inl\<close> the error, or \<open>Inr\<close> the assignment.  \<open>setProp\<close> sends the
  names that are not the service's own to the provider and does not ask for them here.
\<close>

definition assign_property :: "property_name \<Rightarrow> propval \<Rightarrow> 'p service \<Rightarrow> error + 'p service" where
  "assign_property n val S =
     (case n of
        PropLogger \<Rightarrow>
          (case val of
             VLogger v \<Rightarrow>
               if enabled S then Inl ErrPropReadOnly
               else
                 let S1 = (case s_logger S of None \<Rightarrow> S
                           | Some k \<Rightarrow> S\<lparr>s_mlog := ml_DelLogger (UserLogger k) (s_mlog S)\<rparr>)
                 in Inr (S1\<lparr>s_logger := Some v, s_mlog := ml_AddLogger (UserLogger v) (s_mlog S1)\<rparr>)
           | _ \<Rightarrow> Inl ErrBadPropType)
      | PropRestart \<Rightarrow> (case val of VBool v \<Rightarrow> Inr (S\<lparr>restart := v\<rparr>) | _ \<Rightarrow> Inl ErrBadPropType)
      | PropRateLimit \<Rightarrow>
          (case val of
             VInt v \<Rightarrow>
               Inr (S\<lparr>starts := 0, startTimes := (if v > 0 then replicate (nat v) zero_time else []),
                      rateLimit := v\<rparr>)
           | _ \<Rightarrow> Inl ErrBadPropType)
      | PropRatePeriod \<Rightarrow>
          (case val of VDuration v \<Rightarrow> Inr (S\<lparr>starts := 0, ratePeriod := v\<rparr>) | _ \<Rightarrow> Inl ErrBadPropType)
      | PropName \<Rightarrow> (case val of VString v \<Rightarrow> Inr (S\<lparr>sname := v\<rparr>) | _ \<Rightarrow> Inl ErrBadPropType)
      | PropDescription \<Rightarrow> (case val of VString v \<Rightarrow> Inr (S\<lparr>desc := v\<rparr>) | _ \<Rightarrow> Inl ErrBadPropType)
      | PropConflicts \<Rightarrow> (case val of VStrings v \<Rightarrow> Inr (S\<lparr>conflicts := v\<rparr>) | _ \<Rightarrow> Inl ErrBadPropType)
      | PropDepends \<Rightarrow> (case val of VStrings v \<Rightarrow> Inr (S\<lparr>depends := v\<rparr>) | _ \<Rightarrow> Inl ErrBadPropType)
      | PropProvides \<Rightarrow> (case val of VStrings v \<Rightarrow> Inr (S\<lparr>provides := v\<rparr>) | _ \<Rightarrow> Inl ErrBadPropType)
      | PropNotify \<Rightarrow> (case val of VFunc v \<Rightarrow> Inr (S\<lparr>s_notify := Some v\<rparr>) | _ \<Rightarrow> Inl ErrBadPropType)
      | OtherProperty _ \<Rightarrow> Inl ErrBadPropName)"

definition setProp ::
  "'p provider \<Rightarrow> sid \<Rightarrow> property_name \<Rightarrow> propval \<Rightarrow> 'p world \<Rightarrow> (error option \<times> 'p world) outcome" where
  "setProp P s n v w =
     (if has_mgr (svc w s) \<and> read_only_when_managed n then Done (Some ErrPropReadOnly, w)
      else
        bindO (if has_mgr (svc w s) then bump s w else Done w) (\<lambda>w1.
        case n of
          OtherProperty _ \<Rightarrow> Done (prov_SetProperty P s n (FromUser v) w1)
        | _ \<Rightarrow>
            (case assign_property n v (svc w1 s) of
               Inl e \<Rightarrow> Done (Some e, w1)
             | Inr S \<Rightarrow>
                 let w2 = upd s (\<lambda>_. S) w1
                 in if n = PropNotify then Done (None, w2)
                    else Done (None, snd (prov_SetProperty P s n (FromUser v) w2)))))"

definition SetProperty ::
  "'p provider \<Rightarrow> sid \<Rightarrow> property_name \<Rightarrow> propval \<Rightarrow> 'p world \<Rightarrow> (error option \<times> 'p world) outcome" where
  "SetProperty P s n v w =
     bindO (setProp P s n v w) (\<lambda>(e, w1).
     case e of
       Some er \<Rightarrow> Done (Some er, s_logf s (''Failed to set property '' @ sname (svc w1 s) @ '': '' @
                    error_text er) w1)
     | None \<Rightarrow> Done (None, w1))"

fun GetProperty :: "'p provider \<Rightarrow> property_name \<Rightarrow> 'p service \<Rightarrow> error + propval" where
  "GetProperty P PropLogger S = Inr (case s_logger S of None \<Rightarrow> VNil | Some n \<Rightarrow> VLogger n)"
| "GetProperty P PropRestart S = Inr (VBool (restart S))"
| "GetProperty P PropRateLimit S = Inr (VInt (rateLimit S))"
| "GetProperty P PropRatePeriod S = Inr (VDuration (ratePeriod S))"
| "GetProperty P PropName S = Inr (VString (sname S))"
| "GetProperty P PropDescription S = Inr (VString (desc S))"
| "GetProperty P PropConflicts S = Inr (VStrings (conflicts S))"
| "GetProperty P PropDepends S = Inr (VStrings (depends S))"
| "GetProperty P PropProvides S = Inr (VStrings (provides S))"
| "GetProperty P PropNotify S = Inr (case s_notify S of None \<Rightarrow> VNil | Some f \<Rightarrow> VFunc f)"
| "GetProperty P (OtherProperty n) S = pProperty P (OtherProperty n) (prov S)"

section \<open>What the operations keep\<close>

text \<open>Nothing that could run is newly left stopped.\<close>

definition no_newly_stuck :: "'p world \<Rightarrow> 'p world \<Rightarrow> bool" where
  "no_newly_stuck w w' \<longleftrightarrow> (\<forall>u. stuck w' u \<longrightarrow> stuck w u)"

text \<open>The flags of \<open>s\<close> change, but not whether it runs or serves.\<close>

lemma touched:
  assumes "inv w" and "s \<in> set (managed w)" and "frame w v"
    and other: "\<And>u. u \<noteq> s \<Longrightarrow> flags_of (svc v u) = flags_of (svc w u) \<and> starts (svc v u) = starts (svc w u)"
    and s: "running (svc v s) = running (svc w s)" "serving (svc v s) = serving (svc w s)"
    and ok: "service_ok (svc v s)" "exclusive v"
  shows "inv v" "u \<noteq> s \<Longrightarrow> stuck v u \<Longrightarrow> stuck w u" "u \<noteq> s \<Longrightarrow> waiting v u \<Longrightarrow> waiting w u"
proof -
  have serving: "serving (svc v p) = serving (svc w p)" for p
    using other [of p] s(2) by (cases "p = s") (auto simp: serving_def flags_of_def)
  have sat: "satisfied v u = satisfied w u" for u
    by (simp add: satisfied_def serving frame_links [OF assms(3)])
  have run: "running (svc v u) = running (svc w u)" for u
    using other [of u] s(1) by (cases "u = s") (auto simp: flags_of_def)
  have "service_ok (svc v u)" for u
    using other [of u] ok(1) inv_parts(4) [OF assms(1), of u]
    by (cases "u = s") (auto simp: flags_of_def service_ok_def)
  moreover have "base_ok v"
  proof (rule frame_base_ok [OF assms(3) inv_parts(1) [OF assms(1)]])
    fix u assume "u \<notin> set (managed w)"
    then have "u \<noteq> s" using assms(2) by auto
    then show "enabled (svc v u) \<Longrightarrow> enabled (svc w u)" "running (svc v u) \<Longrightarrow> running (svc w u)"
      using other [of u] by (simp_all add: flags_of_def)
  qed
  ultimately show "inv v"
    using ok(2) run sat inv_parts(5) [OF assms(1)] by (simp add: inv_def)
  have wait: "waiting w u" if us: "u \<noteq> s" and st: "waiting v u" for u
  proof -
    have "limited (svc v u) = limited (svc w u)"
      using other [OF us] assms(3) by (simp add: limited_def frame_def)
    moreover have "u \<in> set (managed w)" "enabled (svc w u)"
      using st other [OF us] frame_managed [OF assms(3)] by (auto simp: waiting_def can_run_def flags_of_def)
    moreover have "\<forall>c \<in> set (incompat (svc w u)). \<not> enabled (svc w c)"
      using inv_parts(3) [OF assms(1)] calculation(2,3) by (auto simp: exclusive_def)
    ultimately show ?thesis
      using st other [OF us] by (simp add: waiting_def can_run_def sat flags_of_def)
  qed
  then show "u \<noteq> s \<Longrightarrow> waiting v u \<Longrightarrow> waiting w u" .
  show "u \<noteq> s \<Longrightarrow> stuck v u \<Longrightarrow> stuck w u"
    using wait [of u] other [of u] by (simp add: stuck_waiting flags_of_def)
qed


definition keeps :: "'p world \<Rightarrow> 'p world \<Rightarrow> bool" where
  "keeps w w' \<longleftrightarrow> inv w' \<and> frame w w' \<and> no_newly_stuck w w'"

lemma still_keeps: "inv w \<Longrightarrow> still w w' \<Longrightarrow> keeps w w'"
  by (simp add: keeps_def still_inv still_frame no_newly_stuck_def still_stuck)

lemma keeps_refl [simp]: "inv w \<Longrightarrow> keeps w w"
  by (simp add: still_keeps)

lemma keeps_trans: "keeps w w' \<Longrightarrow> keeps w' w'' \<Longrightarrow> keeps w w''"
  by (auto simp: keeps_def no_newly_stuck_def intro: frame_trans)

lemma keeps_inv: "keeps w w' \<Longrightarrow> inv w' \<and> managed w' = managed w"
  by (simp add: keeps_def frame_managed)

text \<open>Only fields of \<open>s\<close> change.\<close>

definition only :: "sid \<Rightarrow> 'p world \<Rightarrow> 'p world \<Rightarrow> bool" where
  "only s w v \<longleftrightarrow> frame w v \<and>
     (\<forall>u. u \<noteq> s \<longrightarrow> flags_of (svc v u) = flags_of (svc w u) \<and> starts (svc v u) = starts (svc w u))"

lemma still_only: "still w v \<Longrightarrow> only s w v"
  by (simp add: still_def only_def)

lemma only_trans: "only s w v \<Longrightarrow> only s v v' \<Longrightarrow> only s w v'"
  by (auto simp: only_def intro: frame_trans)

lemma only_upd:
  assumes "\<And>S. links_of (f S) = links_of S" "\<And>S. identity_of (f S) = identity_of S"
    "\<And>S. has_mgr (f S) = has_mgr S" "\<And>S. rateLimit (f S) = rateLimit S"
    "\<And>S. restart (f S) = restart S" "\<And>S. rate_ok S \<Longrightarrow> rate_ok (f S)"
  shows "only s w (upd s f w)"
  using assms by (simp add: only_def frame_def)

lemma only_flags [simp]:
  "only s w (upd s (\<lambda>S. S\<lparr>in_check := b\<rparr>) w)" "only s w (upd s (\<lambda>S. S\<lparr>failed := b\<rparr>) w)"
  "only s w (upd s (\<lambda>S. S\<lparr>enabled := b\<rparr>) w)"
  "only s w (upd s (\<lambda>S. S\<lparr>err := e, in_check := b\<rparr>) w)"
  "only s w (upd s (\<lambda>S. S\<lparr>enabled := b, starts := 0\<rparr>) w)"
  "only s w (upd s (\<lambda>S. S\<lparr>starts := 0, failed := b, err := e\<rparr>) w)"
  "only s w (upd s (\<lambda>S. S\<lparr>reason := r, enabled := b, failed := b', err := e\<rparr>) w)"
  "only s w (upd s (\<lambda>S. S\<lparr>reason := r, starts := 0, failed := b, err := e, enabled := b'\<rparr>) w)"
  by (rule only_upd; simp add: links_of_def identity_of_def rate_ok_def)+

lemma only_withdrawn:
  "only s w v \<Longrightarrow> running (svc v s) = running (svc w s) \<Longrightarrow> \<not> stopping (svc v s) \<Longrightarrow>
   \<not> serving (svc v s) \<Longrightarrow> (enabled (svc v s) \<Longrightarrow> enabled (svc w s)) \<Longrightarrow> withdrawn s w v"
  by (simp add: only_def withdrawn_def)

lemma managed_bump:
  assumes "inv w" and "s \<in> set (managed w)" and "frame w v"
  shows "has_mgr (svc v s)"
  using inv_parts(2) [OF assms(1)] assms(2,3) by (simp add: frame_def graph_ok_def)

text \<open>No start is counted, and only \<open>s\<close> may be left stopped although it could run.\<close>

definition calm :: "sid \<Rightarrow> 'p world \<Rightarrow> 'p world \<Rightarrow> bool" where
  "calm s w w' \<longleftrightarrow> (\<forall>u. u \<noteq> s \<longrightarrow> starts (svc w' u) = starts (svc w u) \<and> (waiting w' u \<longrightarrow> waiting w u))"

text \<open>A stop of \<open>s\<close> followed by assignments \<open>g\<close> to its fields.\<close>

lemma stop_then_calm:
  assumes "inv w" and "s \<in> set (managed w)" and "withdrawn s w v"
    and g: "\<And>w'. halted {s} v w' \<Longrightarrow> \<not> running (svc w' s) \<Longrightarrow> only s w' (g w') \<and>
      service_ok (svc (g w') s) \<and> \<not> running (svc (g w') s) \<and> (enabled (svc (g w') s) \<longrightarrow> enabled (svc w s))"
  shows "returns (stopRecurse (fuel v) P s detail v) (\<lambda>w'. (inv (g w') \<and> frame w (g w') \<and>
    (\<forall>u. u \<noteq> s \<longrightarrow> stuck (g w') u \<longrightarrow> stuck w u) \<and> halted {s} v w' \<and> \<not> running (svc (g w') s)) \<and>
    calm s w (g w'))"
proof (rule returns_mono [OF stop_withdrawn [OF assms(1-3)]], elim conjE)
  fix w'
  assume w': "halted {s} v w'" "base_ok w'" "\<not> running (svc w' s)" "dep_ok {} w'"
  have o: "frame w' (g w')"
    "\<And>u. u \<noteq> s \<Longrightarrow> flags_of (svc (g w') u) = flags_of (svc w' u) \<and> starts (svc (g w') u) = starts (svc w' u)"
    "service_ok (svc (g w') s)" "\<not> running (svc (g w') s)" "enabled (svc (g w') s) \<Longrightarrow> enabled (svc w s)"
    using g [OF w'(1,3)] by (simp_all add: only_def)
  note st = stopped_inv [OF assms(1-3) w' o]
  have "calm s w (g w')" using st(3,6) by (simp add: calm_def)
  then show "(inv (g w') \<and> frame w (g w') \<and> (\<forall>u. u \<noteq> s \<longrightarrow> stuck (g w') u \<longrightarrow> stuck w u) \<and>
      halted {s} v w' \<and> \<not> running (svc (g w') s)) \<and> calm s w (g w')"
    using st(1,2,5) w'(1) o(4) by blast
qed

lemmas stop_then = returns_mono [OF stop_then_calm conjunct1]

section \<open>Health checks\<close>

lemma checkService_spec:
  assumes "inv w" and "s \<in> set (managed w)"
  shows "returns (checkService P s w) (\<lambda>(e, w'). keeps w w' \<and> (e = None \<longleftrightarrow> running (svc w' s)) \<and>
    (running (svc w s) \<and> e \<noteq> None \<longrightarrow> failed (svc w' s)) \<and> (e = None \<longrightarrow> running (svc w s)) \<and>
    calm s w w' \<and> starts (svc w' s) = starts (svc w s))"
proof (cases "failed (svc w s) \<or> \<not> running (svc w s)")
  case True
  then show ?thesis
    using inv_parts(9,10) [OF assms(1), of s] assms(1) by (auto simp: checkService_def calm_def)
next
  case False
  define w1 where "w1 = upd s (\<lambda>S. S\<lparr>in_check := True\<rparr>) w"
  define w2 where "w2 = snd (prov_Check P s w1)"
  have w2: "still w1 w2" by (simp add: w2_def)
  have o2: "only s w w2"
    by (rule only_trans [OF _ still_only [OF w2]]) (simp add: w1_def)
  have s2: "enabled (svc w2 s)" "running (svc w2 s)" "\<not> stopping (svc w2 s)" "\<not> failed (svc w2 s)"
    "err (svc w2 s) = err (svc w s)" "starts (svc w2 s) = starts (svc w s)" "enabled (svc w s)"
    using False inv_parts(8,9) [OF assms(1), of s] by (simp_all add: still_flags [OF w2] w1_def)
  have mgr2: "has_mgr (svc w2 s)"
    using managed_bump [OF assms] o2 by (simp add: only_def)
  have bump2: "returns (bump s w2) (still w2)" by (rule bump_still [OF mgr2])
  have healthy: "keeps w (upd s (\<lambda>S. S\<lparr>in_check := False\<rparr>) v) \<and> running (svc v s) \<and>
      calm s w (upd s (\<lambda>S. S\<lparr>in_check := False\<rparr>) v) \<and> starts (svc v s) = starts (svc w s)"
    if v: "still w2 v" for v
  proof -
    let ?z = "upd s (\<lambda>S. S\<lparr>in_check := False\<rparr>) v"
    have o: "only s w ?z"
      by (rule only_trans [OF only_trans [OF o2 still_only [OF v]]]) simp
    have z: "flags_of (svc ?z s) = flags_of (svc w s)"
      using False s2 inv_parts(4) [OF assms(1), of s]
      by (simp add: flags_of_def still_flags [OF v] service_ok_def)
    then have e: "enabled (svc ?z u) = enabled (svc w u)" for u
      using o by (cases "u = s") (auto simp: flags_of_def only_def)
    have st: "stuck w s \<or> \<not> stuck ?z s" using s2 by (simp add: stuck_def still_flags [OF v])
    have "inv ?z \<and> (\<forall>u. u \<noteq> s \<longrightarrow> stuck ?z u \<longrightarrow> stuck w u) \<and> calm s w ?z"
    proof -
      have "frame w ?z" "exclusive ?z"
        using o exclusive_cong [of w ?z, OF _ e] inv_parts(3) [OF assms(1)] by (simp_all add: only_def)
      moreover have "service_ok (svc ?z s)"
        using z inv_parts(4) [OF assms(1), of s] by (simp add: service_ok_def flags_of_def)
      ultimately show ?thesis
        using touched [OF assms, of ?z] o z by (auto simp: only_def serving_def flags_of_def calm_def)
    qed
    moreover have "starts (svc v s) = starts (svc w s)" using s2 by (simp add: still_flags [OF v])
    ultimately show ?thesis
      using o st s2 by (auto simp: keeps_def only_def no_newly_stuck_def still_flags [OF v])
  qed
  show ?thesis
  proof (cases "fst (prov_Check P s w1)")
    case None
    have "still v (stamp_now s (s_logf s m (upd s (\<lambda>S. S\<lparr>reason := r\<rparr>) v)))" for v m r
      by (rule still_trans [OF still_fields(2) still_trans [OF still_logf(1) still_stamp]])
    note ok = healthy [OF still_trans [OF _ this]]
    have "returns (bump s w2) (\<lambda>w3.
        keeps w (upd s (\<lambda>S. S\<lparr>in_check := False\<rparr>)
          (stamp_now s (s_logf s m (upd s (\<lambda>S. S\<lparr>reason := r\<rparr>) w3)))) \<and> running (svc w3 s) \<and>
        calm s w (upd s (\<lambda>S. S\<lparr>in_check := False\<rparr>)
          (stamp_now s (s_logf s m (upd s (\<lambda>S. S\<lparr>reason := r\<rparr>) w3)))) \<and> starts (svc w3 s) = starts (svc w s))" for m r
      by (rule returns_mono [OF bump2]) (use ok s2 in \<open>auto simp: still_flags\<close>)
    then show ?thesis
      using False None healthy [OF still_refl]
      by (simp add: checkService_def case_prod_beta Let_def flip: w1_def w2_def)
  next
    case (Some er)
    have fault: "returns (stopRecurse (fuel v) P s detail v) (\<lambda>w6.
        keeps w (upd s (\<lambda>S. S\<lparr>err := Some er, in_check := False\<rparr>) w6) \<and> \<not> running (svc w6 s) \<and>
        failed (svc w6 s) \<and> calm s w (upd s (\<lambda>S. S\<lparr>err := Some er, in_check := False\<rparr>) w6) \<and>
        starts (svc w6 s) = starts (svc w s))"
      if v: "v = upd s (\<lambda>S. S\<lparr>failed := True\<rparr>) x" and x: "still w2 x" for v x detail
    proof -
      have o: "only s w v"
        unfolding v by (rule only_trans [OF only_trans [OF o2 still_only [OF x]]]) simp
      have wd: "withdrawn s w v"
        by (rule only_withdrawn [OF o]) (use s2 False in \<open>simp_all add: v still_flags [OF x] serving_def\<close>)
      show ?thesis
      proof (rule returns_mono [OF stop_then_calm [OF assms wd,
              of "\<lambda>w6. upd s (\<lambda>S. S\<lparr>err := Some er, in_check := False\<rparr>) w6"]])
        fix w'
        assume "halted {s} v w'" "\<not> running (svc w' s)"
        then show "only s w' (upd s (\<lambda>S. S\<lparr>err := Some er, in_check := False\<rparr>) w') \<and>
          service_ok (svc (upd s (\<lambda>S. S\<lparr>err := Some er, in_check := False\<rparr>) w') s) \<and>
          \<not> running (svc (upd s (\<lambda>S. S\<lparr>err := Some er, in_check := False\<rparr>) w') s) \<and>
          (enabled (svc (upd s (\<lambda>S. S\<lparr>err := Some er, in_check := False\<rparr>) w') s) \<longrightarrow> enabled (svc w s))"
          using s2 by (simp add: service_ok_def halted_flags v still_flags [OF x])
      next
        fix w'
        assume "(inv (upd s (\<lambda>S. S\<lparr>err := Some er, in_check := False\<rparr>) w') \<and>
          frame w (upd s (\<lambda>S. S\<lparr>err := Some er, in_check := False\<rparr>) w') \<and>
          (\<forall>u. u \<noteq> s \<longrightarrow> stuck (upd s (\<lambda>S. S\<lparr>err := Some er, in_check := False\<rparr>) w') u \<longrightarrow> stuck w u) \<and>
          halted {s} v w' \<and> \<not> running (svc (upd s (\<lambda>S. S\<lparr>err := Some er, in_check := False\<rparr>) w') s)) \<and>
          calm s w (upd s (\<lambda>S. S\<lparr>err := Some er, in_check := False\<rparr>) w')"
        moreover from this have "failed (svc w' s)" using halted_flags(4) [of "{s}" v w' s] by (simp add: v)
        moreover from calculation(1) have "starts (svc w' s) = starts (svc w s)"
          using halted_flags(7) [of "{s}" v w' s] s2 by (simp add: v still_flags [OF x])
        moreover from calculation(2) have "\<not> stuck (upd s (\<lambda>S. S\<lparr>err := Some er, in_check := False\<rparr>) w') s"
          by (simp add: stuck_def)
        ultimately show "keeps w (upd s (\<lambda>S. S\<lparr>err := Some er, in_check := False\<rparr>) w') \<and>
          \<not> running (svc w' s) \<and> failed (svc w' s) \<and>
          calm s w (upd s (\<lambda>S. S\<lparr>err := Some er, in_check := False\<rparr>) w') \<and>
          starts (svc w' s) = starts (svc w s)"
          by (auto simp: keeps_def no_newly_stuck_def)
      qed
    qed
    have "returns (bump s w2) (\<lambda>w3. returns (stopRecurse
          (fuel (upd s (\<lambda>S. S\<lparr>failed := True\<rparr>) (s_logf s (m w3) w3))) P s detail
          (upd s (\<lambda>S. S\<lparr>failed := True\<rparr>) (s_logf s (m w3) w3)))
        (\<lambda>w6. keeps w (upd s (\<lambda>S. S\<lparr>err := Some er, in_check := False\<rparr>) w6) \<and>
          \<not> running (svc w6 s) \<and> failed (svc w6 s) \<and>
          calm s w (upd s (\<lambda>S. S\<lparr>err := Some er, in_check := False\<rparr>) w6) \<and>
          starts (svc w6 s) = starts (svc w s)))" for m detail
      by (rule returns_mono [OF bump2], rule fault [OF refl], erule still_trans [OF _ still_logf(1)])
    then show ?thesis
      using False Some
      by (simp add: checkService_def case_prod_beta Let_def flip: w1_def w2_def)
  qed
qed


text \<open>What \<open>checkService\<close> answers about a service that runs is what its provider says.\<close>

lemma checkService_answer:
  assumes "checkService P s w = Done (e, w')" and "running (svc w s)" "\<not> failed (svc w s)"
  shows "e = fst (pCheck P (prov (svc w s)))" and "e = Some er \<Longrightarrow> err (svc w' s) = Some er"
proof -
  have "fst (prov_Check P s (upd s (\<lambda>S. S\<lparr>in_check := True\<rparr>) w)) = fst (pCheck P (prov (svc w s)))"
    by (simp add: prov_Check_def case_prod_beta)
  then show "e = fst (pCheck P (prov (svc w s)))"
    using assms
    by (auto simp: checkService_def case_prod_beta Let_def bindO_Done_iff split: option.splits if_splits)
  show "err (svc w' s) = Some er" if "e = Some er"
    using assms that
    by (auto simp: checkService_def case_prod_beta Let_def bindO_Done_iff split: option.splits if_splits)
qed

lemma started_keeps: "started P s w w' \<Longrightarrow> keeps w w'"
  by (auto simp: started_def progress_def keeps_def no_newly_stuck_def)

lemma selfHeal_spec:
  assumes "inv w" and "s \<in> set (managed w)"
  shows "returns (selfHeal P s w) (keeps w)"
proof (cases "failed (svc w s) \<and> restart (svc w s)")
  case True
  let ?v = "s_logf s ''Attempting self-healing'' w"
  have k: "keeps w ?v" by (rule still_keeps [OF assms(1)]) simp
  have "returns (startRecurse (fuel ?v) P s d ?v) (keeps w)" for d
    by (rule returns_mono [OF start_returns]) (use k keeps_inv [OF k] assms in \<open>auto intro: keeps_trans started_keeps\<close>)
  moreover have "fuel ?v = fuel w" by (simp add: fuel_def)
  ultimately show ?thesis
    using True by (simp add: selfHeal_def del: s_logf_frames)
next
  case False
  then show ?thesis using assms(1) by (auto simp: selfHeal_def)
qed

lemma selfHeal_tries:
  assumes "inv w" and "s \<in> set (managed w)"
  shows "returns (selfHeal P s w) (\<lambda>w'. (\<forall>u. starts (svc w u) \<le> starts (svc w' u) \<and>
    (waiting w' u \<longrightarrow> waiting w u \<and> (u = s \<longrightarrow> \<not> (failed (svc w s) \<and> restart (svc w s))) \<or>
      starts (svc w u) < starts (svc w' u)) \<and>
    (running (svc w' u) \<and> \<not> running (svc w u) \<longrightarrow> starts (svc w u) < starts (svc w' u))) \<and>
    (restart (svc w s) \<or> w' = w))"
proof (cases "failed (svc w s) \<and> restart (svc w s)")
  case True
  let ?v = "s_logf s ''Attempting self-healing'' w"
  have st: "still w ?v" by simp
  have "returns (startRecurse (fuel ?v) P s d ?v) (started P s ?v)" for d
    by (rule start_returns) (use still_inv [OF st assms(1)] assms(2) in simp_all)
  then have "returns (startRecurse (fuel ?v) P s d ?v) (\<lambda>w'. \<forall>u. starts (svc w u) \<le> starts (svc w' u) \<and>
      (waiting w' u \<longrightarrow> waiting w u \<and> u \<noteq> s \<or> starts (svc w u) < starts (svc w' u)) \<and>
      (running (svc w' u) \<and> \<not> running (svc w u) \<longrightarrow> starts (svc w u) < starts (svc w' u)))" for d
    by (rule returns_mono)
      (auto simp: started_def progress_def still_waiting [OF st] still_flags [OF st] simp del: s_logf_frames)
  moreover have "fuel ?v = fuel w" by (simp add: fuel_def)
  ultimately show ?thesis
    using True by (simp add: selfHeal_def del: s_logf_frames)
next
  case False
  then show ?thesis by (auto simp: selfHeal_def)
qed

section \<open>\<open>Enable\<close>, \<open>Disable\<close>, \<open>Restart\<close> and \<open>Clear\<close>\<close>

text \<open>A start of \<open>s\<close> once its flags say that it may run.\<close>

lemma start_then:
  assumes "inv w" and "s \<in> set (managed w)" and "only s w v"
    and "running (svc v s) = running (svc w s)" "serving (svc v s) = serving (svc w s)"
    and "service_ok (svc v s)" "exclusive v"
  shows "returns (startRecurse (fuel v) P s detail v) (\<lambda>w'. keeps w w' \<and> started P s v w' \<and>
    (starts (svc v s) = 0 \<longrightarrow> can_run w' s \<longrightarrow> running (svc w' s) \<or> failed (svc w' s)))"
proof -
  have f: "frame w v" using assms(3) by (simp add: only_def)
  have t: "inv v" "\<And>u. u \<noteq> s \<Longrightarrow> stuck v u \<Longrightarrow> stuck w u"
    using touched [OF assms(1,2) f _ assms(4-7)] assms(3) by (auto simp: only_def)
  have m: "s \<in> set (managed v)" by (simp add: frame_managed [OF f] assms(2))
  have "returns (startRecurse (fuel v) P s detail v) (\<lambda>w'. started P s v w' \<and>
      (starts (svc v s) = 0 \<longrightarrow> can_run w' s \<longrightarrow> running (svc w' s) \<or> failed (svc w' s)))"
  proof (cases "starts (svc v s) = 0")
    case True
    show ?thesis by (rule returns_mono [OF start_anew [OF t(1) m True]]) simp
  qed (simp add: start_returns [OF t(1) m])
  then show ?thesis
    by (rule returns_mono)
      (use t(2) f in \<open>auto simp: started_def progress_def keeps_def no_newly_stuck_def intro: frame_trans\<close>)
qed

lemma Enable_conflict_iff:
  assumes "inv w"
  shows "find (\<lambda>c. enabled (svc w c)) (ord w 0 (incompat (svc w s))) = None \<longleftrightarrow>
    (\<forall>c \<in> set (incompat (svc w s)). \<not> enabled (svc w c))"
  using inv_parts(1) [OF assms] by (simp add: find_None_iff base_ok_def Ball_def)

lemma exclusive_enable:
  assumes "inv w" and "frame w v" and en: "\<And>u. enabled (svc v u) = (enabled (svc w u) \<or> u = s)"
    and free: "\<forall>c \<in> set (incompat (svc w s)). \<not> enabled (svc w c)"
  shows "exclusive v"
  unfolding exclusive_def frame_links [OF assms(2)] frame_managed [OF assms(2)]
proof (intro ballI notI)
  fix a t
  assume a: "a \<in> set (managed w)" and t: "t \<in> set (incompat (svc w a))"
    and both: "enabled (svc v a) \<and> enabled (svc v t)"
  note at = incompat_managed [OF inv_parts(2) [OF assms(1)] a t]
  have "\<not> (enabled (svc w a) \<and> enabled (svc w t))"
    using inv_parts(3) [OF assms(1)] a t by (auto simp: exclusive_def)
  then have "a = s \<and> enabled (svc w t) \<or> t = s \<and> enabled (svc w a)"
    using both at(2) by (auto simp: en)
  then show False using free t at(3) by auto
qed

text \<open>
  What \<open>Enable\<close> leaves alone: the other services stay enabled or disabled, none stops, and none
  starts more than once unless starting can fail.
\<close>

definition enable_frame :: "'p provider \<Rightarrow> sid \<Rightarrow> 'p world \<Rightarrow> 'p world \<Rightarrow> bool" where
  "enable_frame P s w w' \<longleftrightarrow> (\<forall>u. (u \<noteq> s \<longrightarrow> enabled (svc w' u) = enabled (svc w u)) \<and>
     (running (svc w u) \<longrightarrow> running (svc w' u)) \<and>
     (failed (svc w' u) \<longrightarrow> failed (svc w u) \<or> may_fail P) \<and>
     (may_fail P \<or> starts (svc w' u) \<le> starts (svc w u) + 1))"

lemma still_enable_frame: "still w w' \<Longrightarrow> enable_frame P s w w'"
  by (simp add: enable_frame_def still_flags)

lemma still_flags_of: "still w w' \<Longrightarrow> flags_of (svc w' u) = flags_of (svc w u)"
  by (simp add: still_def)

lemma Enable_spec:
  assumes "inv w" and "s \<in> set (managed w)"
  shows "returns (Enable P s w) (\<lambda>(e, w'). keeps w w' \<and>
    (if \<not> enabled (svc w s) \<and> (\<exists>c \<in> set (incompat (svc w s)). enabled (svc w c))
     then e = Some ErrConflict \<and> (\<forall>u. flags_of (svc w' u) = flags_of (svc w u))
     else e = None \<and> enabled (svc w' s) \<and> (\<not> enabled (svc w s) \<and> satisfied w s \<longrightarrow>
       running (svc w' s) \<or> failed (svc w' s))) \<and>
    enable_frame P s w w')"
proof (cases "enabled (svc w s)")
  case True
  then show ?thesis
    using assms managed_bump [OF assms frame_refl] by (auto simp: Enable_def enable_frame_def)
next
  case False
  define w1 where "w1 = snd (range_keys (incompat (svc w s)) w)"
  define cs where "cs = fst (range_keys (incompat (svc w s)) w)"
  have w1: "still w w1" by (simp add: w1_def)
  have mgr1: "has_mgr (svc w1 s)" using managed_bump [OF assms still_frame [OF w1]] .
  show ?thesis
  proof (cases "find (\<lambda>c. enabled (svc w1 c)) cs")
    case (Some c)
    then have conf: "\<exists>c \<in> set (incompat (svc w s)). enabled (svc w c)"
      using Enable_conflict_iff [OF assms(1), of s] by (auto simp: cs_def w1_def)
    have "returns (bump s (upd s (\<lambda>S. S\<lparr>reason := r\<rparr>) (s_logf s m w1)))
        (\<lambda>w3. still w (stamp_now s w3))" for r m
    proof (rule returns_mono [OF bump_upd_reason_still])
      show "has_mgr (svc (s_logf s m w1) s)" using mgr1 by simp
      fix x assume "still (s_logf s m w1) x"
      then show "still w (stamp_now s x)"
        by (rule still_trans [OF still_trans [OF w1 still_logf(1)] still_trans [OF _ still_stamp]])
    qed
    then have "returns (bump s (upd s (\<lambda>S. S\<lparr>reason := r\<rparr>) (s_logf s m w1)))
        (\<lambda>w3. keeps w (stamp_now s w3) \<and> (\<forall>u. flags_of (svc (stamp_now s w3) u) = flags_of (svc w u)) \<and>
          enable_frame P s w (stamp_now s w3))" for r m
      by (rule returns_mono)
        (simp add: still_keeps [OF assms(1)] still_enable_frame still_flags_of del: stamp_now_frame)
    then show ?thesis
      using False Some conf managed_bump [OF assms frame_refl]
      by (simp add: Enable_def case_prod_beta Let_def del: stamp_now_frame range_keys_frame flip: w1_def cs_def)
  next
    case None
    then have free: "\<forall>c \<in> set (incompat (svc w s)). \<not> enabled (svc w c)"
      using Enable_conflict_iff [OF assms(1), of s] by (auto simp: cs_def w1_def)
    have go: "returns (startRecurse (fuel v) P s d v) (\<lambda>w'. keeps w w' \<and> enabled (svc w' s) \<and>
        (satisfied w s \<longrightarrow> running (svc w' s) \<or> failed (svc w' s)) \<and>
        enable_frame P s w w')"
      if v: "v = upd s (\<lambda>S. S\<lparr>enabled := True, starts := 0\<rparr>) x" and x: "still w x" for v x d
    proof -
      have o: "only s w v"
        unfolding v by (rule only_trans [OF still_only [OF x]]) simp
      have nr: "\<not> running (svc w s)" using False inv_parts(9) [OF assms(1), of s] by auto
      have f: "frame w v" using o by (simp add: only_def)
      have en: "enabled (svc v u) = (enabled (svc w u) \<or> u = s)" for u
        by (simp add: v still_flags [OF x])
      have ex: "exclusive v"
        by (rule exclusive_enable [OF assms(1) f en free])
      have serv: "serving (svc v s) = serving (svc w s)"
        using nr by (simp add: serving_def v still_flags [OF x])
      have sok: "service_ok (svc v s)"
        using inv_parts(4) [OF assms(1), of s] nr by (simp add: service_ok_def v still_flags [OF x])
      have sat: "satisfied v s = satisfied w s"
      proof -
        have "serving (svc v p) = serving (svc w p)" for p
          using serv o by (cases "p = s") (auto simp: serving_def only_def flags_of_def)
        then show ?thesis by (simp add: satisfied_def frame_links [OF f])
      qed
      have "\<not> stopping (svc v s)"
        using inv_parts(8) [OF assms(1), of s] by (simp add: v still_flags [OF x])
      then have "can_run v s" if "satisfied w s"
        using that free incompat_managed(2) [OF inv_parts(2) [OF assms(1)] assms(2)]
        by (auto simp: can_run_def sat en frame_links [OF f])
      moreover have "\<not> limited (svc v s)"
        using inv_parts(6) [OF assms(1), of s] f by (auto simp: limited_def v rate_ok_def frame_def)
      moreover have vw: "failed (svc v u) = failed (svc w u)" "running (svc v u) = running (svc w u)"
        "starts (svc v u) \<le> starts (svc w u)" for u
        using inv_parts(6) [OF assms(1), of s] by (auto simp: v still_flags [OF x] rate_ok_def)
      have "starts (svc w' u) \<le> starts (svc w u) + 1" if "counted v w'" for w' u
        using that vw(3) [of u] by (simp add: counted_def add_increasing2)
      ultimately show ?thesis
        by (intro returns_mono [OF start_then [OF assms o _ serv sok ex]])
          (auto simp: started_def progress_def en enable_frame_def vw(1,2))
    qed
    have "still w1 x \<Longrightarrow> still w (s_logf s m (stamp_now s (upd s (\<lambda>S. S\<lparr>reason := r\<rparr>) x)))" for x m r
      by (rule still_trans [OF w1 still_trans [OF _ still_trans [OF still_fields(2) still_trans [OF still_stamp still_logf(1)]]]])
    note go' = go [OF refl this]
    have "returns (bump s w1) (\<lambda>w2. returns (startRecurse
          (fuel (upd s (\<lambda>S. S\<lparr>enabled := True, starts := 0\<rparr>)
            (s_logf s (m w2) (stamp_now s (upd s (\<lambda>S. S\<lparr>reason := r\<rparr>) w2))))) P s d
          (upd s (\<lambda>S. S\<lparr>enabled := True, starts := 0\<rparr>)
            (s_logf s (m w2) (stamp_now s (upd s (\<lambda>S. S\<lparr>reason := r\<rparr>) w2)))))
        (\<lambda>w'. keeps w w' \<and> enabled (svc w' s) \<and>
          (satisfied w s \<longrightarrow> running (svc w' s) \<or> failed (svc w' s)) \<and>
          enable_frame P s w w'))" for m r d
      by (rule returns_mono [OF bump_still [OF mgr1]]) (rule go')
    then show ?thesis
      using False None free managed_bump [OF assms frame_refl]
      by (simp add: Enable_def case_prod_beta Let_def del: stamp_now_frame range_keys_frame flip: w1_def cs_def)
  qed
qed


text \<open>Nothing starts, and besides \<open>s\<close> only services stop that can no longer run.\<close>

definition stops_only :: "sid \<Rightarrow> 'p world \<Rightarrow> 'p world \<Rightarrow> bool" where
  "stops_only s w w' \<longleftrightarrow> (\<forall>u. (running (svc w' u) \<longrightarrow> running (svc w u)) \<and>
     (u \<noteq> s \<and> running (svc w u) \<and> \<not> running (svc w' u) \<longrightarrow> \<not> can_run w' u))"

lemma Disable_spec:
  assumes "inv w" and "s \<in> set (managed w)"
  shows "returns (Disable P s w) (\<lambda>(e, w'). e = None \<and> keeps w w' \<and> \<not> enabled (svc w' s) \<and>
    \<not> running (svc w' s) \<and> stops_only s w w')"
proof (cases "\<not> enabled (svc w s) \<and> reason (svc w s) = ''Disabled''")
  case True
  then show ?thesis
    using assms managed_bump [OF assms frame_refl] inv_parts(9) [OF assms(1), of s]
    by (auto simp: Disable_def stops_only_def)
next
  case False
  note mgr = managed_bump [OF assms frame_refl]
  have stop: "returns (stopRecurse (fuel v) P s d v) (\<lambda>w'. keeps w w' \<and> \<not> enabled (svc w' s) \<and>
      \<not> running (svc w' s) \<and> stops_only s w w')"
    if v: "v = upd s (\<lambda>S. S\<lparr>reason := r, enabled := False, failed := False, err := None\<rparr>) x"
      and x: "still w x" for v x r d
  proof -
    have o: "only s w v"
      unfolding v by (rule only_trans [OF still_only [OF x]]) simp
    have run: "running (svc v u) = running (svc w u)" for u
      by (simp add: v still_flags [OF x])
    have wd: "withdrawn s w v"
      by (rule only_withdrawn [OF o run])
        (use inv_parts(8) [OF assms(1), of s] in \<open>simp_all add: v still_flags [OF x] serving_def\<close>)
    have v_s: "\<not> enabled (svc v s)" "\<not> failed (svc v s)" "in_check (svc v s) = in_check (svc w s)"
      "\<not> stopping (svc v s)"
      using wd by (simp_all add: v still_flags [OF x] withdrawn_def)
    show ?thesis
    proof (rule returns_mono [OF stop_then [OF assms wd, of "\<lambda>w'. w'"]])
      fix w'
      assume "halted {s} v w'" "\<not> running (svc w' s)"
      then show "only s w' w' \<and> service_ok (svc w' s) \<and> \<not> running (svc w' s) \<and>
          (enabled (svc w' s) \<longrightarrow> enabled (svc w s))"
        using v_s inv_parts(4) [OF assms(1), of s]
        by (simp add: service_ok_def halted_flags still_only)
    next
      fix w'
      assume w': "inv w' \<and> frame w w' \<and> (\<forall>u. u \<noteq> s \<longrightarrow> stuck w' u \<longrightarrow> stuck w u) \<and>
        halted {s} v w' \<and> \<not> running (svc w' s)"
      then have "\<not> enabled (svc w' s)" using v_s halted_flags(2) [of "{s}" v w' s] by simp
      moreover from this have "\<not> stuck w' s" by (simp add: stuck_def can_run_def)
      moreover from this have "stuck w' u \<longrightarrow> stuck w u" for u
        using w' by (cases "u = s") auto
      moreover have "stops_only s w w'"
        using w' run by (auto simp: stops_only_def halted_def)
      ultimately show "keeps w w' \<and> \<not> enabled (svc w' s) \<and> \<not> running (svc w' s) \<and>
          stops_only s w w'"
        using w' by (auto simp: keeps_def no_newly_stuck_def)
    qed
  qed
  have "still w x \<Longrightarrow> still w (stamp_now s (s_logf s m x))" for x m
    by (rule still_trans [OF _ still_trans [OF still_logf(1) still_stamp]])
  note stop' = stop [OF refl this]
  have "returns (bump s w) (\<lambda>w1. returns (stopRecurse
        (fuel (upd s (\<lambda>S. S\<lparr>reason := r, enabled := False, failed := False, err := None\<rparr>)
          (stamp_now s (s_logf s (m w1) w1)))) P s d
        (upd s (\<lambda>S. S\<lparr>reason := r, enabled := False, failed := False, err := None\<rparr>)
          (stamp_now s (s_logf s (m w1) w1))))
      (\<lambda>w'. keeps w w' \<and> \<not> enabled (svc w' s) \<and> \<not> running (svc w' s) \<and>
        stops_only s w w'))" for r m d
    by (rule returns_mono [OF bump_still [OF mgr]]) (rule stop')
  then show ?thesis
    using mgr by (simp add: Disable_def Let_def if_not_P [OF False] del: stamp_now_frame)
qed

lemma Clear_spec:
  assumes "inv w" and "s \<in> set (managed w)"
  shows "returns (Clear P s w) (\<lambda>w'. keeps w w' \<and> \<not> stuck w' s \<and>
    (can_run w' s \<longrightarrow> running (svc w' s) \<or> failed (svc w' s)) \<and> (\<forall>u. running (svc w u) \<longrightarrow> running (svc w' u)))"
proof -
  note mgr = managed_bump [OF assms frame_refl]
  have go: "returns (startRecurse (fuel v) P s d v) (\<lambda>w'. keeps w w' \<and> \<not> stuck w' s \<and>
      (can_run w' s \<longrightarrow> running (svc w' s) \<or> failed (svc w' s)) \<and> (\<forall>u. running (svc w u) \<longrightarrow> running (svc w' u)))"
    if v: "v = upd s (\<lambda>S. S\<lparr>starts := 0, failed := False, err := None\<rparr>) x" and x: "still w x" for v x d
  proof -
    have o: "only s w v"
      unfolding v by (rule only_trans [OF still_only [OF x]]) simp
    have en: "enabled (svc v u) = enabled (svc w u)" and run: "running (svc v u) = running (svc w u)" for u
      by (simp_all add: v still_flags [OF x])
    have serv: "serving (svc v s) = serving (svc w s)"
      using inv_parts(9) [OF assms(1), of s] by (auto simp: serving_def v still_flags [OF x])
    have sok: "service_ok (svc v s)"
      using inv_parts(4) [OF assms(1), of s] by (simp add: service_ok_def v still_flags [OF x])
    have "exclusive v"
      using exclusive_cong [of w v, OF _ en] o inv_parts(3) [OF assms(1)] by (simp add: only_def)
    moreover have "starts (svc v s) = 0" by (simp add: v)
    ultimately show ?thesis
      by (intro returns_mono [OF start_then [OF assms o run serv sok]])
        (auto simp: started_def progress_def run)
  qed
  have fault: "still w x \<Longrightarrow> still w (s_logf s m (stamp_now s (upd s (\<lambda>S. S\<lparr>reason := r\<rparr>) x)))" for x m r
    by (rule still_trans [OF _ still_trans [OF still_fields(2) still_trans [OF still_stamp still_logf(1)]]])
  have "returns (bump s w) (\<lambda>w1. returns (startRecurse (fuel (V w1)) P s d (V w1)) (\<lambda>w'. keeps w w' \<and>
      \<not> stuck w' s \<and> (can_run w' s \<longrightarrow> running (svc w' s) \<or> failed (svc w' s)) \<and> (\<forall>u. running (svc w u) \<longrightarrow> running (svc w' u))))"
    if V: "V = (\<lambda>w1. upd s (\<lambda>S. S\<lparr>starts := 0, failed := False, err := None\<rparr>)
        (if failed (svc w1 s) then s_logf s (m w1) (stamp_now s (upd s (\<lambda>S. S\<lparr>reason := r\<rparr>) w1)) else w1))"
    for V m r d
    unfolding V
    by (rule returns_mono [OF bump_still [OF mgr]], rule go [OF refl]) (simp add: fault)
  from this [OF refl] show ?thesis
    using mgr by (simp add: Clear_def Let_def del: stamp_now_frame)
qed

lemma Restart_spec:
  assumes "inv w" and "s \<in> set (managed w)"
  shows "returns (Restart P s w) (\<lambda>(e, w'). e = None \<and> keeps w w' \<and>
    enabled (svc w' s) = enabled (svc w s) \<and> (enabled (svc w s) \<longrightarrow> \<not> stuck w' s \<and>
      (running (svc w' s) \<longrightarrow> 0 < starts (svc w' s)) \<and> (can_run w' s \<longrightarrow> running (svc w' s) \<or> failed (svc w' s))))"
proof (cases "enabled (svc w s)")
  case False
  then show ?thesis
    using assms managed_bump [OF assms frame_refl] by (auto simp: Restart_def)
next
  case True
  note mgr = managed_bump [OF assms frame_refl]
  define g :: "string \<Rightarrow> 'a world \<Rightarrow> 'a world" where "g = (\<lambda>r w'. upd s (\<lambda>S. S\<lparr>reason := r, starts := 0, failed := False, err := None, enabled := True\<rparr>)
    (stamp_now s w'))"
  let ?Q = "\<lambda>w'. keeps w w' \<and> enabled (svc w' s) \<and> \<not> stuck w' s \<and> (running (svc w' s) \<longrightarrow> 0 < starts (svc w' s)) \<and>
    (can_run w' s \<longrightarrow> running (svc w' s) \<or> failed (svc w' s))"
  have again: "returns (stopRecurse (fuel v) P s d v) (\<lambda>w3.
      returns (startRecurse (fuel (g r w3)) P s d' (g r w3)) ?Q)"
    if v: "v = upd s (\<lambda>S. S\<lparr>enabled := False\<rparr>) x" and x: "still w x" for v x r d d'
  proof -
    have o: "only s w v"
      unfolding v by (rule only_trans [OF still_only [OF x]]) simp
    have run: "running (svc v u) = running (svc w u)" for u
      by (simp add: v still_flags [OF x])
    have wd: "withdrawn s w v"
      by (rule only_withdrawn [OF o run])
        (use inv_parts(8) [OF assms(1), of s] in \<open>simp_all add: v still_flags [OF x] serving_def\<close>)
    have v_s: "in_check (svc v s) = in_check (svc w s)" "\<not> stopping (svc v s)"
      using wd by (simp_all add: v still_flags [OF x] withdrawn_def)
    show ?thesis
    proof (rule returns_mono [OF stop_then [OF assms wd, of "g r"]])
      fix w'
      assume h: "halted {s} v w'" "\<not> running (svc w' s)"
      have "only s w' (g r w')"
        unfolding g_def by (rule only_trans [OF still_only [OF still_stamp [of w' s]]]) simp
      then show "only s w' (g r w') \<and> service_ok (svc (g r w') s) \<and> \<not> running (svc (g r w') s) \<and>
          (enabled (svc (g r w') s) \<longrightarrow> enabled (svc w s))"
        using h v_s True inv_parts(4) [OF assms(1), of s]
        by (simp add: service_ok_def halted_flags [OF h(1)] g_def)
    next
      fix w'
      assume w': "inv (g r w') \<and> frame w (g r w') \<and> (\<forall>u. u \<noteq> s \<longrightarrow> stuck (g r w') u \<longrightarrow> stuck w u) \<and>
        halted {s} v w' \<and> \<not> running (svc (g r w') s)"
      have "s \<in> set (managed (g r w'))" using w' assms(2) frame_managed [of w "g r w'"] by simp
      moreover have "starts (svc (g r w') s) = 0" by (simp add: g_def)
      ultimately have "returns (startRecurse (fuel (g r w')) P s d' (g r w')) (\<lambda>w2. started P s (g r w') w2 \<and>
          (running (svc w2 s) \<longrightarrow> running (svc (g r w') s) \<or> 0 < starts (svc w2 s)) \<and> (can_run w2 s \<longrightarrow> running (svc w2 s) \<or> failed (svc w2 s)))"
        using w' by (intro start_anew) auto
      moreover have "enabled (svc (g r w') s)" by (simp add: g_def)
      ultimately show "returns (startRecurse (fuel (g r w')) P s d' (g r w'))
          ?Q"
        using w' by (auto elim!: returns_mono simp: started_def progress_def keeps_def no_newly_stuck_def
            intro: frame_trans)
    qed
  qed
  have "returns (bump s w) (\<lambda>w1. returns (stopRecurse (fuel (upd s (\<lambda>S. S\<lparr>enabled := False\<rparr>) (s_logf s (m w1) w1))) P s d
      (upd s (\<lambda>S. S\<lparr>enabled := False\<rparr>) (s_logf s (m w1) w1))) (\<lambda>w3.
      returns (startRecurse (fuel (g r w3)) P s d' (g r w3)) ?Q))"
    for m r d d'
    by (rule returns_mono [OF bump_still [OF mgr]], rule again [OF refl]) (erule still_trans [OF _ still_logf(1)])
  then show ?thesis
    using True mgr by (simp add: Restart_def Let_def g_def del: stamp_now_frame)
qed


section \<open>Properties and construction\<close>

lemma links_cong_on:
  assumes "\<And>u. u \<in> G \<Longrightarrow> dep t u = dep' t u \<and> dep u t = dep' u t \<and> conf t u = conf' t u"
    and "keys t = keys' t" and "links_of (V t) = links_of (V' t)"
  shows "links dep conf keys V G t = links dep' conf' keys' V' G t"
proof -
  have "{u \<in> G. u \<noteq> t \<and> dep u t \<noteq> None} = {u \<in> G. u \<noteq> t \<and> dep' u t \<noteq> None}"
    "{u \<in> G. u \<noteq> t \<and> conf t u} = {u \<in> G. u \<noteq> t \<and> conf' t u}"
    "\<And>d. {u \<in> G. u \<noteq> t \<and> dep t u = Some d} = {u \<in> G. u \<noteq> t \<and> dep' t u = Some d}"
    using assms(1) by auto
  moreover have "parents (V t) = parents (V' t)" "children (V t) = children (V' t)" "incompat (V t) = incompat (V' t)"
    using assms(3) by (simp_all add: links_of_def)
  ultimately show ?thesis unfolding links_def by (simp only: assms(2))
qed

text \<open>Only the services of the manager count, and of the others only that they are idle.\<close>

lemma inv_managed_cong:
  assumes "inv w" and man: "managed w' = managed w" and "permutes_keys (ord w')"
    and same: "\<And>u. u \<in> set (managed w) \<Longrightarrow> links_of (svc w' u) = links_of (svc w u) \<and>
      identity_of (svc w' u) = identity_of (svc w u) \<and> has_mgr (svc w' u) \<and>
      flags_of (svc w' u) = flags_of (svc w u)"
    and others: "\<And>u. u \<notin> set (managed w) \<Longrightarrow> \<not> has_mgr (svc w' u) \<and> \<not> enabled (svc w' u) \<and>
      \<not> running (svc w' u) \<and> service_ok (svc w' u)"
    and rate: "\<And>u. rate_ok (svc w' u)"
  shows "inv w'"
    and "(\<And>u. u \<in> set (managed w) \<Longrightarrow> limited (svc w u) \<Longrightarrow> limited (svc w' u)) \<Longrightarrow> no_newly_stuck w w'"
proof -
  have G: "graph_ok w" by (rule inv_parts(2) [OF assms(1)])
  have f: "enabled (svc w' u) = enabled (svc w u)" "running (svc w' u) = running (svc w u)"
    "stopping (svc w' u) = stopping (svc w u)" "failed (svc w' u) = failed (svc w u)"
    "service_ok (svc w' u) = service_ok (svc w u)" "serving (svc w' u) = serving (svc w u)"
    "parents (svc w' u) = parents (svc w u)" "incompat (svc w' u) = incompat (svc w u)"
    if "u \<in> set (managed w)" for u
    using same [OF that] by (auto simp: flags_of_def service_ok_def serving_def links_of_def)
  have si: "same_identity (svc w u) (svc w' u)" if "u \<in> set (managed w)" for u
    using same [OF that] by (metis identity_of_same)
  have L: "links (dep_of w') (conf_of w') (keys_of w') (svc w') (set (managed w)) t"
    if t: "t \<in> set (managed w)" for t
  proof -
    have "links (dep_of w) (conf_of w) (keys_of w) (svc w) (set (managed w)) t =
        links (dep_of w') (conf_of w') (keys_of w') (svc w') (set (managed w)) t"
    proof (rule links_cong_on)
      fix u assume u: "u \<in> set (managed w)"
      show "dep_of w t u = dep_of w' t u \<and> dep_of w u t = dep_of w' u t \<and> conf_of w t u = conf_of w' t u"
        using same_identity_registered [OF si [OF t] si [OF u]] same_identity_registered [OF si [OF u] si [OF t]]
          same_identity_conflicting [OF si [OF t] si [OF u]]
        by (simp add: dep_of_def conf_of_def)
    next
      show "keys_of w t = keys_of w' t" using si [OF t] by (simp add: keys_of_def same_identity_def)
      show "links_of (svc w t) = links_of (svc w' t)" using same [OF t] by simp
    qed
    then show ?thesis using graph_links [OF G t] by simp
  qed
  have nm: "sname (svc w' u) = sname (svc w u)" if "u \<in> set (managed w)" for u
    using same [OF that] by (simp add: identity_of_def)
  have "inj_on (\<lambda>s. sname (svc w' s)) (set (managed w)) = inj_on (\<lambda>s. sname (svc w s)) (set (managed w))"
    by (rule inj_on_cong) (simp add: nm)
  moreover have "has_mgr (svc w' u) = (u \<in> set (managed w))" for u
    using same [of u] others [of u] by (cases "u \<in> set (managed w)") simp_all
  ultimately have g: "graph_ok w'"
    using G L by (simp add: graph_ok_def man)
  have sat: "satisfied w' u = satisfied w u" if u: "u \<in> set (managed w)" for u
  proof -
    have "p \<in> set (managed w)" if "(d, ps) \<in> set (parents (svc w u))" "p \<in> set ps" for d ps p
      using parent_has_child(2) [OF G u that] .
    then show ?thesis using f(6) f(7) [OF u] by (fastforce simp: satisfied_def)
  qed
  have inc: "c \<in> set (managed w)" if "u \<in> set (managed w)" "c \<in> set (incompat (svc w u))" for u c
    using incompat_managed(1) [OF G that] .
  have "base_ok w'"
    using g assms(3) rate others by (simp add: base_ok_def man)
  moreover have "exclusive w'"
    using inv_parts(3) [OF assms(1)] f(1,8) inc by (simp add: exclusive_def man)
  moreover have "service_ok (svc w' u)" for u
    using f(5) [of u] others [of u] inv_parts(4) [OF assms(1), of u] by (cases "u \<in> set (managed w)") simp_all
  moreover have "satisfied w' u" if "running (svc w' u)" for u
    using that others [of u] f(2) [of u] sat [of u] inv_parts(5) [OF assms(1), of u]
    by (cases "u \<in> set (managed w)") simp_all
  ultimately show "inv w'" by (simp add: inv_def)
  show "no_newly_stuck w w'"
    if lim: "\<And>u. u \<in> set (managed w) \<Longrightarrow> limited (svc w u) \<Longrightarrow> limited (svc w' u)"
    unfolding no_newly_stuck_def
  proof (intro allI impI)
    fix u assume st: "stuck w' u"
    then have u: "u \<in> set (managed w)" by (simp add: stuck_def man)
    then show "stuck w u"
      using st f [OF u] sat [OF u] inc [OF u] f(1) lim [OF u] by (auto simp: stuck_def can_run_def man)
  qed
qed


definition limit_property :: "property_name \<Rightarrow> bool" where
  "limit_property n \<longleftrightarrow> n \<in> {PropRateLimit, PropRatePeriod}"

text \<open>A negative \<open>PropRateLimit\<close> is left out: \<open>tooQuickly\<close> would index an empty slice.\<close>

definition valid_limit :: "property_name \<Rightarrow> propval \<Rightarrow> bool" where
  "valid_limit n v \<longleftrightarrow> (n = PropRateLimit \<longrightarrow> (\<forall>k. v = VInt k \<longrightarrow> 0 \<le> k))"

lemma assign_property_keeps:
  assumes "assign_property n v S = Inr S'"
  shows "links_of S' = links_of S" "has_mgr S' = has_mgr S" "flags_of S' = flags_of S"
    "\<not> read_only_when_managed n \<Longrightarrow> identity_of S' = identity_of S"
    "\<not> limit_property n \<Longrightarrow> starts S' = starts S \<and> rateLimit S' = rateLimit S"
    "valid_limit n v \<Longrightarrow> rate_ok S \<Longrightarrow> rate_ok S'"
  using assms
  by (cases n; cases v; auto simp: assign_property_def links_of_def flags_of_def identity_of_def Let_def
      read_only_when_managed_def limit_property_def valid_limit_def rate_ok_def split: if_splits option.splits)+

lemma service_ok_flags: "flags_of S = flags_of S' \<Longrightarrow> service_ok S = service_ok S'"
  by (simp add: flags_of_def service_ok_def)

lemma assigned_inv:
  assumes "inv w" and "still w x" and "S' = svc x s \<or> assign_property n v (svc x s) = Inr S'"
    and "has_mgr (svc w s) \<Longrightarrow> \<not> read_only_when_managed n" and "valid_limit n v"
    and z: "svc z = (svc x)(s := S'\<lparr>prov := p\<rparr>)" "managed z = managed x" "ord z = ord x"
  shows "inv z" "\<not> limit_property n \<Longrightarrow> no_newly_stuck w z" "flags_of (svc z u) = flags_of (svc w u)"
proof -
  have G: "graph_ok w" by (rule inv_parts(2) [OF assms(1)])
  have S': "links_of S' = links_of (svc x s)" "has_mgr S' = has_mgr (svc x s)" "flags_of S' = flags_of (svc x s)"
    "\<not> read_only_when_managed n \<Longrightarrow> identity_of S' = identity_of (svc x s)"
    "\<not> limit_property n \<Longrightarrow> starts S' = starts (svc x s) \<and> rateLimit S' = rateLimit (svc x s)"
    "rate_ok (svc x s) \<Longrightarrow> rate_ok S'"
    using assms(3) assign_property_keeps [of n v "svc x s" S'] assms(5) by auto
  have x: "links_of (svc x u) = links_of (svc w u)" "has_mgr (svc x u) = has_mgr (svc w u)"
    "flags_of (svc x u) = flags_of (svc w u)" "identity_of (svc x u) = identity_of (svc w u)"
    "starts (svc x u) = starts (svc w u)" "rateLimit (svc x u) = rateLimit (svc w u)" "rate_ok (svc x u)" for u
    using assms(2) inv_parts(6) [OF assms(1)] by (simp_all add: still_def frame_def)
  have fields: "links_of (S'\<lparr>prov := p\<rparr>) = links_of S'" "has_mgr (S'\<lparr>prov := p\<rparr>) = has_mgr S'"
    "flags_of (S'\<lparr>prov := p\<rparr>) = flags_of S'" "identity_of (S'\<lparr>prov := p\<rparr>) = identity_of S'"
    "rate_ok (S'\<lparr>prov := p\<rparr>) = rate_ok S'"
    by (simp_all add: links_of_def flags_of_def identity_of_def rate_ok_def)
  show fl: "flags_of (svc z u) = flags_of (svc w u)" for u
    by (simp add: z fields S' x)
  have zu: "links_of (svc z u) = links_of (svc w u)" "has_mgr (svc z u) = has_mgr (svc w u)"
    "rate_ok (svc z u)" for u
    by (simp_all add: z fields S' x)
  have ident: "identity_of (svc z u) = identity_of (svc w u)" if "has_mgr (svc w u)" for u
    using that assms(4) by (cases "u = s") (simp_all add: z fields S' x)
  have man: "has_mgr (svc w u) \<longleftrightarrow> u \<in> set (managed w)" for u
    using G by (simp add: graph_ok_def)
  have mz: "managed z = managed w" using frame_managed [OF still_frame [OF assms(2)]] z(2) by simp
  have oz: "permutes_keys (ord z)"
    using inv_parts(1) [OF assms(1)] still_frame [OF assms(2)] z(3) by (simp add: base_ok_def frame_def)
  have c1: "links_of (svc z u) = links_of (svc w u) \<and> identity_of (svc z u) = identity_of (svc w u) \<and>
      has_mgr (svc z u) \<and> flags_of (svc z u) = flags_of (svc w u)" if "u \<in> set (managed w)" for u
    using that man ident zu(1,2) fl by blast
  have c2: "\<not> has_mgr (svc z u) \<and> \<not> enabled (svc z u) \<and> \<not> running (svc z u) \<and> service_ok (svc z u)"
    if "u \<notin> set (managed w)" for u
    using that man zu(2) fl [of u] service_ok_flags [OF fl] inv_parts(1,4) [OF assms(1)]
    by (simp add: base_ok_def flags_of_def)
  note cong = inv_managed_cong [OF assms(1) mz oz c1 c2 zu(3)]
  show "inv z" by (rule cong(1))
  show "no_newly_stuck w z" if "\<not> limit_property n"
  proof (rule cong(2))
    fix u assume "limited (svc w u)"
    then show "limited (svc z u)"
      using S'(5) [OF that] x(5,6) by (cases "u = s") (simp_all add: limited_def z)
  qed
qed

lemma setProp_cases:
  "setProp P s n v w =
     (if has_mgr (svc w s) \<and> read_only_when_managed n then Done (Some ErrPropReadOnly, w)
      else
        bindO (if has_mgr (svc w s) then bump s w else Done w) (\<lambda>w1.
        if \<exists>k. n = OtherProperty k then Done (prov_SetProperty P s n (FromUser v) w1)
        else case assign_property n v (svc w1 s) of
               Inl e \<Rightarrow> Done (Some e, w1)
             | Inr S \<Rightarrow>
                 let w2 = upd s (\<lambda>_. S) w1
                 in if n = PropNotify then Done (None, w2)
                    else Done (None, snd (prov_SetProperty P s n (FromUser v) w2))))"
  by (induction n) (simp_all add: setProp_def)

lemma setProp_spec:
  assumes "inv w" and "valid_limit n v"
  shows "returns (setProp P s n v w) (\<lambda>(e, w'). inv w' \<and> managed w' = managed w \<and>
    (\<not> limit_property n \<longrightarrow> no_newly_stuck w w') \<and> (\<forall>u. flags_of (svc w' u) = flags_of (svc w u)))"
proof (cases "has_mgr (svc w s) \<and> read_only_when_managed n")
  case True
  then show ?thesis using assms(1) by (simp add: setProp_cases no_newly_stuck_def)
next
  case False
  define Q where "Q = (\<lambda>w'. inv w' \<and> managed w' = managed w \<and>
    (\<not> limit_property n \<longrightarrow> no_newly_stuck w w') \<and> (\<forall>u. flags_of (svc w' u) = flags_of (svc w u)))"
  have st: "returns (if has_mgr (svc w s) then bump s w else Done w) (still w)"
    by (simp add: bump_still)
  have man: "managed x = managed w" if "still w x" for x
    using frame_managed [OF still_frame [OF that]] .
  note as = assigned_inv [OF assms(1) _ _ _ assms(2)]
  have other: "Q (snd (prov_SetProperty P s n (FromUser v) x))" if x: "still w x" for x
    using as [OF x, of "svc x s" s "snd (prov_SetProperty P s n (FromUser v) x)"] False man [OF x]
    by (simp add: Q_def prov_SetProperty_def case_prod_beta)
  have unassigned: "Q x" if x: "still w x" for x
    using x still_inv [OF x assms(1)] man [OF x] still_stuck [OF x]
    by (simp add: Q_def no_newly_stuck_def still_def)
  have assigned: "Q (snd (prov_SetProperty P s n (FromUser v) (upd s (\<lambda>_. S') x)))"
    "n = PropNotify \<Longrightarrow> Q (upd s (\<lambda>_. S') x)"
    if x: "still w x" and S': "assign_property n v (svc x s) = Inr S'" for x S'
    using as [OF x, of S' s "snd (prov_SetProperty P s n (FromUser v) (upd s (\<lambda>_. S') x))"]
      as [OF x, of S' s "upd s (\<lambda>_. S') x" "prov S'"] False man [OF x] S'
    by (simp_all add: Q_def prov_SetProperty_def case_prod_beta)
  show ?thesis
    unfolding setProp_cases if_not_P [OF False] returns_bindO Q_def [symmetric]
  proof (rule returns_mono [OF st])
    fix x assume x: "still w x"
    show "returns (if \<exists>k. n = OtherProperty k then Done (prov_SetProperty P s n (FromUser v) x)
        else case assign_property n v (svc x s) of
               Inl e \<Rightarrow> Done (Some e, x)
             | Inr S \<Rightarrow>
                 let w2 = upd s (\<lambda>_. S) x
                 in if n = PropNotify then Done (None, w2)
                    else Done (None, snd (prov_SetProperty P s n (FromUser v) w2)))
      (\<lambda>(e, y). Q y)"
    proof (cases "assign_property n v (svc x s)")
      case (Inl e)
      have "Q x" by (rule unassigned [OF x])
      then show ?thesis using Inl other [OF x] by (simp add: case_prod_beta)
    next
      case (Inr S')
      then show ?thesis
        using other [OF x] assigned [OF x Inr]
        by (cases "n = PropNotify") (simp_all add: case_prod_beta Let_def)
    qed
  qed
qed

lemma SetProperty_spec:
  assumes "inv w" and "valid_limit n v"
  shows "returns (SetProperty P s n v w) (\<lambda>(e, w'). inv w' \<and> managed w' = managed w \<and>
    (\<not> limit_property n \<longrightarrow> no_newly_stuck w w') \<and> (\<forall>u. flags_of (svc w' u) = flags_of (svc w u)))"
  unfolding SetProperty_def returns_bindO
proof (rule returns_mono [OF setProp_spec [OF assms]], clarify)
  fix e w'
  assume w': "inv w'" "managed w' = managed w" "\<not> limit_property n \<longrightarrow> no_newly_stuck w w'"
    "\<forall>u. flags_of (svc w' u) = flags_of (svc w u)"
  have "still w' (s_logf s m w')" for m by simp
  note l = still_inv [OF this w'(1)] still_stuck [OF this]
  show "returns (case e of
       Some er \<Rightarrow> Done (Some er, s_logf s (''Failed to set property '' @ sname (svc w' s) @ '': '' @
                    error_text er) w')
     | None \<Rightarrow> Done (None, w')) (\<lambda>(e, w'). inv w' \<and> managed w' = managed w \<and>
    (\<not> limit_property n \<longrightarrow> no_newly_stuck w w') \<and> (\<forall>u. flags_of (svc w' u) = flags_of (svc w u)))"
    using w' l by (cases e) (simp_all add: no_newly_stuck_def)
qed


lemma NewService_world:
  "managed (NewService P p s w) = managed w" "ord (NewService P p s w) = ord w"
  "u \<noteq> s \<Longrightarrow> svc (NewService P p s w) u = svc w u"
  "\<exists>q. svc (NewService P p s w) s = (service_defaults P p)\<lparr>prov := q,
     s_mlog := \<lparr>ml_prefix = ''['' @ pName P p @ ''] '', ml_loggers = [SlogLogger]\<rparr>\<rparr>"
  by (simp_all add: NewService_def Let_def prov_SetProperty_def case_prod_beta NewLog_def
      service_defaults_def NewMultiLogger_def ml_AddLogger_def)

lemma NewService_inv:
  assumes "inv w" and "s \<notin> set (managed w)"
  shows "inv (NewService P p s w)" "no_newly_stuck w (NewService P p s w)"
proof -
  obtain q where q: "svc (NewService P p s w) s = (service_defaults P p)\<lparr>prov := q,
     s_mlog := \<lparr>ml_prefix = ''['' @ pName P p @ ''] '', ml_loggers = [SlogLogger]\<rparr>\<rparr>"
    using NewService_world(4) [of P p s w] by (elim exE)
  have new: "\<not> has_mgr (svc (NewService P p s w) s) \<and> \<not> enabled (svc (NewService P p s w) s) \<and>
      \<not> running (svc (NewService P p s w) s) \<and> service_ok (svc (NewService P p s w) s) \<and>
      rate_ok (svc (NewService P p s w) s)"
    by (simp add: q service_defaults_def service_ok_def rate_ok_def)
  have old: "svc (NewService P p s w) u = svc w u" if "u \<noteq> s" for u
    by (rule NewService_world(3) [OF that])
  have G: "has_mgr (svc w u) \<longleftrightarrow> u \<in> set (managed w)" for u
    using inv_parts(2) [OF assms(1)] by (simp add: graph_ok_def)
  have c1: "links_of (svc (NewService P p s w) u) = links_of (svc w u) \<and>
      identity_of (svc (NewService P p s w) u) = identity_of (svc w u) \<and>
      has_mgr (svc (NewService P p s w) u) \<and> flags_of (svc (NewService P p s w) u) = flags_of (svc w u)"
    if "u \<in> set (managed w)" for u
    using that assms(2) old [of u] G by (cases "u = s") auto
  have c2: "\<not> has_mgr (svc (NewService P p s w) u) \<and> \<not> enabled (svc (NewService P p s w) u) \<and>
      \<not> running (svc (NewService P p s w) u) \<and> service_ok (svc (NewService P p s w) u)"
    if "u \<notin> set (managed w)" for u
    using that new old [of u] G [of u] inv_parts(1,4) [OF assms(1)]
    by (cases "u = s") (auto simp: base_ok_def)
  have c3: "rate_ok (svc (NewService P p s w) u)" for u
    using new old [of u] inv_parts(6) [OF assms(1)] by (cases "u = s") auto
  have o: "permutes_keys (ord (NewService P p s w))"
    using inv_parts(1) [OF assms(1)] by (simp add: NewService_world(2) base_ok_def)
  note cong = inv_managed_cong [OF assms(1) NewService_world(1) o c1 c2 c3]
  show "inv (NewService P p s w)" by (rule cong(1))
  show "no_newly_stuck w (NewService P p s w)"
  proof (rule cong(2))
    fix u assume "u \<in> set (managed w)" "limited (svc w u)"
    then show "limited (svc (NewService P p s w) u)" using assms(2) old [of u] by (cases "u = s") auto
  qed
qed

lemma Check_spec:
  assumes "inv w" and "s \<in> set (managed w)"
  shows "returns (Check P s w) (\<lambda>(e, w'). keeps w w' \<and> (e = None \<longleftrightarrow> running (svc w' s)) \<and>
    (running (svc w s) \<and> e \<noteq> None \<longrightarrow> failed (svc w' s)) \<and> (e = None \<longrightarrow> running (svc w s)) \<and>
    calm s w w' \<and> starts (svc w' s) = starts (svc w s))"
  using checkService_spec [OF assms] managed_bump [OF assms frame_refl] by (simp add: Check_def)

lemma unmanaged_ops:
  assumes "\<not> has_mgr (svc w s)"
  shows "Enable P s w = Done (Some ErrNoManager, w)" "Disable P s w = Done (Some ErrNoManager, w)"
    "Restart P s w = Done (Some ErrNoManager, w)" "Check P s w = Done (Some ErrNoManager, w)"
    "Clear P s w = Done w"
  using assms by (simp_all add: Enable_def Disable_def Restart_def Check_def Clear_def)

end
