(* ===== verification/ManagerApi.thy ===== *)
theory ManagerApi
  imports ServiceApi
begin

text \<open>
  The \<open>Manager\<close> of \<open>manager.go\<close>: construction, adding and deleting services, queries, the
  loggers, monitoring, notifications and shutdown.  Each method holds the manager's lock while
  it changes state and is one atomic operation; the lines a method logs after it released the
  lock are the last thing it does.  The directory that \<open>setBaseDir\<close> computes is never used.
\<close>

section \<open>Construction\<close>

definition NewManager :: "string \<Rightarrow> clock \<Rightarrow> manager \<times> clock" where
  "NewManager name c =
     (let n = (if name = [] then ''govisor'' else name);
          serial = word_of_int (reading c);
          c1 = next_reading c;
          created = reading c1;
          (l, c3) = NewLog (next_reading c1)
      in (\<lparr>services = [], m_name = n, m_logger = Some StderrLogger, mylog = True, m_log = l,
           m_mlog = ml_AddLogger ManagerLogLogger NewMultiLogger, cleanup = False,
           monitoring = False, m_serial = serial, listSerial = 0, listStamp = zero_time,
           createTime = created, updateTime = created, cvs = []\<rparr>, c3))"

text \<open>The world of a new manager before any service exists.\<close>

definition new_world :: "string \<Rightarrow> (sid \<Rightarrow> 'p service) \<Rightarrow> clock \<Rightarrow> order \<Rightarrow> 'p world" where
  "new_world name V c r =
     (let (m, c1) = NewManager name c
      in \<lparr>svc = V, slogs = (\<lambda>_. fst (NewLog c)), mgr = m, clk = c1, ord = r, ext = [], next_logger = 0\<rparr>)"

lemma new_world_mgr [simp]:
  "managed (new_world name V c r) = []" "m_name (mgr (new_world name V c r)) = (if name = [] then ''govisor'' else name)"
  "\<not> cleanup (mgr (new_world name V c r))"
  by (simp_all add: new_world_def NewManager_def Let_def case_prod_beta)

text \<open>\<open>setBaseDir\<close>, as a function of the operating system, the user and the environment.\<close>

definition setBaseDir :: "string \<Rightarrow> int \<Rightarrow> string \<Rightarrow> string \<Rightarrow> string" where
  "setBaseDir goos euid GOVISORDIR HOME =
     (if goos = ''nacl'' \<or> goos = ''plan9'' then []
      else if goos = ''windows'' then
        let d = (if GOVISORDIR = [] then HOME else GOVISORDIR)
        in if d = [] then ''C:'' @ [CHR 92] else d
      else
        let d = (if GOVISORDIR = [] then (if euid = 0 then ''/var'' else HOME) else GOVISORDIR)
        in if d = [] then ''.'' else d)"

section \<open>Services of the manager\<close>

text \<open>The loop that looks for a service of the same name.\<close>

definition name_taken :: "sid \<Rightarrow> 'p world \<Rightarrow> bool" where
  "name_taken s w \<longleftrightarrow> list_ex (\<lambda>s2. sname (svc w s) = sname (svc w s2)) (managed w)"

definition set_listSerial :: "int64 \<Rightarrow> 'p world \<Rightarrow> 'p world" where
  "set_listSerial sn w = w\<lparr>mgr := (mgr w)\<lparr>listSerial := sn\<rparr>\<rparr>"

definition set_listStamp :: "'p world \<Rightarrow> 'p world" where
  "set_listStamp w = tick (w\<lparr>mgr := (mgr w)\<lparr>listStamp := now w\<rparr>\<rparr>)"

text \<open>\<open>m.listSerial = m.bumpSerial(); s.serial = m.bumpSerial(); m.listStamp = time.Now()\<close>\<close>

definition list_changed :: "sid \<Rightarrow> 'p world \<Rightarrow> 'p world" where
  "list_changed s w =
     (let (sn1, w1) = bumpSerial w;
          w2 = set_listSerial sn1 w1;
          (sn2, w3) = bumpSerial w2
      in set_listStamp (upd s (\<lambda>S. S\<lparr>s_serial := sn2\<rparr>) w3))"

definition AddService :: "sid \<Rightarrow> 'p world \<Rightarrow> (error option \<times> 'p world) outcome" where
  "AddService s w =
     (if name_taken s w then
        Done (Some ErrNameExists,
          m_logf (''['' @ m_name (mgr w) @ ''] Failed to add service ['' @ sname (svc w s) @ '']: '' @
            error_text ErrNameExists) w)
      else
        bindO (setManager s w) (\<lambda>w1.
        let w2 = list_changed s w1
        in Done (None, m_logf (''['' @ m_name (mgr w2) @ ''] Added service ['' @ sname (svc w2 s) @
             '']: '' @ desc (svc w2 s)) w2)))"

definition DeleteService :: "sid \<Rightarrow> 'p world \<Rightarrow> error option \<times> 'p world" where
  "DeleteService s w =
     (if enabled (svc w s) then (Some ErrIsEnabled, w)
      else
        let w1 = delManager s w;
            w2 = m_logf (''['' @ m_name (mgr w1) @ ''] Deleted service ['' @ sname (svc w1 s) @ '']'') w1
        in (None, list_changed s w2))"

definition Services :: "'p world \<Rightarrow> (sid list \<times> int64 \<times> time) \<times> 'p world" where
  "Services w =
     (let (ss, w1) = range_keys (managed w) w
      in ((ss, listSerial (mgr w1), listStamp (mgr w1)), w1))"

definition FindServices :: "string \<Rightarrow> 'p world \<Rightarrow> sid list \<times> 'p world" where
  "FindServices match w =
     (let (ss, w1) = range_keys (managed w) w
      in (filter (\<lambda>s. Matches (svc w1 s) match) ss, w1))"

record manager_info =
  i_Name :: string
  i_Serial :: int64
  i_UpdateTime :: time
  i_CreateTime :: time

definition GetInfo :: "'p world \<Rightarrow> manager_info" where
  "GetInfo w =
     \<lparr>i_Name = m_name (mgr w), i_Serial = m_serial (mgr w), i_UpdateTime = updateTime (mgr w),
      i_CreateTime = createTime (mgr w)\<rparr>"

definition manager_Serial :: "'p world \<Rightarrow> int64" where
  "manager_Serial w = m_serial (mgr w)"

definition manager_Name :: "'p world \<Rightarrow> string" where
  "manager_Name w = m_name (mgr w)"

definition manager_GetLog :: "int64 \<Rightarrow> 'p world \<Rightarrow> log_record list option \<times> int64" where
  "manager_GetLog lastid w = log_GetRecords lastid (m_log (mgr w))"

definition SetLogger :: "nat \<Rightarrow> 'p world \<Rightarrow> 'p world" where
  "SetLogger l w =
     (let m = mgr w;
          m1 = (case m_logger m of None \<Rightarrow> m | Some k \<Rightarrow> m\<lparr>m_mlog := ml_DelLogger k (m_mlog m)\<rparr>);
          m2 = m1\<lparr>m_logger := Some (ManagerUserLogger l)\<rparr>
      in w\<lparr>mgr := m2\<lparr>m_mlog := ml_AddLogger (ManagerUserLogger l) (m_mlog m2)\<rparr>\<rparr>)"

section \<open>Monitoring, notification and shutdown\<close>

definition set_monitoring :: "bool \<Rightarrow> 'p world \<Rightarrow> 'p world" where
  "set_monitoring b w = w\<lparr>mgr := (mgr w)\<lparr>monitoring := b\<rparr>\<rparr>"

definition StartMonitoring :: "'p world \<Rightarrow> 'p world" where
  "StartMonitoring w =
     set_monitoring True (m_logf (''*** Govisor starting monitoring: '' @ m_name (mgr w) @ '' ***'') w)"

definition StopMonitoring :: "'p world \<Rightarrow> 'p world" where
  "StopMonitoring w =
     (let w1 = set_monitoring False w
      in m_logf (''*** Govisor stopping monitoring: '' @ m_name (mgr w1) @ '' ***'') w1)"

text \<open>The body that \<open>monitor\<close> and \<open>notify\<close> share.\<close>

definition check_and_heal :: "'p provider \<Rightarrow> sid \<Rightarrow> 'p world \<Rightarrow> 'p world outcome" where
  "check_and_heal P s w =
     (if enabled (svc w s)
      then bindO (checkService P s w) (\<lambda>(e, w1). if e \<noteq> None then selfHeal P s w1 else Done w1)
      else Done w)"

text \<open>One round of the monitor: whether it is the last, and the world after it.\<close>

definition monitor_round :: "'p provider \<Rightarrow> 'p world \<Rightarrow> (bool \<times> 'p world) outcome" where
  "monitor_round P w =
     bindO (if monitoring (mgr w)
            then let (ss, w1) = range_keys (managed w) w in foldO (check_and_heal P) ss w1
            else Done w) (\<lambda>w2.
     if cleanup (mgr w2) then Done (True, set_monitoring False w2) else Done (False, w2))"

text \<open>
  The goroutine \<open>monitor\<close> for at most \<open>n\<close> rounds: whether it has ended.  \<open>others k\<close> is what happens while
  it sleeps and \<open>k\<close> rounds are left.
\<close>

fun monitor :: "'p provider \<Rightarrow> (nat \<Rightarrow> 'p world \<Rightarrow> 'p world outcome) \<Rightarrow> nat \<Rightarrow> 'p world \<Rightarrow> (bool \<times> 'p world) outcome" where
  "monitor P others 0 w = Done (False, w)"
| "monitor P others (Suc n) w =
     bindO (monitor_round P w) (\<lambda>(finish, w1).
     if finish then Done (True, w1) else bindO (others n w1) (\<lambda>w2. monitor P others n w2))"

definition notify :: "'p provider \<Rightarrow> sid \<Rightarrow> 'p world \<Rightarrow> 'p world outcome" where
  "notify P s w = (if in_check (svc w s) then Done w else check_and_heal P s w)"

text \<open>The goroutine that \<open>doNotify\<close> of \<open>service.go\<close> starts.\<close>

definition doNotify :: "'p provider \<Rightarrow> sid \<Rightarrow> 'p world \<Rightarrow> 'p world outcome" where
  "doNotify P s w =
     bindO (if has_mgr (svc w s) then notify P s w else Done w) (\<lambda>w1.
     case s_notify (svc w1 s) of
       None \<Rightarrow> Done w1
     | Some cb \<Rightarrow> Done (w1\<lparr>ext := ext w1 @ [CallbackStarted cb]\<rparr>))"

definition shutdown_service :: "'p provider \<Rightarrow> sid \<Rightarrow> 'p world \<Rightarrow> 'p world outcome" where
  "shutdown_service P s w =
     (let w1 = upd s (\<lambda>S. S\<lparr>enabled := False\<rparr>) w
      in bindO (stopRecurse (fuel w1) P s ''Shutting down'' w1) (\<lambda>w2. Done (delManager s w2)))"

definition Shutdown :: "'p provider \<Rightarrow> 'p world \<Rightarrow> 'p world outcome" where
  "Shutdown P w =
     (let (ss, w1) = range_keys (managed w) (set_monitoring False w)
      in bindO (foldO (shutdown_service P) ss w1) (\<lambda>w2.
         Done (m_logf (''*** Govisor shut down: '' @ m_name (mgr w2) @ '' ***'') w2)))"


section \<open>Dependencies in terms of names\<close>

lemma satisfied_graph:
  assumes "graph_ok w" and "u \<in> set (managed w)"
  shows "satisfied w u \<longleftrightarrow> (\<forall>d \<in> set (depends (svc w u)). \<exists>p \<in> set (managed w).
    p \<noteq> u \<and> dep_of w u p = Some d \<and> serving (svc w p))"
proof -
  have dom: "fst ` set (parents (svc w u)) = set (depends (svc w u))"
    using graph_links [OF assms] by (simp add: links_def dom_map_of_conv_image_fst keys_of_def)
  have "satisfied w u \<longleftrightarrow> (\<forall>(d, ps) \<in> set (parents (svc w u)). \<exists>p \<in> set (managed w).
    p \<noteq> u \<and> dep_of w u p = Some d \<and> serving (svc w p))"
    unfolding satisfied_def
  proof (intro ball_cong refl, clarify)
    fix d ps assume "(d, ps) \<in> set (parents (svc w u))"
    note in_links(3) [OF assms this]
    then show "(\<exists>p \<in> set ps. serving (svc w p)) \<longleftrightarrow>
        (\<exists>p \<in> set (managed w). p \<noteq> u \<and> dep_of w u p = Some d \<and> serving (svc w p))"
      by blast
  qed
  also have "\<dots> \<longleftrightarrow> (\<forall>d \<in> fst ` set (parents (svc w u)). \<exists>p \<in> set (managed w).
    p \<noteq> u \<and> dep_of w u p = Some d \<and> serving (svc w p))"
    by (simp add: case_prod_beta)
  finally show ?thesis by (simp only: dom)
qed

text \<open>
  Services come and go while they are idle: the links change, the identity and the status of
  every service stay.
\<close>

lemma regraph:
  assumes "inv w" and "graph_ok w'" and "permutes_keys (ord w')"
    and same: "\<And>u. status_of (svc w' u) = status_of (svc w u)" "\<And>u. identity_of (svc w' u) = identity_of (svc w u)"
    and idle: "\<And>u. (u \<in> set (managed w)) \<noteq> (u \<in> set (managed w')) \<Longrightarrow> \<not> enabled (svc w u)"
  shows "inv w'" "no_newly_stuck w w'"
proof -
  have f: "enabled (svc w' u) = enabled (svc w u)" "running (svc w' u) = running (svc w u)"
    "stopping (svc w' u) = stopping (svc w u)" "failed (svc w' u) = failed (svc w u)"
    "err (svc w' u) = err (svc w u)" "in_check (svc w' u) = in_check (svc w u)"
    "serving (svc w' u) = serving (svc w u)" "limited (svc w' u) = limited (svc w u)"
    "rate_ok (svc w' u) = rate_ok (svc w u)" "depends (svc w' u) = depends (svc w u)" for u
    using same [of u] by (simp_all add: status_of_def serving_def limited_def rate_ok_def identity_of_def)
  have deps: "dep_of w' = dep_of w" "conf_of w' = conf_of w"
    using identity_cong [of w' w, OF same(2)] by simp_all
  have both: "u \<in> set (managed w) \<longleftrightarrow> u \<in> set (managed w')" if "enabled (svc w u)" for u
    using idle [of u] that by blast
  have run: "running (svc w u) \<Longrightarrow> enabled (svc w u)" for u
    using inv_parts(9) [OF assms(1)] by blast
  have man: "enabled (svc w u) \<Longrightarrow> u \<in> set (managed w)" for u
    using inv_parts(1) [OF assms(1)] by (auto simp: base_ok_def)
  have sat: "satisfied w' u = satisfied w u" if "u \<in> set (managed w)" "u \<in> set (managed w')" for u
  proof -
    have "p \<in> set (managed w) \<longleftrightarrow> p \<in> set (managed w')" if "serving (svc w p)" for p
      using that both [of p] by (simp add: serving_def)
    then show ?thesis
      unfolding satisfied_graph [OF inv_parts(2) [OF assms(1)] that(1)] satisfied_graph [OF assms(2) that(2)]
      unfolding f deps by (metis (no_types, lifting))
  qed
  have ex: "\<not> enabled (svc w t)" if "a \<in> set (managed w')" "t \<in> set (incompat (svc w' a))" "enabled (svc w a)" for a t
  proof
    assume t: "enabled (svc w t)"
    have "t \<in> set (incompat (svc w a))"
      using that(2) in_links(2) [OF inv_parts(2) [OF assms(1)] man [OF that(3)], of t] man [OF t]
      unfolding in_links(2) [OF assms(2) that(1)] by (simp add: deps)
    then show False
      using inv_parts(3) [OF assms(1)] that(3) t man [OF that(3)] by (auto simp: exclusive_def)
  qed
  have "base_ok w'"
    using assms(2,3) inv_parts(6) [OF assms(1)] both man run
    by (auto simp: base_ok_def f)
  moreover have "exclusive w'" using ex by (auto simp: exclusive_def f)
  moreover have "service_ok (svc w' u)" for u
    using inv_parts(4) [OF assms(1), of u] by (simp add: service_ok_def f)
  moreover have "satisfied w' u" if "running (svc w' u)" for u
    using that sat [of u] both [of u] run [of u] man [of u] inv_parts(5) [OF assms(1), of u] by (simp add: f)
  ultimately show "inv w'" by (simp add: inv_def)
  show "no_newly_stuck w w'"
    unfolding no_newly_stuck_def
  proof (intro allI impI)
    fix u assume st: "stuck w' u"
    then have e: "enabled (svc w u)" by (simp add: stuck_def can_run_def f)
    have "\<forall>c \<in> set (incompat (svc w u)). \<not> enabled (svc w c)"
      using inv_parts(3) [OF assms(1)] e man [OF e] by (auto simp: exclusive_def)
    then show "stuck w u"
      using st sat [of u] both [OF e] man [OF e] by (auto simp: stuck_def can_run_def f)
  qed
qed

section \<open>Adding and deleting services\<close>

lemma still_list_changed [simp]: "still w (list_changed s w)"
proof -
  have l: "still x (set_listSerial n x)" "still x (set_listStamp x)" for x :: "'p world" and n
    by (rule still_same_svc; simp add: set_listSerial_def set_listStamp_def)+
  show ?thesis
    unfolding list_changed_def Let_def case_prod_beta
    by (rule still_trans [OF still_bumpSerial still_trans [OF l(1) still_trans [OF still_bumpSerial
        still_trans [OF still_fields(5) l(2)]]]])
qed

lemma still_no_newly_stuck: "still w w' \<Longrightarrow> no_newly_stuck w w'"
  by (simp add: no_newly_stuck_def still_stuck)

lemma no_newly_stuck_trans: "no_newly_stuck w w' \<Longrightarrow> no_newly_stuck w' w'' \<Longrightarrow> no_newly_stuck w w''"
  by (auto simp: no_newly_stuck_def)

lemma still_managed: "still w w' \<Longrightarrow> managed w' = managed w"
  by (rule frame_managed [OF still_frame])

lemma name_taken_managed: "s \<in> set (managed w) \<Longrightarrow> name_taken s w"
  by (auto simp: name_taken_def list_ex_iff)

lemma AddService_spec:
  assumes "inv w"
  shows "returns (AddService s w) (\<lambda>(e, w'). inv w' \<and> no_newly_stuck w w' \<and>
    (if name_taken s w then e = Some ErrNameExists \<and> managed w' = managed w
     else e = None \<and> managed w' = s # managed w) \<and>
    (\<forall>u. flags_of (svc w' u) = flags_of (svc w u) \<and> identity_of (svc w' u) = identity_of (svc w u) \<and>
      starts (svc w' u) = starts (svc w u) \<and> rateLimit (svc w' u) = rateLimit (svc w u)))"
proof (cases "name_taken s w")
  case True
  have "still w (m_logf msg w)" for msg by simp
  note l = still_inv [OF this assms] still_no_newly_stuck [OF this]
  show ?thesis using True l by (simp add: AddService_def)
next
  case False
  then have new: "s \<notin> set (managed w)" using name_taken_managed by auto
  have names: "\<forall>t \<in> set (managed w). sname (svc w t) \<noteq> sname (svc w s)"
    using False by (auto simp: name_taken_def list_ex_iff)
  have e: "\<not> enabled (svc w s)" using inv_parts(1) [OF assms] new by (simp add: base_ok_def)
  have "returns (setManager s w) (\<lambda>w1. inv w1 \<and> no_newly_stuck w w1 \<and> managed w1 = s # managed w \<and>
      (\<forall>u. flags_of (svc w1 u) = flags_of (svc w u) \<and> identity_of (svc w1 u) = identity_of (svc w u) \<and>
        starts (svc w1 u) = starts (svc w u) \<and> rateLimit (svc w1 u) = rateLimit (svc w u)))"
  proof (rule returns_mono [OF setManager_ok [OF inv_parts(2) [OF assms] new names]])
    fix w1 :: "'a world"
    assume w1: "graph_ok w1 \<and> managed w1 = s # managed w \<and> ord w1 = ord w \<and>
      m_serial (mgr w1) = m_serial (mgr w) \<and>
      (\<forall>u. status_of (svc w1 u) = status_of (svc w u) \<and> identity_of (svc w1 u) = identity_of (svc w u))"
    have "permutes_keys (ord w1)" using w1 inv_parts(1) [OF assms] by (simp add: base_ok_def)
    then have "inv w1" "no_newly_stuck w w1"
      using regraph [OF assms, of w1] w1 e by auto
    then show "inv w1 \<and> no_newly_stuck w w1 \<and> managed w1 = s # managed w \<and>
        (\<forall>u. flags_of (svc w1 u) = flags_of (svc w u) \<and> identity_of (svc w1 u) = identity_of (svc w u) \<and>
        starts (svc w1 u) = starts (svc w u) \<and> rateLimit (svc w1 u) = rateLimit (svc w u))"
      using w1 by (simp add: status_of_def flags_of_def)
  qed
  moreover have "still w1 (m_logf msg (list_changed s w1))" for w1 :: "'a world" and msg
    by (rule still_trans [OF still_list_changed still_logf(2)])
  note l = this still_inv [OF this] still_no_newly_stuck [OF this] still_managed [OF this]
  ultimately show ?thesis
    using False l(1) unfolding AddService_def if_not_P [OF False] returns_bindO
    by (elim returns_mono)
      (auto simp: Let_def l still_def frame_def intro: no_newly_stuck_trans [OF _ l(3)])
qed

lemma DeleteService_spec:
  assumes "inv w"
  shows "inv (snd (DeleteService s w))" "no_newly_stuck w (snd (DeleteService s w))"
    "fst (DeleteService s w) = (if enabled (svc w s) then Some ErrIsEnabled else None)"
    "managed (snd (DeleteService s w)) = (if enabled (svc w s) then managed w else delete_key s (managed w))"
    "flags_of (svc (snd (DeleteService s w)) u) = flags_of (svc w u)"
proof -
  have G: "has_mgr (svc w u) \<longleftrightarrow> u \<in> set (managed w)" for u
    using inv_parts(2) [OF assms] by (simp add: graph_ok_def)
  have "inv (snd (DeleteService s w)) \<and> no_newly_stuck w (snd (DeleteService s w)) \<and>
    managed (snd (DeleteService s w)) = delete_key s (managed w) \<and>
    flags_of (svc (snd (DeleteService s w)) u) = flags_of (svc w u)" if e: "\<not> enabled (svc w s)"
  proof -
    define w1 :: "'a world" where "w1 = delManager s w"
    have "permutes_keys (ord w1)" using inv_parts(1) [OF assms] by (simp add: w1_def delManager_frame base_ok_def)
    moreover have m: "managed w1 = delete_key s (managed w)"
      using G [of s] by (simp add: w1_def delManager_frame)
    ultimately have r: "inv w1" "no_newly_stuck w w1"
      using regraph [OF assms, of w1] delManager_graph [OF inv_parts(2) [OF assms], of s] e
      by (auto simp: w1_def delManager_frame)
    have "still w1 (list_changed s (m_logf msg w1))" for msg
      by (rule still_trans [OF still_logf(2) still_list_changed])
    then obtain z where z: "snd (DeleteService s w) = z" "still w1 z"
      using e by (simp add: DeleteService_def Let_def w1_def)
    have "flags_of (svc z u) = flags_of (svc w u)"
      using z(2) delManager_frame(4) [of s w u] by (simp add: still_def w1_def status_of_def flags_of_def)
    then show ?thesis
      using still_inv [OF z(2) r(1)] no_newly_stuck_trans [OF r(2) still_no_newly_stuck [OF z(2)]]
        still_managed [OF z(2)] m z(1) by simp
  qed
  moreover have "no_newly_stuck w w" by (simp add: no_newly_stuck_def)
  moreover have "snd (DeleteService s w) = w" if "enabled (svc w s)"
    using that by (simp add: DeleteService_def)
  moreover show "fst (DeleteService s w) = (if enabled (svc w s) then Some ErrIsEnabled else None)"
    by (simp add: DeleteService_def Let_def)
  ultimately show "inv (snd (DeleteService s w))" "no_newly_stuck w (snd (DeleteService s w))"
    "managed (snd (DeleteService s w)) = (if enabled (svc w s) then managed w else delete_key s (managed w))"
    "flags_of (svc (snd (DeleteService s w)) u) = flags_of (svc w u)"
    using assms by (cases "enabled (svc w s)"; simp)+
qed


section \<open>Monitoring, notification and shutdown keep the invariant\<close>

lemma check_and_heal_spec:
  assumes "inv w" and "s \<in> set (managed w)"
  shows "returns (check_and_heal P s w) (keeps w)"
proof (cases "enabled (svc w s)")
  case False
  then show ?thesis using assms(1) by (simp add: check_and_heal_def)
next
  case True
  have heal: "returns (selfHeal P s w1) (keeps w)" if k: "keeps w w1" for w1
    by (rule returns_mono [OF selfHeal_spec]) (use keeps_inv [OF k] assms(2) k in \<open>auto intro: keeps_trans\<close>)
  have "returns (checkService P s w) (\<lambda>(e, w1). returns (if e \<noteq> None then selfHeal P s w1 else Done w1) (keeps w))"
  proof (rule returns_mono [OF checkService_spec [OF assms]], elim case_prodE conjE, hypsubst, unfold prod.case)
    fix e w1
    assume "keeps w w1"
    then show "returns (if e \<noteq> None then selfHeal P s w1 else Done w1) (keeps w)"
      using heal [of w1] by simp
  qed
  then show ?thesis
    using True unfolding check_and_heal_def
    by (simp only: if_True returns_bindO) (rule returns_mono, assumption, simp only: split_paired_all prod.case)
qed

text \<open>
  A service that may restart and could run is not left alone: it was started, or its start was
  tried, unless it was left alone before.
\<close>

definition tended :: "'p world \<Rightarrow> 'p world \<Rightarrow> sid \<Rightarrow> bool" where
  "tended w w' u \<longleftrightarrow> (waiting w' u \<longrightarrow>
     starts (svc w u) < starts (svc w' u) \<or> stuck w u \<or> \<not> restart (svc w u))"

lemma check_and_heal_tends:
  assumes "inv w" and "s \<in> set (managed w)"
  shows "returns (check_and_heal P s w) (\<lambda>w'. keeps w w' \<and> tended w w' s \<and>
    (\<forall>u. starts (svc w u) \<le> starts (svc w' u) \<and>
      (u \<noteq> s \<and> waiting w' u \<longrightarrow> waiting w u \<or> starts (svc w u) < starts (svc w' u))))"
    (is "returns _ ?good")
proof (cases "enabled (svc w s)")
  case False
  then show ?thesis
    using assms(1) by (simp add: check_and_heal_def tended_def waiting_def can_run_def)
next
  case True
  have heal: "returns (if e \<noteq> None then selfHeal P s w1 else Done w1) ?good"
    if w1: "keeps w w1" "calm s w w1" "starts (svc w1 s) = starts (svc w s)"
      "e = None \<longleftrightarrow> running (svc w1 s)" for e w1
  proof (cases "e = None")
    case True
    then have "\<not> waiting w1 s" using w1(4) by (simp add: waiting_def)
    moreover have "starts (svc w1 u) = starts (svc w u)" for u
      using w1(2,3) by (cases "u = s") (simp_all add: calm_def)
    ultimately have "?good w1" using w1(1,2) by (simp add: tended_def calm_def)
    then show ?thesis using True by simp
  next
    case False
    have i: "inv w1" "s \<in> set (managed w1)" "restart (svc w1 s) = restart (svc w s)"
      using keeps_inv [OF w1(1)] assms(2) w1(1) by (simp_all add: keeps_def frame_def)
    have good: "?good w'" if "keeps w1 w'" and tries: "\<forall>u. starts (svc w1 u) \<le> starts (svc w' u) \<and>
      (waiting w' u \<longrightarrow> waiting w1 u \<and> (u = s \<longrightarrow> \<not> (failed (svc w1 s) \<and> restart (svc w1 s))) \<or>
        starts (svc w1 u) < starts (svc w' u)) \<and>
      (running (svc w' u) \<and> \<not> running (svc w1 u) \<longrightarrow> starts (svc w1 u) < starts (svc w' u))" for w'
    proof -
      have eq: "starts (svc w1 u) = starts (svc w u)" for u using w1(2,3) by (cases "u = s") (simp_all add: calm_def)
      have "stuck w1 s \<longrightarrow> stuck w s" using w1(1) by (simp add: keeps_def no_newly_stuck_def)
      then have "tended w w' s" using tries i(3) by (auto simp: tended_def eq stuck_waiting)
      moreover have "u \<noteq> s \<longrightarrow> waiting w1 u \<longrightarrow> waiting w u" for u using w1(2) by (simp add: calm_def)
      ultimately show ?thesis using keeps_trans [OF w1(1) that(1)] tries by (auto simp: eq)
    qed
    have "returns (selfHeal P s w1) ?good"
      by (rule returns_mono [OF returns_conj [OF selfHeal_spec [OF i(1,2)] selfHeal_tries [OF i(1,2)]]])
        (elim conjE, rule good)
    then show ?thesis using False by simp
  qed
  have "returns (checkService P s w) (\<lambda>(e, w1). returns (if e \<noteq> None then selfHeal P s w1 else Done w1) ?good)"
  proof (rule returns_mono [OF checkService_spec [OF assms]], elim case_prodE conjE, hypsubst, unfold prod.case)
    fix e w1
    assume "keeps w w1" "(e = None) = running (svc w1 s)" "calm s w w1" "starts (svc w1 s) = starts (svc w s)"
    then show "returns (if e \<noteq> None then selfHeal P s w1 else Done w1) ?good"
      by (intro heal)
  qed
  then show ?thesis
    using True unfolding check_and_heal_def
    by (simp only: if_True returns_bindO) (rule returns_mono, assumption, simp only: split_paired_all prod.case)
qed

lemma still_set_monitoring [simp]: "still w (set_monitoring b w)"
  by (rule still_same_svc) (simp_all add: set_monitoring_def)

lemma loop_keeps:
  assumes "keeps w v" and "set ss \<subseteq> set (managed w)"
    and "\<And>s x. inv x \<Longrightarrow> s \<in> set (managed x) \<Longrightarrow> returns (f s x) (keeps x)"
  shows "returns (foldO f ss v) (keeps w)"
proof (rule returns_foldO_inv [where I = "keeps w", OF assms(1)])
  fix s x
  assume s: "s \<in> set ss" and x: "keeps w x"
  have "returns (f s x) (keeps x)"
    by (rule assms(3)) (use assms(2) s keeps_inv [OF x] in auto)
  then show "returns (f s x) (keeps w)"
    by (rule returns_mono) (rule keeps_trans [OF x])
qed

text \<open>
  The turn of a service that runs: what its provider reports decides.  After a fault it does not
  run unless it was started anew, and without \<open>restart\<close> it stays failed with the error reported.
\<close>

lemma check_and_heal_fault:
  assumes "inv w" and "s \<in> set (managed w)" and run: "running (svc w s)"
  shows "returns (check_and_heal P s w) (\<lambda>w'. keeps w w' \<and>
    (case fst (pCheck P (prov (svc w s))) of
       None \<Rightarrow> running (svc w' s) \<and> starts (svc w' s) = starts (svc w s)
     | Some er \<Rightarrow> (running (svc w' s) \<longrightarrow> starts (svc w s) < starts (svc w' s)) \<and>
         (\<not> restart (svc w s) \<longrightarrow> failed (svc w' s) \<and> \<not> running (svc w' s) \<and> err (svc w' s) = Some er)))"
proof -
  have s: "enabled (svc w s)" "\<not> failed (svc w s)" using inv_parts(9) [OF assms(1) run] by simp_all
  obtain e w1 where c: "checkService P s w = Done (e, w1)"
    and w1: "keeps w w1" "(e = None) = running (svc w1 s)" "e \<noteq> None \<Longrightarrow> failed (svc w1 s)"
      "starts (svc w1 s) = starts (svc w s)"
    using checkService_spec [OF assms(1,2), of P] run by (auto simp: returns_iff)
  note ans = checkService_answer [OF c run s(2)]
  have i: "inv w1" "s \<in> set (managed w1)" "restart (svc w1 s) = restart (svc w s)"
    using keeps_inv [OF w1(1)] assms(2) w1(1) by (simp_all add: keeps_def frame_def)
  have go: "check_and_heal P s w = (if e \<noteq> None then selfHeal P s w1 else Done w1)"
    using s(1) by (simp add: check_and_heal_def c)
  show ?thesis
  proof (cases e)
    case None
    then show ?thesis using go ans(1) [symmetric] w1 by simp
  next
    case (Some er)
    have "\<not> running (svc w1 s)" "failed (svc w1 s)" "err (svc w1 s) = Some er"
      using w1(2,3) ans(2) Some by simp_all
    then have "returns (selfHeal P s w1) (\<lambda>w'. keeps w w' \<and>
        (running (svc w' s) \<longrightarrow> starts (svc w s) < starts (svc w' s)) \<and>
        (\<not> restart (svc w s) \<longrightarrow> failed (svc w' s) \<and> \<not> running (svc w' s) \<and> err (svc w' s) = Some er))"
      using w1(4) i(3) keeps_trans [OF w1(1)]
      by (intro returns_mono [OF returns_conj [OF selfHeal_spec [OF i(1,2)] selfHeal_tries [OF i(1,2)]]]) auto
    then show ?thesis using go ans(1) [symmetric] Some by simp
  qed
qed

text \<open>One round over services \<open>ss\<close> tends to each of them.\<close>

lemma round_tends:
  assumes "inv w" and "set ss \<subseteq> set (managed w)"
  shows "returns (foldO (check_and_heal P) ss w) (\<lambda>w'. keeps w w' \<and> (\<forall>u \<in> set ss. tended w w' u))"
proof -
  define I where "I ys x \<longleftrightarrow> keeps w x \<and> (\<forall>u. starts (svc w u) \<le> starts (svc x u) \<and>
      (u \<in> set ss \<longrightarrow> u \<in> set ys \<or> tended w x u))" for ys x
  have "returns (foldO (check_and_heal P) ss w) (I [])"
  proof (rule returns_foldO)
    show "I ss w" using assms(1) by (simp add: I_def)
    fix s ys x
    assume s: "s \<in> set ss" and I: "I (s # ys) x"
    have x: "inv x" "s \<in> set (managed x)" "keeps w x"
      using I keeps_inv [of w x] s assms(2) by (auto simp: I_def)
    have "I ys y" if y: "keeps x y" "tended x y s" "\<And>u. starts (svc x u) \<le> starts (svc y u)"
      "\<And>u. u \<noteq> s \<Longrightarrow> waiting y u \<Longrightarrow> waiting x u \<or> starts (svc x u) < starts (svc y u)" for y
    proof -
      have le: "starts (svc w u) \<le> starts (svc x u)" for u using I by (simp add: I_def)
      have kept: "restart (svc x u) = restart (svc w u)" "stuck x u \<Longrightarrow> stuck w u" for u
        using x(3) by (simp_all add: keeps_def frame_def no_newly_stuck_def)
      have "u \<in> set ys \<or> tended w y u" if "u \<in> set ss" for u
      proof (cases "u = s")
        case True
        then show ?thesis using y(2) le [of s] kept by (auto simp: tended_def)
      next
        case False
        then show ?thesis
          using I that y(3) [of u] y(4) [of u] le [of u] by (auto simp: I_def tended_def)
      qed
      then show ?thesis
        using keeps_trans [OF x(3) y(1)] order_trans [OF le y(3)] by (simp add: I_def)
    qed
    then show "returns (check_and_heal P s x) (I ys)"
      by (intro returns_mono [OF check_and_heal_tends [OF x(1,2)]]) simp
  qed
  then show ?thesis by (rule returns_mono) (simp add: I_def)
qed

lemma monitor_round_tends:
  assumes "inv w" and "monitoring (mgr w)"
  shows "returns (monitor_round P w) (\<lambda>(_, w'). \<forall>u \<in> set (managed w). tended w w' u)"
proof -
  let ?x = "snd (range_keys (managed w) w)"
  have st: "still w ?x" by simp
  have ss: "set (fst (range_keys (managed w) w)) = set (managed w)"
    using inv_parts(1) [OF assms(1)] by (simp add: base_ok_def)
  have eq: "tended ?x w' u = tended w w' u" for w' u
    using still_frame [OF st] by (simp add: tended_def still_flags [OF st] still_stuck [OF st] frame_def)
  have "returns (foldO (check_and_heal P) (fst (range_keys (managed w) w)) ?x)
      (\<lambda>w'. \<forall>u \<in> set (managed w). tended w w' u)"
    using round_tends [of ?x "fst (range_keys (managed w) w)" P] still_inv [OF st assms(1)] ss
      frame_managed [OF still_frame [OF st]]
    by (auto simp: eq elim: returns_mono)
  moreover have "tended w (set_monitoring b w') u = tended w w' u" for b w' u
    by (simp add: tended_def still_waiting [OF still_set_monitoring] still_flags [OF still_set_monitoring])
  ultimately show ?thesis
    using assms(2) by (simp add: monitor_round_def case_prod_beta)
qed

lemma monitor_round_spec:
  assumes "inv w"
  shows "returns (monitor_round P w) (\<lambda>(finish, w'). keeps w w' \<and> (finish \<longleftrightarrow> cleanup (mgr w')))"
proof -
  have loop: "returns (if monitoring (mgr w)
      then let (ss, w1) = range_keys (managed w) w in foldO (check_and_heal P) ss w1 else Done w) (keeps w)"
  proof -
    have "set (fst (range_keys (managed w) w)) \<subseteq> set (managed w)"
      using inv_parts(1) [OF assms] by (simp add: base_ok_def)
    moreover have "keeps w (snd (range_keys (managed w) w))"
      by (rule still_keeps [OF assms]) simp
    ultimately have "returns (foldO (check_and_heal P) (fst (range_keys (managed w) w))
        (snd (range_keys (managed w) w))) (keeps w)"
      by (intro loop_keeps check_and_heal_spec)
    then show ?thesis using assms by (simp add: case_prod_beta)
  qed
  have "keeps w x \<Longrightarrow> keeps w (set_monitoring b x)" for x b
    by (rule keeps_trans [OF _ still_keeps [OF _ still_set_monitoring]]) (auto dest: keeps_inv)
  then show ?thesis
    unfolding monitor_round_def returns_bindO
    by (intro returns_mono [OF loop]) (simp add: set_monitoring_def)
qed

lemma notify_spec: "inv w \<Longrightarrow> s \<in> set (managed w) \<Longrightarrow> returns (notify P s w) (keeps w)"
  by (simp add: notify_def check_and_heal_spec)

lemma doNotify_spec:
  assumes "inv w"
  shows "returns (doNotify P s w) (keeps w)"
proof -
  have "has_mgr (svc w s) \<longleftrightarrow> s \<in> set (managed w)"
    using inv_parts(2) [OF assms] by (simp add: graph_ok_def)
  then have "returns (if has_mgr (svc w s) then notify P s w else Done w) (keeps w)"
    using assms by (simp add: notify_spec)
  moreover have "keeps w (x\<lparr>ext := ext x @ [CallbackStarted cb]\<rparr>)" if "keeps w x" for x cb
    by (rule keeps_trans [OF that still_keeps]) (use keeps_inv [OF that] in \<open>auto intro: still_same_svc\<close>)
  ultimately show ?thesis
    unfolding doNotify_def returns_bindO
    by (elim returns_mono) (simp split: option.split)
qed

text \<open>\<open>Shutdown\<close> stops and removes everything.\<close>

lemma shutdown_service_spec:
  assumes "inv w" and "s \<in> set (managed w)"
  shows "returns (shutdown_service P s w) (\<lambda>w'. inv w' \<and> managed w' = delete_key s (managed w) \<and>
    no_newly_stuck w w')"
proof -
  define v where "v = upd s (\<lambda>S. S\<lparr>enabled := False\<rparr>) w"
  have wd: "withdrawn s w v"
    by (rule only_withdrawn) (use inv_parts(8) [OF assms(1), of s] in \<open>simp_all add: v_def serving_def\<close>)
  have v_s: "\<not> enabled (svc v s)" "\<not> stopping (svc v s)" "in_check (svc v s) = in_check (svc w s)"
    "failed (svc v s) = failed (svc w s)" "err (svc v s) = err (svc w s)"
    using wd by (simp_all add: v_def withdrawn_def)
  have "returns (stopRecurse (fuel v) P s d v) (\<lambda>w2. inv (delManager s w2) \<and>
      managed (delManager s w2) = delete_key s (managed w) \<and> no_newly_stuck w (delManager s w2))" for d
  proof (rule returns_mono [OF stop_then [OF assms wd, of "\<lambda>w'. w'"]])
    fix w'
    assume "halted {s} v w'" "\<not> running (svc w' s)"
    then show "only s w' w' \<and> service_ok (svc w' s) \<and> \<not> running (svc w' s) \<and>
        (enabled (svc w' s) \<longrightarrow> enabled (svc w s))"
      using v_s inv_parts(4) [OF assms(1), of s]
      by (simp add: service_ok_def halted_flags still_only)
  next
    fix w' :: "'a world"
    assume w': "inv w' \<and> frame w w' \<and> (\<forall>u. u \<noteq> s \<longrightarrow> stuck w' u \<longrightarrow> stuck w u) \<and>
      halted {s} v w' \<and> \<not> running (svc w' s)"
    have e: "\<not> enabled (svc w' s)" using w' v_s halted_flags(2) [of "{s}" v w' s] by simp
    then have ns: "no_newly_stuck w w'"
      using w' by (metis no_newly_stuck_def stuck_def can_run_def)
    have "has_mgr (svc w' s)"
      using w' inv_parts(2) [OF assms(1)] assms(2) by (simp add: frame_def graph_ok_def)
    then have m: "managed (delManager s w') = delete_key s (managed w)"
      using w' frame_managed [of w w'] by (simp add: delManager_frame)
    have "inv (delManager s w')" "no_newly_stuck w' (delManager s w')"
      using regraph [of w' "delManager s w'"] w' e m frame_managed [of w w']
        delManager_graph [OF inv_parts(2), of w' s] inv_parts(1) [of w']
      by (auto simp: delManager_frame base_ok_def)
    then show "inv (delManager s w') \<and> managed (delManager s w') = delete_key s (managed w) \<and>
        no_newly_stuck w (delManager s w')"
      using m no_newly_stuck_trans [OF ns] by simp
  qed
  then show ?thesis by (simp add: shutdown_service_def Let_def flip: v_def)
qed

lemma Shutdown_spec:
  assumes "inv w"
  shows "returns (Shutdown P w) (\<lambda>w'. inv w' \<and> managed w' = [] \<and>
    (\<forall>u. \<not> running (svc w' u) \<and> \<not> enabled (svc w' u)))"
proof -
  define w0 where "w0 = set_monitoring False w"
  define w1 where "w1 = snd (range_keys (managed w) w0)"
  define ss where "ss = fst (range_keys (managed w) w0)"
  have st: "still w w1"
    unfolding w1_def w0_def by (rule still_trans [OF still_set_monitoring still_range_keys])
  have perm: "permutes_keys (ord w0)" "distinct (managed w)"
    using inv_parts(1,2) [OF assms] by (simp_all add: w0_def set_monitoring_def base_ok_def graph_ok_def)
  let ?I = "\<lambda>ys x. inv x \<and> set (managed x) = set ys \<and> distinct ys"
  have "returns (foldO (shutdown_service P) ss w1) (?I [])"
  proof (rule returns_foldO)
    show "?I ss w1"
      using still_inv [OF st assms] still_managed [OF st] perm by (simp add: ss_def)
    fix s ys and x :: "'a world"
    assume "?I (s # ys) x"
    then show "returns (shutdown_service P s x) (?I ys)"
      by (intro returns_mono [OF shutdown_service_spec]) auto
  qed
  then have "returns (foldO (shutdown_service P) ss w1) (\<lambda>x. inv x \<and> managed x = [])"
    by simp
  moreover have "inv (m_logf msg x) \<and> managed (m_logf msg x) = [] \<and>
      (\<forall>u. \<not> running (svc (m_logf msg x) u) \<and> \<not> enabled (svc (m_logf msg x) u))"
    if x: "inv x \<and> managed x = []" for x msg
  proof -
    have "inv (m_logf msg x)" by (rule still_inv [OF still_logf(2)]) (use x in simp)
    moreover have "managed (m_logf msg x) = []" using x by simp
    ultimately show ?thesis using inv_parts(1) [of "m_logf msg x"] by (simp add: base_ok_def)
  qed
  ultimately show ?thesis
    unfolding Shutdown_def case_prod_beta Let_def returns_bindO
    by (auto simp: ss_def w1_def w0_def elim!: returns_mono)
qed

lemma SetLogger_still: "still w (SetLogger l w)"
  by (rule still_same_svc) (simp_all add: SetLogger_def Let_def split: option.split)

lemma monitoring_still: "still w (StartMonitoring w)" "still w (StopMonitoring w)"
  by (auto simp: StartMonitoring_def StopMonitoring_def Let_def
      intro: still_trans [OF still_logf(2) still_set_monitoring] still_trans [OF still_set_monitoring still_logf(2)])

lemma new_world_inv:
  assumes "permutes_keys r" and "\<And>u. \<not> has_mgr (V u) \<and> \<not> enabled (V u) \<and> \<not> running (V u) \<and>
    service_ok (V u) \<and> rate_ok (V u)"
  shows "inv (new_world name V c r)"
  using assms
  by (simp add: inv_def base_ok_def graph_ok_def exclusive_def new_world_def NewManager_def Let_def
      case_prod_beta NewLog_def)

end
