(* ===== verification/System.thy ===== *)
theory System
  imports ManagerApi
begin

text \<open>
  The service manager as a transition system: its state is the world, its transitions are the
  calls of the exported methods of \<open>Manager\<close> and \<open>Service\<close>, the rounds of the monitor and the
  notifications of providers, in any order and on any service.  Between them a provider may act
  by itself, as the goroutines of a process do: its state becomes another and it prints lines.
\<close>

datatype 'p operation =
    OpNew sid 'p | OpAdd sid | OpDelete sid | OpEnable sid | OpDisable sid | OpRestart sid
  | OpClear sid | OpCheck sid | OpSet sid property_name propval | OpMonitor | OpNotify sid
  | OpActs sid 'p "(out_logger \<times> string) list"
  | OpStartMonitoring | OpStopMonitoring | OpSetLogger nat | OpServices | OpShutdown

fun exec :: "'p provider \<Rightarrow> 'p operation \<Rightarrow> 'p world \<Rightarrow> 'p world outcome" where
  "exec P (OpNew s p) w = Done (NewService P p s w)"
| "exec P (OpAdd s) w = bindO (AddService s w) (\<lambda>(_, w'). Done w')"
| "exec P (OpDelete s) w = Done (snd (DeleteService s w))"
| "exec P (OpEnable s) w = bindO (Enable P s w) (\<lambda>(_, w'). Done w')"
| "exec P (OpDisable s) w = bindO (Disable P s w) (\<lambda>(_, w'). Done w')"
| "exec P (OpRestart s) w = bindO (Restart P s w) (\<lambda>(_, w'). Done w')"
| "exec P (OpClear s) w = Clear P s w"
| "exec P (OpCheck s) w = bindO (Check P s w) (\<lambda>(_, w'). Done w')"
| "exec P (OpSet s n v) w = bindO (SetProperty P s n v w) (\<lambda>(_, w'). Done w')"
| "exec P OpMonitor w = bindO (monitor_round P w) (\<lambda>(_, w'). Done w')"
| "exec P (OpNotify s) w = doNotify P s w"
| "exec P (OpActs s p out) w = Done (provider_prints out (upd s (\<lambda>S. S\<lparr>prov := p\<rparr>) w))"
| "exec P OpStartMonitoring w = Done (StartMonitoring w)"
| "exec P OpStopMonitoring w = Done (StopMonitoring w)"
| "exec P (OpSetLogger l) w = Done (SetLogger l w)"
| "exec P OpServices w = Done (snd (Services w))"
| "exec P OpShutdown w = Shutdown P w"

text \<open>
  A new service is a new pointer, and the rate limit is not set to a negative number (which
  makes the next start panic).
\<close>

fun allowed :: "'p operation \<Rightarrow> 'p world \<Rightarrow> bool" where
  "allowed (OpNew s p) w = (s \<notin> set (managed w))"
| "allowed (OpSet s n v) w = valid_limit n v"
| "allowed _ w = True"

text \<open>Setting the rate limit or its period restarts the counting of starts and starts nothing.\<close>

fun changes_limit :: "'p operation \<Rightarrow> bool" where
  "changes_limit (OpSet s n v) = limit_property n"
| "changes_limit _ = False"

inductive reachable :: "'p provider \<Rightarrow> ('p operation \<Rightarrow> bool) \<Rightarrow> 'p world \<Rightarrow> 'p world \<Rightarrow> bool"
  for P A w0 where
  reachable_start: "reachable P A w0 w0"
| reachable_step: "reachable P A w0 w \<Longrightarrow> A a \<Longrightarrow> allowed a w \<Longrightarrow> exec P a w = Done w' \<Longrightarrow>
    reachable P A w0 w'"

inductive_cases reachable_stepE: "reachable P A w0 w"

section \<open>Every operation returns and keeps the invariant\<close>

lemma returns_snd: "returns m (\<lambda>(_, w'). Q w') \<Longrightarrow> returns (bindO m (\<lambda>(_, w'). Done w')) Q"
  by (simp, erule returns_mono) auto

lemma keeps_pair:
  assumes "returns m (\<lambda>(e, w'). keeps w w' \<and> R e w')"
  shows "returns (bindO m (\<lambda>(_, w'). Done w')) (keeps w)"
  by (rule returns_snd, rule returns_mono [OF assms]) auto

lemma keeps_two: "keeps w w' \<Longrightarrow> inv w' \<and> no_newly_stuck w w'"
  by (simp add: keeps_def)

lemma exec_service:
  assumes "inv w" and "s \<in> set (managed w)"
  shows "returns (exec P (OpEnable s) w) (keeps w)" "returns (exec P (OpDisable s) w) (keeps w)"
    "returns (exec P (OpRestart s) w) (keeps w)" "returns (exec P (OpClear s) w) (keeps w)"
    "returns (exec P (OpCheck s) w) (keeps w)"
proof -
  show "returns (exec P (OpEnable s) w) (keeps w)"
    unfolding exec.simps by (rule keeps_pair [OF Enable_spec [OF assms]])
  show "returns (exec P (OpDisable s) w) (keeps w)"
    unfolding exec.simps by (rule returns_snd, rule returns_mono [OF Disable_spec [OF assms]]) auto
  show "returns (exec P (OpRestart s) w) (keeps w)"
    unfolding exec.simps by (rule returns_snd, rule returns_mono [OF Restart_spec [OF assms]]) auto
  show "returns (exec P (OpClear s) w) (keeps w)"
    unfolding exec.simps by (rule returns_mono [OF Clear_spec [OF assms]]) simp
  show "returns (exec P (OpCheck s) w) (keeps w)"
    unfolding exec.simps by (rule keeps_pair [OF Check_spec [OF assms]])
qed

lemma exec_unmanaged:
  assumes "inv w" and "s \<notin> set (managed w)"
  shows "returns (exec P (OpEnable s) w) (keeps w)" "returns (exec P (OpDisable s) w) (keeps w)"
    "returns (exec P (OpRestart s) w) (keeps w)" "returns (exec P (OpClear s) w) (keeps w)"
    "returns (exec P (OpCheck s) w) (keeps w)"
proof -
  have "\<not> has_mgr (svc w s)" using inv_parts(2) [OF assms(1)] assms(2) by (simp add: graph_ok_def)
  then show "returns (exec P (OpEnable s) w) (keeps w)" "returns (exec P (OpDisable s) w) (keeps w)"
    "returns (exec P (OpRestart s) w) (keeps w)" "returns (exec P (OpClear s) w) (keeps w)"
    "returns (exec P (OpCheck s) w) (keeps w)"
    using assms(1) by (simp_all add: unmanaged_ops)
qed

lemma exec_service_any:
  assumes "inv w"
  shows "returns (exec P (OpEnable s) w) (keeps w)" "returns (exec P (OpDisable s) w) (keeps w)"
    "returns (exec P (OpRestart s) w) (keeps w)" "returns (exec P (OpClear s) w) (keeps w)"
    "returns (exec P (OpCheck s) w) (keeps w)"
  using exec_service [OF assms, of s P] exec_unmanaged [OF assms, of s P] by blast+

lemma exec_spec:
  assumes "inv w" and "allowed a w"
  shows "returns (exec P a w) (\<lambda>w'. inv w' \<and> (\<not> changes_limit a \<longrightarrow> no_newly_stuck w w'))"
proof -
  have k: "returns (exec P a w) (keeps w) \<Longrightarrow> ?thesis"
    by (erule returns_mono) (simp add: keeps_def)
  have st: "still w w' \<Longrightarrow> exec P a w = Done w' \<Longrightarrow> ?thesis" for w'
    using still_keeps [OF assms(1)] by (simp add: keeps_def)
  show ?thesis
  proof (cases a)
    case (OpNew s p)
    then show ?thesis using NewService_inv [OF assms(1)] assms(2) by simp
  next
    case (OpAdd s)
    show ?thesis
      unfolding OpAdd exec.simps
      by (rule returns_snd, rule returns_mono [OF AddService_spec [OF assms(1)]]) auto
  next
    case (OpDelete s)
    then show ?thesis using DeleteService_spec(1,2) [OF assms(1)] by simp
  next
    case (OpSet s n v)
    then have "valid_limit n v" using assms(2) by simp
    show ?thesis
      unfolding OpSet exec.simps
      by (rule returns_snd, rule returns_mono [OF SetProperty_spec [OF assms(1) \<open>valid_limit n v\<close>]]) auto
  next
    case OpMonitor
    show ?thesis
      by (rule k) (simp only: OpMonitor exec.simps keeps_pair [OF monitor_round_spec [OF assms(1)]])
  next
    case (OpNotify s)
    show ?thesis by (rule k) (simp only: OpNotify exec.simps doNotify_spec [OF assms(1)])
  next
    case OpShutdown
    have "no_newly_stuck w w'" if "managed w' = []" for w'
      using that by (simp add: no_newly_stuck_def stuck_def)
    then show ?thesis
      using OpShutdown by (auto intro: returns_mono [OF Shutdown_spec [OF assms(1)]])
  next
    case OpServices
    then show ?thesis by (intro st [of "snd (Services w)"]) (simp_all add: Services_def case_prod_beta Let_def)
  next
    case (OpActs s p out)
    then show ?thesis by (intro st [OF still_trans [OF still_fields(1) still_prints]]) simp
  next
    case OpStartMonitoring
    then show ?thesis by (intro st [OF monitoring_still(1)]) simp
  next
    case OpStopMonitoring
    then show ?thesis by (intro st [OF monitoring_still(2)]) simp
  next
    case (OpSetLogger l)
    then show ?thesis by (intro st [OF SetLogger_still]) simp
  next
    case (OpEnable s)
    show ?thesis by (rule k) (unfold OpEnable, rule exec_service_any [OF assms(1)])
  next
    case (OpDisable s)
    show ?thesis by (rule k) (unfold OpDisable, rule exec_service_any [OF assms(1)])
  next
    case (OpRestart s)
    show ?thesis by (rule k) (unfold OpRestart, rule exec_service_any [OF assms(1)])
  next
    case (OpClear s)
    show ?thesis by (rule k) (unfold OpClear, rule exec_service_any [OF assms(1)])
  next
    case (OpCheck s)
    show ?thesis by (rule k) (unfold OpCheck, rule exec_service_any [OF assms(1)])
  qed
qed

lemma reachable_inv:
  assumes "reachable P A w0 w" and "inv w0"
  shows "inv w"
  using assms
proof (induction rule: reachable.induct)
  case (reachable_step w a w')
  then show ?case using exec_spec [of w a P] by simp
qed

lemma nothing_stuck_first: "\<not> stuck (new_world name V c r) u"
  by (simp add: stuck_def new_world_def NewManager_def Let_def case_prod_beta)

lemma reachable_nothing_stuck:
  assumes "reachable P A w0 w" and "inv w0" and "\<And>a. A a \<Longrightarrow> \<not> changes_limit a" and "\<And>u. \<not> stuck w0 u"
  shows "\<not> stuck w u"
  using assms
proof (induction arbitrary: u rule: reachable.induct)
  case (reachable_step w a w')
  have "inv w" using reachable_inv reachable_step by metis
  then have "no_newly_stuck w w'"
    using exec_spec [of w a P] reachable_step.hyps reachable_step.prems(2) by simp
  then show ?case using reachable_step.IH reachable_step.prems by (simp add: no_newly_stuck_def)
qed simp

text \<open>\<open>DeleteService\<close> removes a service unless it is enabled, and changes no flag of any.\<close>

lemma delete_service:
  assumes "inv w"
  shows "\<exists>e w'. DeleteService s w = (e, w') \<and> inv w' \<and> no_newly_stuck w w' \<and>
    (if enabled (svc w s) then e = Some ErrIsEnabled \<and> w' = w
     else e = None \<and> set (managed w') = set (managed w) - {s}) \<and>
    (\<forall>u. flags_of (svc w' u) = flags_of (svc w u))"
proof -
  note d = DeleteService_spec [OF assms, of s]
  have "snd (DeleteService s w) = w" if "enabled (svc w s)"
    using that by (simp add: DeleteService_def)
  with d show ?thesis by (cases "DeleteService s w") auto
qed

end
