(* ===== verification/Sample.thy ===== *)
theory Sample
  imports System
begin

text \<open>
  A manager with three services, \<open>db\<close>, \<open>web\<close> which depends on it and \<open>web2\<close> which depends on it
  and conflicts with \<open>web\<close>; the world in which \<open>db\<close> and \<open>web\<close> are enabled is reachable from a
  new manager.  The theorems of the root theory are applied to it.
\<close>

type_synonym sample = "string \<times> string list \<times> string list"

definition sample_provider :: "sample provider" where
  "sample_provider =
     \<lparr>pName = fst, pDescription = (\<lambda>_. ''sample''), pProvides = (\<lambda>_. []),
      pDepends = (\<lambda>p. fst (snd p)), pConflicts = (\<lambda>p. snd (snd p)),
      pStart = (\<lambda>p. (None, p, [])), pStop = (\<lambda>p. (p, [])), pCheck = (\<lambda>p. (None, p, [])),
      pSetProperty = (\<lambda>_ _ p. (Some ErrBadPropName, p)), pProperty = (\<lambda>_ _. Inl ErrBadPropName)\<rparr>"

definition db :: sample where "db = (''db'', [], [])"

definition web :: sample where "web = (''web'', [''db''], [])"

definition web2 :: sample where "web2 = (''web2'', [''db''], [''web''])"

text \<open>No service is known to the manager or running.\<close>

definition blank :: "(sid \<Rightarrow> 'p service) \<Rightarrow> bool" where
  "blank V \<longleftrightarrow> (\<forall>u. \<not> has_mgr (V u) \<and> \<not> enabled (V u) \<and> \<not> running (V u) \<and> service_ok (V u) \<and> rate_ok (V u))"

definition sample_start :: "sample world" where
  "sample_start = new_world ''sample'' (\<lambda>_. service_defaults sample_provider db) int (\<lambda>_ ks. ks)"

lemma blank_defaults [simp]: "blank (\<lambda>_. service_defaults P p)"
  by (simp add: blank_def service_defaults_def service_ok_def rate_ok_def)

lemma identity_order [simp]: "permutes_keys (\<lambda>_ ks. ks)"
  by (simp add: permutes_keys_def)

lemma blank_inv: "permutes_keys r \<Longrightarrow> blank V \<Longrightarrow> inv (new_world name V c r)"
  by (rule new_world_inv) (simp_all add: blank_def)

lemma reachable_returns:
  assumes "reachable P A w0 w" and "A a" and "allowed a w" and "returns (exec P a w) Q"
  shows "\<exists>w'. reachable P A w0 w' \<and> Q w'"
  using assms(4) reachable_step [OF assms(1-3)] by (auto simp: returns_iff)

abbreviation (input) gentle :: "'p operation \<Rightarrow> bool" where
  "gentle a \<equiv> \<not> changes_limit a"

definition sample_names :: "sample world \<Rightarrow> bool" where
  "sample_names w \<longleftrightarrow> identity_of (svc w 0) = (''db'', [], [], []) \<and>
     identity_of (svc w 1) = (''web'', [], [''db''], []) \<and>
     identity_of (svc w 2) = (''web2'', [], [''db''], [''web''])"

lemma sample_names_fields:
  assumes "sample_names w"
  shows "sname (svc w 0) = ''db''" "sname (svc w 1) = ''web''" "sname (svc w 2) = ''web2''"
    "provides (svc w 0) = []" "provides (svc w 1) = []" "provides (svc w 2) = []"
    "depends (svc w 0) = []" "depends (svc w 1) = [''db'']" "depends (svc w 2) = [''db'']"
    "conflicts (svc w 0) = []" "conflicts (svc w 1) = []" "conflicts (svc w 2) = [''web'']"
  using assms by (simp_all add: sample_names_def identity_of_def)

lemma sample_names_cong:
  "(\<And>u. identity_of (svc w' u) = identity_of (svc w u)) \<Longrightarrow> sample_names w' = sample_names w"
  by (simp add: sample_names_def)

lemma sample_new:
  "\<exists>w. reachable sample_provider gentle sample_start w \<and> inv w \<and> managed w = [] \<and> sample_names w \<and>
    (\<forall>u. \<not> failed (svc w u) \<and> starts (svc w u) = 0 \<and> rateLimit (svc w u) = 10)"
proof -
  let ?P = sample_provider
  define w1 where "w1 = NewService ?P db 0 sample_start"
  define w2 where "w2 = NewService ?P web 1 w1"
  define w3 where "w3 = NewService ?P web2 2 w2"
  have i0: "inv sample_start" by (simp add: sample_start_def blank_inv)
  have m: "managed sample_start = []" "managed w1 = []" "managed w2 = []" "managed w3 = []"
    by (simp_all add: w1_def w2_def w3_def NewService_world sample_start_def new_world_def
        case_prod_beta NewManager_def Let_def)
  have i: "inv w1" "inv w2" "inv w3"
    using NewService_inv(1) [of sample_start 0 ?P db] NewService_inv(1) [of w1 1 ?P web]
      NewService_inv(1) [of w2 2 ?P web2] i0 m by (simp_all add: w1_def w2_def w3_def)
  have "reachable ?P gentle sample_start w1"
    by (rule reachable_step [OF reachable_start, of _ "OpNew 0 db"]) (simp_all add: m w1_def)
  then have "reachable ?P gentle sample_start w2"
    by (rule reachable_step [of _ _ _ _ "OpNew 1 web"]) (simp_all add: m w2_def)
  then have "reachable ?P gentle sample_start w3"
    by (rule reachable_step [of _ _ _ _ "OpNew 2 web2"]) (simp_all add: m w3_def)
  moreover have "sample_names w3"
  proof -
    have "identity_of (svc (NewService ?P p s w) u) =
        (if u = s then (fst p, [], fst (snd p), snd (snd p)) else identity_of (svc w u))" for p s w u
    proof (cases "u = s")
      case True
      obtain q where "svc (NewService ?P p s w) s = (service_defaults ?P p)\<lparr>prov := q,
          s_mlog := \<lparr>ml_prefix = ''['' @ pName ?P p @ ''] '', ml_loggers = [SlogLogger]\<rparr>\<rparr>"
        using NewService_world(4) [of ?P p s w] by (elim exE)
      then show ?thesis
        using True by (simp add: identity_of_def service_defaults_def sample_provider_def)
    next
      case False
      then show ?thesis by (simp add: NewService_world(3))
    qed
    then show ?thesis by (simp add: sample_names_def w1_def w2_def w3_def db_def web_def web2_def)
  qed
  moreover have "\<not> failed (svc w3 u) \<and> starts (svc w3 u) = 0 \<and> rateLimit (svc w3 u) = 10" for u
  proof -
    let ?F = "\<lambda>S :: sample service. \<not> failed S \<and> starts S = 0 \<and> rateLimit S = 10"
    have *: "?F (svc w u) \<Longrightarrow> ?F (svc (NewService ?P p s w) u)" for p s w
      using NewService_world(4) [of ?P p s w] NewService_world(3) [of u s ?P p w]
      by (cases "u = s") (auto simp: service_defaults_def)
    have "?F (svc sample_start u)"
      by (simp add: sample_start_def new_world_def case_prod_beta service_defaults_def)
    then show ?thesis using * unfolding w1_def w2_def w3_def by blast
  qed
  ultimately show ?thesis using i m by blast
qed

lemma sample_add:
  assumes "reachable sample_provider gentle sample_start w" "inv w" "sample_names w"
    and "\<forall>t \<in> set (managed w). sname (svc w t) \<noteq> sname (svc w s)"
  shows "\<exists>w'. reachable sample_provider gentle sample_start w' \<and> inv w' \<and> sample_names w' \<and>
    managed w' = s # managed w \<and> (\<forall>u. flags_of (svc w' u) = flags_of (svc w u) \<and>
      starts (svc w' u) = starts (svc w u) \<and> rateLimit (svc w' u) = rateLimit (svc w u))"
proof -
  have "\<not> name_taken s w" using assms(4) by (auto simp: name_taken_def list_ex_iff)
  then have "returns (AddService s w) (\<lambda>(e, w'). inv w' \<and> sample_names w' \<and>
    managed w' = s # managed w \<and> (\<forall>u. flags_of (svc w' u) = flags_of (svc w u) \<and>
      starts (svc w' u) = starts (svc w u) \<and> rateLimit (svc w' u) = rateLimit (svc w u)))"
    by (intro returns_mono [OF AddService_spec [OF assms(2)]])
      (use assms(3) in \<open>simp add: case_prod_beta sample_names_def\<close>)
  then have "returns (exec sample_provider (OpAdd s) w) (\<lambda>w'. inv w' \<and> sample_names w' \<and>
    managed w' = s # managed w \<and> (\<forall>u. flags_of (svc w' u) = flags_of (svc w u) \<and>
      starts (svc w' u) = starts (svc w u) \<and> rateLimit (svc w' u) = rateLimit (svc w u)))"
    unfolding exec.simps by (rule returns_snd)
  from reachable_returns [OF assms(1) _ _ this] show ?thesis by simp
qed

lemma sample_may_fail [simp]: "\<not> may_fail sample_provider"
  by (simp add: may_fail_def sample_provider_def)

lemma sample_enable:
  assumes "reachable sample_provider gentle sample_start w" "inv w" "sample_names w"
    and "s \<in> set (managed w)" "\<not> enabled (svc w s)" "satisfied w s" "\<not> failed (svc w s)"
    and "\<forall>c \<in> set (incompat (svc w s)). \<not> enabled (svc w c)"
  shows "\<exists>w'. reachable sample_provider gentle sample_start w' \<and> inv w' \<and> sample_names w' \<and>
    managed w' = managed w \<and> enabled (svc w' s) \<and> running (svc w' s) \<and>
    enable_frame sample_provider s w w' \<and> (\<forall>u. rateLimit (svc w' u) = rateLimit (svc w u))"
proof -
  have free: "\<not> (\<exists>c \<in> set (incompat (svc w s)). enabled (svc w c))" using assms(8) by blast
  have "returns (exec sample_provider (OpEnable s) w) (\<lambda>w'. inv w' \<and> sample_names w' \<and>
    managed w' = managed w \<and> enabled (svc w' s) \<and> running (svc w' s) \<and> enable_frame sample_provider s w w' \<and>
    (\<forall>u. rateLimit (svc w' u) = rateLimit (svc w u)))"
    unfolding exec.simps
  proof (intro returns_snd returns_mono [OF Enable_spec [OF assms(2,4)]], clarify)
    fix e w'
    assume k: "keeps w w'" and f: "enable_frame sample_provider s w w'"
      and c: "if \<not> enabled (svc w s) \<and> (\<exists>c \<in> set (incompat (svc w s)). enabled (svc w c))
        then e = Some ErrConflict \<and> (\<forall>u. flags_of (svc w' u) = flags_of (svc w u))
        else e = None \<and> enabled (svc w' s) \<and>
          (\<not> enabled (svc w s) \<and> satisfied w s \<longrightarrow> running (svc w' s) \<or> failed (svc w' s))"
    have "\<not> failed (svc w' s)" using f assms(7) by (auto simp: enable_frame_def)
    then have "enabled (svc w' s) \<and> running (svc w' s)" using c free assms(5,6) by simp
    moreover have "sample_names w'"
      using k sample_names_cong [of w' w] assms(3) by (simp add: keeps_def frame_def)
    ultimately show "inv w' \<and> sample_names w' \<and> managed w' = managed w \<and> enabled (svc w' s) \<and>
        running (svc w' s) \<and> enable_frame sample_provider s w w' \<and>
        (\<forall>u. rateLimit (svc w' u) = rateLimit (svc w u))"
      using k keeps_inv [OF k] f by (simp add: keeps_def frame_def)
  qed
  from reachable_returns [OF assms(1) _ _ this] show ?thesis by simp
qed

lemma sample_graph:
  assumes "sample_names w"
  shows "dep_of w 1 0 = Some ''db''" "\<not> conf_of w 0 1" "\<not> conf_of w 1 0" "\<not> conf_of w 0 2"
    "conf_of w 2 1"
  by (simp_all add: sample_names_fields [OF assms] dep_of_def registered_dep_def conf_of_def
      conflicting_def Matches_iff serviceMatches_iff base_name_def del: One_nat_def)

text \<open>\<open>db\<close> and \<open>web\<close> are enabled and run; \<open>web2\<close> is known and disabled.\<close>

definition sample_running :: "sample world \<Rightarrow> bool" where
  "sample_running w \<longleftrightarrow> reachable sample_provider gentle sample_start w \<and> inv w \<and> sample_names w \<and>
     managed w = [2, 1, 0] \<and> enabled (svc w 0) \<and> running (svc w 0) \<and> enabled (svc w 1) \<and>
     running (svc w 1) \<and> \<not> enabled (svc w 2) \<and> (\<forall>u. \<not> limited (svc w u))"

lemma sample_running: "\<exists>w. sample_running w"
proof -
  let ?R = "\<lambda>w. reachable sample_provider gentle sample_start w \<and> inv w \<and> sample_names w"
  obtain w0 where w0: "?R w0" "managed w0 = []" "\<And>u. \<not> failed (svc w0 u)"
    "\<And>u. starts (svc w0 u) = 0" "\<And>u. rateLimit (svc w0 u) = 10" using sample_new by blast
  have f0: "\<not> enabled (svc w0 u)" for u
    using w0 by (simp add: inv_def base_ok_def)
  obtain w1 where w1: "?R w1" "managed w1 = [0]" "\<And>u. flags_of (svc w1 u) = flags_of (svc w0 u)"
    "\<And>u. starts (svc w1 u) = 0" "\<And>u. rateLimit (svc w1 u) = 10"
    using sample_add [of w0 0] w0 by auto
  have n1: "sname (svc w1 1) \<noteq> sname (svc w1 0)"
    using sample_names_fields(1,2) [of w1] w1 by simp
  obtain w2 where w2: "?R w2" "managed w2 = [1, 0]" "\<And>u. flags_of (svc w2 u) = flags_of (svc w0 u)"
    "\<And>u. starts (svc w2 u) = 0" "\<And>u. rateLimit (svc w2 u) = 10"
    using sample_add [of w1 1] w1 n1 by auto
  have n2: "sname (svc w2 2) \<noteq> sname (svc w2 0)" "sname (svc w2 2) \<noteq> sname (svc w2 1)"
    using sample_names_fields(1-3) [of w2] w2 by simp_all
  obtain w3 where w3: "?R w3" "managed w3 = [2, 1, 0]" "\<And>u. flags_of (svc w3 u) = flags_of (svc w0 u)"
    "\<And>u. starts (svc w3 u) = 0" "\<And>u. rateLimit (svc w3 u) = 10"
    using sample_add [of w2 2] w2 n2 by auto
  have idle: "\<not> enabled (svc w3 u)" "\<not> failed (svc w3 u)" for u
    using w3(3) [of u] f0 [of u] w0(3) [of u] by (simp_all add: flags_of_def)
  have g3: "graph_ok w3" using w3(1) inv_parts(2) by blast
  have sat3: "satisfied w3 0"
    using satisfied_graph [OF g3, of 0] sample_names_fields(7) [of w3] w3 by simp
  obtain w4 where w4: "?R w4" "managed w4 = [2, 1, 0]" "enabled (svc w4 0)" "running (svc w4 0)"
    "enable_frame sample_provider 0 w3 w4" "\<And>u. rateLimit (svc w4 u) = 10"
    using sample_enable [of w3 0] w3 sat3 idle by auto
  have off: "\<not> enabled (svc w4 1)" "\<not> enabled (svc w4 2)" "\<not> failed (svc w4 u)" for u
    using w4(5) idle by (auto simp: enable_frame_def)
  have i4: "inv w4" and g4: "graph_ok w4" using w4(1) inv_parts(2) by blast+
  have serving: "serving (svc w4 0)"
    using w4(3,4) off(3) inv_parts(8) [OF i4] by (simp add: serving_def)
  have n4: "sample_names w4" using w4(1) by blast
  have sat4: "satisfied w4 1"
    using satisfied_graph [OF g4, of 1] sample_names_fields(8) [OF n4] sample_graph(1) [OF n4] serving w4(2)
    by auto
  have free: "\<not> enabled (svc w4 c)" if "c \<in> set (incompat (svc w4 1))" for c
    using that in_links(2) [OF g4, of 1 c] w4(2) sample_graph(3) [OF n4] off by auto
  obtain w5 where w5: "?R w5" "managed w5 = [2, 1, 0]" "enabled (svc w5 1)" "running (svc w5 1)"
    "enable_frame sample_provider 1 w4 w5" "\<And>u. rateLimit (svc w5 u) = 10"
    using sample_enable [of w4 1] w4 sat4 free off by auto
  have "enabled (svc w5 0)" "running (svc w5 0)" "\<not> enabled (svc w5 2)"
    using w5(5) w4(3,4) off(2) by (auto simp: enable_frame_def)
  moreover have "\<not> limited (svc w5 u)" for u
  proof -
    have "starts (svc w5 u) \<le> starts (svc w4 u) + 1" "starts (svc w4 u) \<le> starts (svc w3 u) + 1"
      using w4(5) w5(5) by (simp_all add: enable_frame_def)
    then show ?thesis using w3(4) [of u] w5(6) [of u] by (simp add: limited_def)
  qed
  ultimately have "sample_running w5" using w5 by (simp add: sample_running_def)
  then show ?thesis by blast
qed

end
