(* ===== verification/Target.thy ===== *)
theory Target
  imports Sample
begin

text \<open>
  What the manager promises, without its mechanism: the services that should run, computed from the names, the
  flags \<open>enabled\<close> and \<open>failed\<close> and the counts of starts alone.  A service should run when it is willing and
  each of its dependencies is met by another that should run; \<open>target\<close> computes the least such set in rounds.
  In every world that the operations of the manager reach, what should run does; and when no service
  depends on itself through others, nothing else does.
\<close>

section \<open>The specification\<close>

definition willing :: "'p world \<Rightarrow> sid \<Rightarrow> bool" where
  "willing w s \<longleftrightarrow> enabled (svc w s) \<and> \<not> failed (svc w s) \<and> \<not> limited (svc w s)"

definition supplied :: "'p world \<Rightarrow> sid list \<Rightarrow> sid \<Rightarrow> bool" where
  "supplied w X s \<longleftrightarrow>
     list_all (\<lambda>d. list_ex (\<lambda>p. p \<noteq> s \<and> registered_dep (svc w s) (svc w p) = Some d) X) (depends (svc w s))"

definition target_round :: "'p world \<Rightarrow> sid list \<Rightarrow> sid list" where
  "target_round w X = filter (\<lambda>s. willing w s \<and> supplied w X s) (managed w)"

definition target :: "'p world \<Rightarrow> sid list" where
  "target w = (target_round w ^^ length (managed w)) []"

text \<open>A service may depend on another only if that has a smaller rank.\<close>

definition layered :: "'p world \<Rightarrow> (sid \<Rightarrow> nat) \<Rightarrow> bool" where
  "layered w rank \<longleftrightarrow> (\<forall>s \<in> set (managed w). \<forall>p \<in> set (managed w).
     p \<noteq> s \<and> registered_dep (svc w s) (svc w p) \<noteq> None \<longrightarrow> rank p < rank s)"

lemma layeredD:
  "layered w rank \<Longrightarrow> s \<in> set (managed w) \<Longrightarrow> p \<in> set (managed w) \<Longrightarrow> p \<noteq> s \<Longrightarrow>
    registered_dep (svc w s) (svc w p) \<noteq> None \<Longrightarrow> rank p < rank s"
  by (simp add: layered_def)

section \<open>The rounds end\<close>

lemma supplied_iff:
  "supplied w X s \<longleftrightarrow> (\<forall>d \<in> set (depends (svc w s)). \<exists>p \<in> set X. p \<noteq> s \<and> dep_of w s p = Some d)"
  by (simp add: supplied_def list_all_iff list_ex_iff dep_of_def)

lemma in_target_round:
  "s \<in> set (target_round w X) \<longleftrightarrow> s \<in> set (managed w) \<and> willing w s \<and> supplied w X s"
  by (auto simp: target_round_def)

lemma target_round_mono: "set X \<subseteq> set Y \<Longrightarrow> set (target_round w X) \<subseteq> set (target_round w Y)"
  by (auto simp: in_target_round supplied_iff) blast

lemma rounds_grow: "set ((target_round w ^^ n) []) \<subseteq> set ((target_round w ^^ Suc n) [])"
  by (induction n) (simp_all add: target_round_mono)

lemma filter_grows:
  assumes "set (filter P xs) \<subseteq> set (filter Q xs)"
  shows "filter P xs = filter Q xs \<or> length (filter P xs) < length (filter Q xs)"
  using assms
proof (induction xs)
  case (Cons x xs)
  have sub: "set (filter P xs) \<subseteq> set (filter Q xs)" using Cons.prems by (auto split: if_splits)
  then have "length (filter P xs) \<le> length (filter Q xs)" using Cons.IH by auto
  moreover have "P x \<Longrightarrow> Q x" using Cons.prems by (auto split: if_splits)
  ultimately show ?case using Cons.IH [OF sub] by auto
qed simp

text \<open>Either a round adds a service or there is nothing to add any more.\<close>

lemma rounds_stop:
  "n \<le> length ((target_round w ^^ n) []) \<or> target_round w ((target_round w ^^ n) []) = (target_round w ^^ n) []"
proof (induction n)
  case (Suc n)
  let ?X = "(target_round w ^^ n) []"
  show ?case
  proof (cases "target_round w ?X = ?X")
    case False
    have "set ?X \<subseteq> set (target_round w ?X)" using rounds_grow [where w = w and n = n] by simp
    then have "length ?X < length (target_round w ?X)"
    proof (cases n)
      case 0
      then show ?thesis using False by simp
    next
      case (Suc m)
      let ?Y = "(target_round w ^^ m) []"
      have X: "?X = target_round w ?Y" by (simp add: Suc)
      show ?thesis
        using filter_grows [of "\<lambda>s. willing w s \<and> supplied w ?Y s" "managed w" "\<lambda>s. willing w s \<and> supplied w ?X s"]
          \<open>set ?X \<subseteq> set (target_round w ?X)\<close> False
        unfolding X by (auto simp: target_round_def)
    qed
    then show ?thesis using Suc False by auto
  qed simp
qed simp

lemma target_fixed: "set (target_round w (target w)) = set (target w)"
proof -
  let ?n = "length (managed w)"
  have "set (target w) \<subseteq> set (target_round w (target w))"
    using rounds_grow [where w = w and n = ?n] by (simp add: target_def)
  moreover have "set (target_round w (target w)) \<subseteq> set (target w)"
  proof (cases "target_round w (target w) = target w")
    case False
    then have all: "?n \<le> length (target w)" using rounds_stop [where w = w and n = ?n] by (auto simp: target_def)
    have "\<exists>P. target w = filter P (managed w)"
      by (cases ?n) (auto simp: target_def target_round_def)
    then obtain P where P: "target w = filter P (managed w)" by blast
    then have "P s" if "s \<in> set (managed w)" for s
      using all length_filter_less [of s "managed w" P] that by force
    then show ?thesis by (auto simp: P in_target_round)
  qed simp
  ultimately show ?thesis by blast
qed

lemma in_target: "s \<in> set (target w) \<longleftrightarrow> s \<in> set (managed w) \<and> willing w s \<and> supplied w (target w) s"
  using target_fixed [of w] by (auto simp: in_target_round set_eq_iff)

text \<open>It is the least set that is closed in this sense.\<close>

lemma target_least:
  assumes "set (target_round w X) \<subseteq> set X"
  shows "set (target w) \<subseteq> set X"
proof -
  have "set ((target_round w ^^ n) []) \<subseteq> set X" for n
  proof (induction n)
    case (Suc n)
    then show ?case using target_round_mono [OF Suc] assms by auto
  qed simp
  then show ?thesis by (simp add: target_def)
qed

section \<open>The manager keeps to it\<close>

text \<open>What should run does, as long as nothing is left stopped.\<close>

lemma target_runs:
  assumes "inv w" and "\<And>u. \<not> stuck w u"
  shows "s \<in> set (target w) \<Longrightarrow> running (svc w s)"
proof -
  let ?R = "filter (\<lambda>s. running (svc w s)) (managed w)"
  have "set (target_round w ?R) \<subseteq> set ?R"
  proof
    fix s assume "s \<in> set (target_round w ?R)"
    then have s: "s \<in> set (managed w)" "willing w s" "supplied w ?R s" by (simp_all add: in_target_round)
    have "serving (svc w p)" if "running (svc w p)" for p
      using inv_parts(8,9) [OF assms(1)] that by (simp add: serving_def)
    then have "satisfied w s"
      using s(3) unfolding satisfied_graph [OF inv_parts(2) [OF assms(1)] s(1)] supplied_iff by fastforce
    moreover have "\<forall>c \<in> set (incompat (svc w s)). \<not> enabled (svc w c)"
      using inv_parts(3) [OF assms(1)] s(1,2) by (auto simp: exclusive_def willing_def)
    ultimately have "can_run w s" using inv_parts(8) [OF assms(1)] s(2) by (simp add: can_run_def willing_def)
    then show "s \<in> set ?R" using assms(2) [of s] s(1,2) by (simp add: stuck_def willing_def)
  qed
  then have "set (target w) \<subseteq> set ?R" by (rule target_least)
  then show "s \<in> set (target w) \<Longrightarrow> running (svc w s)" by auto
qed

text \<open>What runs should, unless it has used up its starts or rests on itself.\<close>

lemma running_in_target:
  assumes "inv w" and "layered w rank" and "\<And>u. \<not> limited (svc w u)"
  shows "running (svc w s) \<Longrightarrow> s \<in> set (target w)"
proof (induction "rank s" arbitrary: s rule: less_induct)
  case less
  have s: "s \<in> set (managed w)" "satisfied w s" using inv_parts(5,7) [OF assms(1) less.prems] by auto
  have "\<exists>p \<in> set (target w). p \<noteq> s \<and> dep_of w s p = Some d" if d: "d \<in> set (depends (svc w s))" for d
  proof -
    obtain p where p: "p \<in> set (managed w)" "p \<noteq> s" "dep_of w s p = Some d" "serving (svc w p)"
      using s(2) d unfolding satisfied_graph [OF inv_parts(2) [OF assms(1)] s(1)] by blast
    have "registered_dep (svc w s) (svc w p) \<noteq> None" using p(3) by (simp add: dep_of_def)
    with p(2) have "rank p < rank s" by (rule layeredD [OF assms(2) s(1) p(1)])
    moreover have "running (svc w p)" using p(4) by (simp add: serving_def)
    ultimately have "p \<in> set (target w)" by (rule less.hyps)
    then show ?thesis using p(2,3) by blast
  qed
  then have "supplied w (target w) s" by (simp add: supplied_iff)
  moreover have "willing w s"
    using inv_parts(9) [OF assms(1) less.prems] assms(3) by (simp add: willing_def)
  ultimately show ?case using s(1) in_target by blast
qed

text \<open>The three services of the example depend on none that was allocated later.\<close>

lemma sample_layered: "sample_names w \<Longrightarrow> managed w = [2, 1, 0] \<Longrightarrow> layered w id"
  by (simp add: layered_def registered_dep_def sample_names_fields Matches_iff serviceMatches_iff base_name_def
      del: One_nat_def)

end
