(* ===== verification/Effects.thy ===== *)
theory Effects
  imports System
begin

text \<open>
  Relations between worlds that every operation of the manager keeps, whatever it does and whether it returns
  or not.  The locale \<open>marked\<close> carries such a relation through all operations; on the way a service may be
  \<open>fresh\<close> (it has been given a new serial number in the operation) or \<open>open\<close> (it was changed and is
  still to be given one).  A relation between the serial numbers alone is an \<open>effect\<close> (theory \<open>Serials\<close>).
\<close>

section \<open>Computations that may not return\<close>

text \<open>\<open>yields m P\<close>: the result satisfies \<open>P\<close>, if there is one.\<close>

primrec yields :: "'a outcome \<Rightarrow> ('a \<Rightarrow> bool) \<Rightarrow> bool" where
  "yields (Done x) P = P x"
| "yields (Panic p) P = True"
| "yields OutOfFuel P = True"

lemma yields_bindO [simp]: "yields (bindO m f) P = yields m (\<lambda>x. yields (f x) P)"
  by (cases m) simp_all

lemma yields_mono: "yields m P \<Longrightarrow> (\<And>x. P x \<Longrightarrow> Q x) \<Longrightarrow> yields m Q"
  by (cases m) simp_all

lemma yields_DoneD: "yields m P \<Longrightarrow> m = Done x \<Longrightarrow> P x"
  by simp

lemma yields_foldO:
  assumes "\<And>x w. I w \<Longrightarrow> yields (f x w) I"
  shows "I w \<Longrightarrow> yields (foldO f xs w) I"
proof (induction xs arbitrary: w)
  case (Cons x xs)
  then show ?case using yields_mono [OF assms [OF Cons.prems]] by simp
qed simp

lemma yields_if: "(b \<Longrightarrow> yields m P) \<Longrightarrow> (\<not> b \<Longrightarrow> yields m' P) \<Longrightarrow> yields (if b then m else m') P"
  by simp

lemma yields_option:
  "(x = None \<Longrightarrow> yields m P) \<Longrightarrow> (\<And>y. x = Some y \<Longrightarrow> yields (f y) P) \<Longrightarrow> yields (case_option m f x) P"
  by (cases x) simp_all

lemma yields_pair:
  "yields m (\<lambda>(_, w'). R w') \<Longrightarrow> (\<And>e w'. R w' \<Longrightarrow> yields (g e w') Q) \<Longrightarrow> yields (bindO m (case_prod g)) Q"
  by (cases m) auto

lemma yields_next: "yields m R \<Longrightarrow> (\<And>x. R x \<Longrightarrow> yields (f x) Q) \<Longrightarrow> yields (bindO m f) Q"
  by (cases m) auto

section \<open>The serial numbers\<close>

text \<open>With them the flag \<open>cleanup\<close>, which ends the monitor, and the name of the manager.\<close>

definition serials :: "'p world \<Rightarrow> int64 \<times> int64 \<times> condvars \<times> bool \<times> string" where
  "serials w = (m_serial (mgr w), listSerial (mgr w), cvs (mgr w), cleanup (mgr w), m_name (mgr w))"

lemma serials_mgr: "mgr_core (mgr w) = mgr_core (mgr w') \<Longrightarrow> serials w = serials w'"
  using mgr_core_fields [of "mgr w" "mgr w'"] by (simp add: serials_def)

lemma serials_frames [simp]:
  "serials (upd s f w) = serials w" "serials (tick w) = serials w" "serials (stamp_now s w) = serials w"
  "serials (s_logf s msg w) = serials w" "serials (m_logf msg w) = serials w"
  "serials (provider_prints out w) = serials w" "serials (snd (range_keys ks w)) = serials w"
  "serials (set_monitoring b w) = serials w" "serials (w\<lparr>ext := e\<rparr>) = serials w"
  "serials (w\<lparr>slogs := ls, clk := c\<rparr>) = serials w" "serials (w\<lparr>next_logger := n\<rparr>) = serials w"
  "serials (w\<lparr>mgr := (mgr w)\<lparr>services := ss\<rparr>\<rparr>) = serials w" "serials (SetLogger l w) = serials w"
  by (rule serials_mgr, simp)+
    (simp_all add: serials_def set_monitoring_def SetLogger_def Let_def split: option.split)

lemma serials_prov [simp]:
  "serials (snd (prov_Start P s w)) = serials w" "serials (prov_Stop P s w) = serials w"
  "serials (snd (prov_Check P s w)) = serials w" "serials (snd (prov_SetProperty P s n v w)) = serials w"
  by (simp_all add: prov_Start_def prov_Stop_def prov_Check_def prov_SetProperty_def case_prod_beta)

section \<open>Steps that show nothing\<close>

text \<open>The clock after \<open>k\<close> more readings.\<close>

definition readings_after :: "clock \<Rightarrow> nat \<Rightarrow> clock" where
  "readings_after c k = (\<lambda>i. c (k + i))"

lemma after_after [simp]: "readings_after (readings_after c k) j = readings_after c (k + j)"
  by (simp add: readings_after_def add.assoc)

lemma after_0 [simp]: "readings_after c 0 = c"
  by (simp add: readings_after_def)

lemma next_reading_after: "next_reading c = readings_after c 1"
  by (simp add: readings_after_def next_reading_def)

lemma log_lines_clock: "snd (log_lines ws l c) = readings_after c (length ws)"
  by (induction ws arbitrary: l c) (simp_all add: next_reading_after)

lemma log_Write_clock: "snd (log_Write b l c) = readings_after c (length (text_lines b))"
  using log_lines_clock [of "text_lines b" "log_allocate l" c] by (simp add: log_Write_def case_prod_beta)

text \<open>What the queries of a service show, with its serial number.\<close>

definition shown :: "'p service \<Rightarrow> _" where
  "shown S = (has_mgr S, s_serial S, sname S, desc S, provides S, depends S, conflicts S, enabled S, running S,
     failed S, reason S, stamp S)"

text \<open>What is behind: the state of the provider and the account of the starts.\<close>

definition core :: "'p service \<Rightarrow> 'p \<times> int \<times> int \<times> time list" where
  "core S = (prov S, starts S, rateLimit S, startTimes S)"

lemma core_fields:
  "core S = core S' \<longleftrightarrow> prov S = prov S' \<and> starts S = starts S' \<and> rateLimit S = rateLimit S' \<and> startTimes S = startTimes S'"
  by (simp add: core_def)

definition passes_on :: "clock \<Rightarrow> clock \<Rightarrow> bool" where
  "passes_on c c' \<longleftrightarrow> (\<exists>k. c' = readings_after c k)"

definition steady :: "'p world \<Rightarrow> 'p world \<Rightarrow> bool" where
  "steady w w' \<longleftrightarrow> serials w' = serials w \<and> passes_on (clk w) (clk w') \<and> (\<forall>u. shown (svc w' u) = shown (svc w u))"

definition quiet :: "'p world \<Rightarrow> 'p world \<Rightarrow> bool" where
  "quiet w w' \<longleftrightarrow> steady w w' \<and> (\<forall>u. core (svc w' u) = core (svc w u))"

text \<open>The states a method of the provider may leave.\<close>

definition answers :: "'p provider \<Rightarrow> 'p \<Rightarrow> 'p \<Rightarrow> bool" where
  "answers P p p' \<longleftrightarrow> p' = fst (snd (pStart P p)) \<or> p' = fst (pStop P p) \<or> p' = fst (snd (pCheck P p)) \<or>
     (\<exists>n v. p' = snd (pSetProperty P n v p))"

lemma passes_on_after [simp]: "passes_on c (readings_after c k)"
  by (auto simp: passes_on_def)

lemma passes_on_refl [simp]: "passes_on c c"
  using passes_on_after [of c 0] by simp

lemma passes_on_next [simp]: "passes_on c (next_reading c)"
  by (simp add: next_reading_after)

lemma passes_on_trans: "passes_on c c' \<Longrightarrow> passes_on c' c'' \<Longrightarrow> passes_on c c''"
  by (auto simp: passes_on_def)

lemma passes_on_fold:
  assumes "\<And>x w. passes_on (clk w) (clk (f x w))"
  shows "passes_on (clk w) (clk (fold f xs w))"
  by (induction xs arbitrary: w) (auto intro: passes_on_trans assms)

lemma passes_on_println: "passes_on (clk w) (clk (manager_println x w))"
  by (induction x w rule: manager_println.induct) (simp_all add: case_prod_beta log_Write_clock)

lemma passes_on_write: "passes_on (clk w) (clk (manager_write b w))"
  unfolding manager_write_def by (rule passes_on_fold [OF passes_on_println])

lemma passes_on_service: "passes_on (clk w) (clk (service_println s x w))"
  by (induction s x w rule: service_println.induct) (simp_all add: case_prod_beta log_Write_clock passes_on_write)

lemma passes_on_s_logf [simp]: "passes_on (clk w) (clk (s_logf s msg w))"
  unfolding s_logf_def Let_def by (rule passes_on_fold [OF passes_on_service])

lemma passes_on_println_any: "passes_on (clk w) (clk (provider_println x w))"
  by (induction x w rule: provider_println.induct) simp_all

lemma passes_on_logs [simp]:
  "passes_on (clk w) (clk (m_logf msg w))" "passes_on (clk w) (clk (provider_prints out w))"
  using passes_on_fold [OF passes_on_println_any]
  by (simp_all add: m_logf_def passes_on_write provider_prints_def)

lemma other_fields [simp]:
  "svc (set_monitoring b w) = svc w" "svc (SetLogger l w) = svc w" "clk (snd (range_keys ks w)) = clk w"
  "clk (set_monitoring b w) = clk w" "clk (SetLogger l w) = clk w"
  by (simp_all add: range_keys_def set_monitoring_def SetLogger_def Let_def)

lemma steady_upd: "shown (f (svc w s)) = shown (svc w s) \<Longrightarrow> steady w (upd s f w)"
  by (simp add: steady_def)

lemma quiet_upd: "shown (f (svc w s)) = shown (svc w s) \<Longrightarrow> core (f (svc w s)) = core (svc w s) \<Longrightarrow> quiet w (upd s f w)"
  by (simp add: quiet_def steady_upd)

lemma quiet_steps [simp]:
  "quiet w (tick w)" "quiet w (s_logf s msg w)" "quiet w (m_logf msg w)" "quiet w (provider_prints out w)"
  "quiet w (snd (range_keys ks w))" "quiet w (set_monitoring b w)" "quiet w (w\<lparr>ext := e\<rparr>)" "quiet w (SetLogger l w)"
  "quiet w (w\<lparr>slogs := ls, clk := next_reading (clk w)\<rparr>)" "quiet w (w\<lparr>next_logger := k\<rparr>)"
  "quiet w (w\<lparr>mgr := (mgr w)\<lparr>services := ss\<rparr>\<rparr>)"
  by (simp_all add: quiet_def steady_def)

text \<open>Steps that are quiet but for the core of a service.\<close>

lemma steady_trans: "steady u v \<Longrightarrow> steady v w \<Longrightarrow> steady u w"
  by (auto simp: steady_def intro: passes_on_trans)

lemma steady_steps [simp]:
  "steady w (upd s (\<lambda>S. S\<lparr>prov := p S\<rparr>) w)" "steady w (upd s (\<lambda>S. S\<lparr>starts := k S\<rparr>) w)"
  "steady w (upd s (\<lambda>S. S\<lparr>starts := k S, startTimes := ts S, rateLimit := l S\<rparr>) w)"
  "steady w (upd s (\<lambda>S. S\<lparr>startTimes := ts S\<rparr>) w)" "steady w (tick w)"
  by (rule steady_upd, simp add: shown_def)+ (simp add: steady_def)

lemma steady_record_start: "record_start s w = Done w' \<Longrightarrow> steady w w'"
  by (auto simp: record_start_def Let_def steady_trans [OF steady_steps(4) steady_steps(5)] steady_def shown_def split: if_splits)

section \<open>Relations kept by every operation\<close>

fun changes_list :: "'p operation \<Rightarrow> bool" where
  "changes_list (OpAdd s) = True"
| "changes_list (OpDelete s) = True"
| "changes_list _ = False"

text \<open>The states of providers that an operation brings along.\<close>

fun provided :: "('p \<Rightarrow> bool) \<Rightarrow> 'p operation \<Rightarrow> bool" where
  "provided good (OpNew s p) = good p"
| "provided good (OpActs s p out) = good p"
| "provided good _ = True"

lemma provided_any [simp]: "provided (\<lambda>_. True) a"
  by (cases a) simp_all

text \<open>
  \<open>R v F D w\<close>: the relation from \<open>v\<close> to \<open>w\<close>, where the services in \<open>F\<close> are fresh and those in \<open>D\<close> are open.  What
  an operation does to a world is a sequence of the steps that the assumptions name; \<open>good\<close> are the states in
  which a new provider may be and to which one may go by itself.
\<close>

locale marked =
  fixes P :: "'p provider" and good :: "'p \<Rightarrow> bool"
    and R :: "'p world \<Rightarrow> sid set \<Rightarrow> sid set \<Rightarrow> 'p world \<Rightarrow> bool"
  assumes R_weaken: "R v F D w \<Longrightarrow> F' \<subseteq> F \<Longrightarrow> D \<subseteq> D' \<Longrightarrow> R v F' D' w"
    and R_quiet: "R v F D w \<Longrightarrow> quiet w w' \<Longrightarrow> R v F D w'"
    and R_assign: "R v F D w \<Longrightarrow> s_serial (f (svc w s)) = s_serial (svc w s) \<or> s \<notin> F \<Longrightarrow> s \<in> F \<union> D \<Longrightarrow>
      core (f (svc w s)) = core (svc w s) \<Longrightarrow> R v F D (upd s f w)"
    and R_numbered: "R v F D w \<Longrightarrow>
      R v (insert s F) (D - {s}) (upd s (\<lambda>S. S\<lparr>s_serial := fst (bumpSerial w)\<rparr>) (snd (bumpSerial w)))"
    and R_leave: "R v F D w \<Longrightarrow> \<not> has_mgr (svc w s) \<Longrightarrow> R v F (D - {s}) w"
    and R_called: "R v F D w \<Longrightarrow> answers P (prov (svc w s)) p \<or> good p \<Longrightarrow> R v F D (upd s (\<lambda>S. S\<lparr>prov := p\<rparr>) w)"
    and R_counted: "R v F D w \<Longrightarrow> record_start s w = Done w' \<Longrightarrow> R v F D (upd s (\<lambda>S. S\<lparr>starts := starts S + 1\<rparr>) w')"
    and R_zeroed: "R v F D w \<Longrightarrow> R v F D (upd s (\<lambda>S. S\<lparr>starts := 0\<rparr>) w)"
    and R_limited: "R v F D w \<Longrightarrow> R v F D (upd s (\<lambda>S. S\<lparr>starts := 0,
      startTimes := (if 0 < k then replicate (nat k) zero_time else []), rateLimit := k\<rparr>) w)"
    and R_created: "R v F D w \<Longrightarrow> good p \<Longrightarrow> s \<notin> F \<Longrightarrow> R v F D (upd s (\<lambda>_. service_defaults P p) w)"
begin

lemma R_steps [simp]:
  assumes "R v F D w"
  shows "R v F D (tick w)" "R v F D (s_logf s msg w)" "R v F D (m_logf msg w)" "R v F D (provider_prints out w)"
    "R v F D (snd (range_keys ks w))" "R v F D (set_monitoring b w)" "R v F D (w\<lparr>ext := e\<rparr>)" "R v F D (SetLogger l w)"
    "R v F D (w\<lparr>slogs := ls, clk := next_reading (clk w)\<rparr>)" "R v F D (w\<lparr>next_logger := k\<rparr>)"
    "R v F D (w\<lparr>mgr := (mgr w)\<lparr>services := ss\<rparr>\<rparr>)"
  by (rule R_quiet [OF assms], simp only: quiet_steps)+

lemma R_calls [simp]:
  assumes "R v F D w"
  shows "R v F D (snd (prov_Start P s w))" "R v F D (prov_Stop P s w)" "R v F D (snd (prov_Check P s w))"
    "R v F D (snd (prov_SetProperty P s n x w))"
proof -
  note call = R_steps(4) [OF R_called [OF assms disjI1]] R_called [OF assms disjI1]
  have "answers P (prov (svc w s)) (fst (snd (pStart P (prov (svc w s)))))" "answers P (prov (svc w s)) (fst (pStop P (prov (svc w s))))"
    "answers P (prov (svc w s)) (fst (snd (pCheck P (prov (svc w s)))))" "answers P (prov (svc w s)) (snd (pSetProperty P n x (prov (svc w s))))"
    by (auto simp: answers_def)
  then show "R v F D (snd (prov_Start P s w))" "R v F D (prov_Stop P s w)" "R v F D (snd (prov_Check P s w))"
    "R v F D (snd (prov_SetProperty P s n x w))"
    by (simp_all add: prov_Start_def prov_Stop_def prov_Check_def prov_SetProperty_def case_prod_beta call)
qed

lemma R_upd_quiet [simp]:
  "R v F D w \<Longrightarrow> shown (f (svc w s)) = shown (svc w s) \<Longrightarrow> core (f (svc w s)) = core (svc w s) \<Longrightarrow> R v F D (upd s f w)"
  by (rule R_quiet [OF _ quiet_upd])

lemma R_upd [simp]:
  "R v F D w \<Longrightarrow> s_serial (f (svc w s)) = s_serial (svc w s) \<Longrightarrow> s \<in> F \<or> s \<in> D \<Longrightarrow> core (f (svc w s)) = core (svc w s) \<Longrightarrow>
    R v F D (upd s f w)"
  by (rule R_assign) simp_all

text \<open>An assignment that begins the count of starts again.\<close>

lemma R_upd_zero [simp]:
  assumes "R v F D w" and "s_serial (f (svc w s)) = s_serial (svc w s)" and "s \<in> F \<or> s \<in> D"
    and "core (f (svc w s)) = core ((svc w s)\<lparr>starts := 0\<rparr>)"
  shows "R v F D (upd s f w)"
proof -
  have "R v F D (upd s (\<lambda>_. f (svc w s)) (upd s (\<lambda>S. S\<lparr>starts := 0\<rparr>) w))"
    by (rule R_upd [OF R_zeroed [OF assms(1)]]) (simp_all add: assms(2-4))
  then show ?thesis by (simp add: upd_def)
qed

lemma R_stamp [simp]: "R v F D w \<Longrightarrow> s \<in> F \<or> s \<in> D \<Longrightarrow> R v F D (stamp_now s w)"
  by (simp add: stamp_now_def core_fields)

text \<open>A service is opened, closed by a new number, or left by the manager.\<close>

lemma R_open: "R v F D w \<Longrightarrow> R v F (insert s D) w"
  by (erule R_weaken) auto

lemma R_close: "R v (insert s F) (D - {s}) w \<Longrightarrow> R v F D w"
  by (erule R_weaken) auto

lemma R_close_pair: "yields m (\<lambda>(x, w). R v (insert s F) (D - {s}) w) \<Longrightarrow> yields m (\<lambda>(x, w). R v F D w)"
  by (erule yields_mono) (auto intro: R_close)

lemma R_left: "R v F (insert s D) w \<Longrightarrow> \<not> has_mgr (svc w s) \<Longrightarrow> R v F D w"
  by (drule (1) R_leave) (auto elim: R_weaken)

lemma R_unmanaged:
  assumes "R v F D w" and "s_serial (f (svc w s)) = s_serial (svc w s) \<or> s \<notin> F" and "\<not> has_mgr (f (svc w s))"
    and "core (f (svc w s)) = core (svc w s)"
  shows "R v F D (upd s f w)"
  by (rule R_left [OF R_assign [where f = f, OF R_open [OF assms(1), of s] assms(2)]]) (simp_all add: assms(3,4))

lemma R_bump: "R v F D w \<Longrightarrow> yields (bump s w) (R v (insert s F) (D - {s}))"
  using R_numbered [of v F D w s] by (simp add: bump_def case_prod_beta)

lemma bump_next:
  assumes "R v F (insert s D) w" and "\<And>x. R v (insert s F) (D - {s}) x \<Longrightarrow> yields (f x) (R v (insert s F) (D - {s}))"
  shows "yields (bindO (bump s w) f) (R v F D)"
proof (rule yields_next [OF R_bump [OF assms(1)]])
  fix x assume "R v (insert s F) (insert s D - {s}) x"
  then have "R v (insert s F) (D - {s}) x" by simp
  from yields_mono [OF assms(2) [OF this] R_close] show "yields (f x) (R v F D)" .
qed

lemma bump_pair:
  assumes "R v F (insert s D) w"
    and "\<And>x. R v (insert s F) (D - {s}) x \<Longrightarrow> yields (f x) (\<lambda>(y, w). R v (insert s F) (D - {s}) w)"
  shows "yields (bindO (bump s w) f) (\<lambda>(y, w). R v F D w)"
proof (rule yields_next [OF R_bump [OF assms(1)]])
  fix x assume "R v (insert s F) (insert s D - {s}) x"
  then have "R v (insert s F) (D - {s}) x" by simp
  from R_close_pair [OF assms(2) [OF this]] show "yields (f x) (\<lambda>(y, w). R v F D w)" .
qed

lemma R_canRun: "R v F D w \<Longrightarrow> yields (canRun s w) (\<lambda>(_, w'). R v F D w')"
  unfolding canRun_def Let_def
  by (intro yields_if bump_pair) (simp_all add: R_open core_fields)

lemma R_tooQuickly: "R v F D w \<Longrightarrow> yields (tooQuickly s w) (\<lambda>(_, w'). R v F D w')"
  by (simp add: tooQuickly_def index_time_def Let_def shown_def core_fields)

text \<open>\<open>s.startTimes[...] = time.Now(); s.starts++; s.serial = s.mgr.bumpSerial()\<close>\<close>

lemma counted_next:
  assumes "R v F D w"
    and "\<And>x. R v (insert s F) (D - {s}) x \<Longrightarrow> yields (f x) (R v (insert s F) (D - {s}))"
  shows "yields (bindO (record_start s w) (\<lambda>w'. bindO (bump s (upd s (\<lambda>S. S\<lparr>starts := starts S + 1\<rparr>) w')) f)) (R v F D)"
  by (cases "record_start s w") (simp_all add: bump_next [OF R_open [OF R_counted [OF assms(1)]] assms(2)] del: yields_bindO)

lemma R_startRecurse: "R v F D w \<Longrightarrow> yields (startRecurse n P s detail w) (R v F D)"
proof (induction n arbitrary: F D s detail w)
  case (Suc n)
  have loop: "yields (foldO (\<lambda>c. startRecurse n P c d) cs x) (R v F D)" if "R v F D x" for F D d cs x
    by (rule yields_foldO [where I = "R v F D", OF _ that]) (rule Suc.IH)
  show ?case
    unfolding startRecurse.simps
    by (intro yields_if yields_pair [OF R_canRun [of v F D]] yields_pair [OF R_tooQuickly [of v F D]] counted_next)
      (simp_all add: Suc.prems Let_def case_prod_beta loop core_fields split: option.split)
qed simp

lemma R_stopRecurse: "R v F D w \<Longrightarrow> yields (stopRecurse n P s detail w) (R v F D)"
proof (induction n arbitrary: F D s detail w)
  case (Suc n)
  have loop: "yields (foldO (\<lambda>c w. bindO (canRun c w) (\<lambda>(ok, w').
      if ok then Done w' else stopRecurse n P c d w')) cs x) (R v F D)" if "R v F D x" for d cs x
    by (rule yields_foldO [where I = "R v F D", OF _ that], intro yields_pair [OF R_canRun [of v F D]] yields_if)
      (simp_all add: Suc.IH)
  show ?case
    unfolding stopRecurse.simps Let_def case_prod_beta
    by (intro yields_if yields_next [OF loop [unfolded case_prod_beta]] bump_next)
      (simp_all add: Suc.prems R_open core_fields shown_def)
qed simp

lemma R_checkService: "R v F D w \<Longrightarrow> yields (checkService P s w) (\<lambda>(_, w'). R v F D w')"
  unfolding checkService_def Let_def case_prod_beta
  by (intro yields_if yields_option bump_pair [unfolded case_prod_beta] yields_next [OF R_stopRecurse [of v "insert s F" "D - {s}"]])
    (simp_all add: R_open core_fields shown_def)

lemma R_selfHeal: "R v F D w \<Longrightarrow> yields (selfHeal P s w) (R v F D)"
  by (simp add: selfHeal_def R_startRecurse)

lemma R_Enable: "R v F D w \<Longrightarrow> yields (Enable P s w) (\<lambda>(_, w'). R v F D w')"
  unfolding Enable_def Let_def case_prod_beta
  by (intro yields_if yields_option bump_pair [unfolded case_prod_beta] yields_next [OF R_startRecurse [of v "insert s F" "D - {s}"]])
    (simp_all add: R_open core_fields)

lemma R_Disable: "R v F D w \<Longrightarrow> yields (Disable P s w) (\<lambda>(_, w'). R v F D w')"
  unfolding Disable_def Let_def
  by (intro yields_if bump_pair yields_next [OF R_stopRecurse [of v "insert s F" "D - {s}"]]) (simp_all add: R_open core_fields)

lemma R_Restart: "R v F D w \<Longrightarrow> yields (Restart P s w) (\<lambda>(_, w'). R v F D w')"
  unfolding Restart_def Let_def
  by (intro yields_if bump_pair yields_next [OF R_stopRecurse [of v "insert s F" "D - {s}"]]
      yields_next [OF R_startRecurse [of v "insert s F" "D - {s}"]]) (simp_all add: R_open core_fields)

lemma R_Clear: "R v F D w \<Longrightarrow> yields (Clear P s w) (R v F D)"
  unfolding Clear_def Let_def
  by (intro yields_if bump_next R_startRecurse) (simp_all add: R_open core_fields)

lemma R_Check: "R v F D w \<Longrightarrow> yields (Check P s w) (\<lambda>(_, w'). R v F D w')"
  by (simp add: Check_def R_checkService)

lemma R_check_and_heal: "R v F D w \<Longrightarrow> yields (check_and_heal P s w) (R v F D)"
  unfolding check_and_heal_def
  by (intro yields_if yields_pair [OF R_checkService [of v F D]]) (simp_all add: R_selfHeal)

lemma R_monitor_round: "R v F D w \<Longrightarrow> yields (monitor_round P w) (\<lambda>(_, w'). R v F D w')"
  unfolding monitor_round_def
  by (intro yields_next [where R = "R v F D"])
    (auto simp: case_prod_beta intro!: yields_foldO [where I = "R v F D"] R_check_and_heal)

lemma R_doNotify: "R v F D w \<Longrightarrow> yields (doNotify P s w) (R v F D)"
  unfolding doNotify_def
  by (intro yields_next [where R = "R v F D"])
    (simp_all add: notify_def R_check_and_heal split: option.split)

lemma R_SetProperty:
  assumes "R v F D w"
  shows "yields (SetProperty P s n x w) (\<lambda>(_, w'). R v F D w')"
proof -
  have new: "has_mgr S' = has_mgr S \<and> s_serial S' = s_serial S" if "assign_property n x S = Inr S'" for S S' :: "'p service"
    using that by (cases n; cases x) (auto simp: assign_property_def Let_def split: if_splits option.splits)
  have limits: "(\<exists>k. S' = S\<lparr>starts := 0, startTimes := (if 0 < k then replicate (nat k) zero_time else []), rateLimit := k\<rparr>) \<or>
      (core S' = core (S\<lparr>starts := 0\<rparr>) \<or> core S' = core S)" if S': "assign_property n x S = Inr S'" for S S' :: "'p service"
  proof (cases "n = PropRateLimit")
    case True
    then obtain k where "x = VInt k" using S' by (cases x) (simp_all add: assign_property_def)
    then have "S\<lparr>starts := 0, startTimes := (if 0 < k then replicate (nat k) zero_time else []), rateLimit := k\<rparr> = S'"
      using S' True by (simp only: assign_property_def property_name.case propval.case sum.inject)
    then show ?thesis by blast
  next
    case False
    then have "core S' = core (S\<lparr>starts := 0\<rparr>) \<or> core S' = core S"
      using S' by (cases n; cases x) (auto simp: assign_property_def core_fields Let_def split: if_splits option.splits)
    then show ?thesis ..
  qed
  have free: "yields (case n of OtherProperty _ \<Rightarrow> Done (prov_SetProperty P s n (FromUser x) w)
      | _ \<Rightarrow> (case assign_property n x (svc w s) of Inl e \<Rightarrow> Done (Some e, w)
        | Inr S \<Rightarrow> let w2 = upd s (\<lambda>_. S) w in if n = PropNotify then Done (None, w2)
            else Done (None, snd (prov_SetProperty P s n (FromUser x) w2)))) (\<lambda>(_, w'). R v F D w')"
    if "R v F D w" and ok: "s \<in> F \<or> \<not> has_mgr (svc w s)" for F D w
  proof -
    have "R v F D (upd s (\<lambda>_. S) w)" if S: "assign_property n x (svc w s) = Inr S" for S
    proof -
      have same: "R v F D (upd s (\<lambda>_. S) x)" if "R v F D x" and "has_mgr (svc x s) = has_mgr (svc w s)" "s_serial (svc x s) = s_serial (svc w s)"
        "core S = core (svc x s)" for x
        using that ok new [OF S] by (cases "s \<in> F") (simp_all add: R_unmanaged)
      from limits [OF S] show ?thesis
      proof (elim disjE exE)
        fix k assume "S = (svc w s)\<lparr>starts := 0, startTimes := (if 0 < k then replicate (nat k) zero_time else []), rateLimit := k\<rparr>"
        then show ?thesis using R_limited [OF \<open>R v F D w\<close>, of s k] by (simp add: upd_def)
      next
        assume "core S = core ((svc w s)\<lparr>starts := 0\<rparr>)"
        then show ?thesis using same [OF R_zeroed [OF \<open>R v F D w\<close>, of s]] by (simp add: upd_def)
      next
        assume "core S = core (svc w s)"
        then show ?thesis using same [OF \<open>R v F D w\<close>] by simp
      qed
    qed
    then show ?thesis
      using \<open>R v F D w\<close> by (simp add: Let_def case_prod_beta split: property_name.split sum.split)
  qed
  have "yields (setProp P s n x w) (\<lambda>(_, w'). R v F D w')"
  proof (cases "has_mgr (svc w s)")
    case True
    then show ?thesis
      unfolding setProp_def using assms by (simp del: yields_bindO) (intro impI bump_pair free; simp add: R_open)
  next
    case False
    then show ?thesis unfolding setProp_def using free [OF assms] by simp
  qed
  then show ?thesis
    unfolding SetProperty_def by (rule yields_pair) (simp split: option.split)
qed

lemma R_NewService:
  assumes "R v {} D w" and "good p"
  shows "R v {} D (NewService P p s w)"
  using R_created [OF assms, of s] by (simp add: NewService_def Let_def NewLog_def shown_def core_fields)

lemma fold_R: "R v F D w \<Longrightarrow> (\<And>x w. R v F D w \<Longrightarrow> R v F D (f x w)) \<Longrightarrow> R v F D (fold f xs w)"
  by (induction xs arbitrary: w) simp_all

lemma R_unlink [simp]:
  assumes "R v F D w"
  shows "R v F D (unlink_conflict s c w)" "R v F D (unlink_child s c w)" "R v F D (unlink_parent s dp w)"
  using assms by (simp_all add: unlink_conflict_def unlink_child_def unlink_parent_def Let_def fold_R core_fields shown_def)

text \<open>A service that is removed changes its status before it leaves.\<close>

lemma R_delManager:
  assumes "R v F D w"
  shows "R v F D (delManager s w)"
proof (cases "has_mgr (svc w s)")
  case True
  let ?R = "R v F (insert s D)"
  let ?w = "w\<lparr>mgr := (mgr w)\<lparr>services := delete_key s (services (mgr w))\<rparr>\<rparr>"
  let ?u = "fold (unlink_conflict s) (incompat (svc ?w s)) ?w"
  let ?v = "fold (unlink_child s) (children (svc ?u s)) ?u"
  define x where "x = fold (unlink_parent s) (parents (svc ?v s)) ?v"
  have x: "?R x" unfolding x_def using assms by (simp add: R_open fold_R)
  have "R v F D (upd s (\<lambda>S. S\<lparr>has_mgr := False\<rparr>) (stamp_now s (upd s (\<lambda>S. S\<lparr>reason := ''Removed service''\<rparr>) x)))"
    by (rule R_left [where s = s]) (simp_all add: x core_fields)
  then show ?thesis
    unfolding delManager_def Let_def x_def using True by simp
qed (simp add: delManager_def assms)

lemma R_shutdown_service:
  assumes "R v F UNIV w"
  shows "yields (shutdown_service P s w) (R v F UNIV)"
  unfolding shutdown_service_def Let_def
  by (intro yields_next [OF R_stopRecurse [of v F UNIV]]) (simp_all add: assms R_delManager core_fields)

text \<open>A shutdown: all services stay open.\<close>

lemma R_Shutdown:
  assumes "R v F UNIV w"
  shows "yields (Shutdown P w) (R v F UNIV)"
  unfolding Shutdown_def case_prod_beta Let_def
  by (intro yields_next [OF yields_foldO [where I = "R v F UNIV", OF R_shutdown_service]]) (simp_all add: assms core_fields)

text \<open>Every operation but a shutdown and the two that change the list of services.\<close>

lemma R_exec_service:
  assumes "\<not> changes_list a" and "a \<noteq> OpShutdown" and "provided good a" and r: "R v {} D w"
  shows "yields (exec P a w) (R v {} D)"
proof -
  have pair: "yields m (\<lambda>(_ :: 'x, w'). R v {} D w') \<Longrightarrow> yields (bindO m (\<lambda>(_, w'). Done w')) (R v {} D)" for m
    by (rule yields_pair) simp_all
  have acts: "R v {} D (upd s (\<lambda>S. S\<lparr>prov := p\<rparr>) w)" if "good p" for s p using R_called [OF r] that by blast
  show ?thesis
    using assms(1-3)
    by (cases a)
      (simp_all only: changes_list.simps provided.simps simp_thms exec.simps yields.simps pair R_Enable [OF r] R_Disable [OF r] R_Restart [OF r] R_Clear [OF r]
        R_Check [OF r] R_SetProperty [OF r] R_monitor_round [OF r] R_doNotify [OF r]
        R_NewService [OF r] StartMonitoring_def StopMonitoring_def Let_def Services_def R_steps acts r snd_conv
        case_prod_beta)
qed

end

text \<open>The two that change the list of services number the service at their end.\<close>

locale marked_list = marked +
  assumes R_listed: "R v F D w \<Longrightarrow> R v (insert s F) (D - {s}) (list_changed s w)"
begin

lemma R_setManager:
  assumes "R v F (insert s D) w"
  shows "yields (setManager s w) (R v F (insert s D))"
proof -
  let ?R = "R v F (insert s D)"
  have parent: "yields (add_parent t d u x) ?R" if "?R x" for t d u x
    using that by (simp add: add_parent_def core_fields shown_def split: option.split)
  have dep: "yields (link_dependency u t x) ?R" if "?R x" for u t x
    unfolding link_dependency_def
    by (intro yields_option yields_next [OF parent]) (simp_all add: that core_fields shown_def)
  have "yields (link u t x) ?R" if "?R x" for u t x
    unfolding link_def by (intro yields_next [OF dep]) (simp_all add: that link_conflict_def core_fields shown_def)
  note loop = yields_foldO [where I = ?R, OF this]
  show ?thesis
    unfolding setManager_def getLogger_def Let_def prod.case
    by (intro yields_if yields_next [OF loop]) (simp_all add: assms core_fields)
qed

lemma R_numbers: "R v {} (insert s D) w \<Longrightarrow> R v {} D (list_changed s w)"
  by (drule R_listed [where s = s], erule R_weaken) auto

lemma R_AddService:
  assumes "R v {} D w"
  shows "yields (AddService s w) (\<lambda>(_, w'). R v {} D w')"
  unfolding AddService_def Let_def
  by (intro yields_if yields_next [OF R_setManager [OF R_open [OF assms]]]) (simp_all add: assms R_numbers core_fields)

lemma R_exec_list:
  assumes "changes_list a" and "R v {} D w"
  shows "yields (exec P a w) (R v {} D)"
  using assms
proof (cases a)
  case (OpAdd s)
  show ?thesis unfolding OpAdd exec.simps by (rule yields_pair [OF R_AddService [OF assms(2)]]) simp
next
  case (OpDelete s)
  then show ?thesis
    using assms(2) by (simp add: DeleteService_def Let_def R_numbers R_open R_delManager)
qed simp_all

end

end
