(* ===== verification/Watch.thy ===== *)
theory Watch
  imports ManagerApi
begin

text \<open>
  Long polling: \<open>watchSerial\<close> of \<open>manager.go\<close> (behind \<open>WatchSerial\<close>, \<open>WatchServices\<close> and
  \<open>WatchService\<close>) and \<open>Watch\<close> of \<open>log.go\<close>.  A watcher registers a condition variable, sleeps
  until it is signalled, and looks at the counter again; a timer ends the wait.  Each step below
  is what one goroutine does while it holds the lock; the steps of the watcher, of its timer and
  of the writers of the counter interleave freely.
\<close>

section \<open>The watcher\<close>

datatype phase = Entering | Waiting | Returned int64

text \<open>
  \<open>counter\<close> and \<open>waiters\<close> are \<open>*src\<close> and \<open>m.cvs\<close> (or \<open>log.id\<close> and \<open>log.cvs\<close>), the other fields
  the local variables of the call.
\<close>

record watch =
  counter :: int64
  waiters :: condvars
  w_old :: int64
  w_expired :: bool
  w_cv :: nat
  w_phase :: phase

definition watch_call :: "int64 \<Rightarrow> duration \<Rightarrow> nat \<Rightarrow> int64 \<Rightarrow> condvars \<Rightarrow> watch" where
  "watch_call old expire cv c ws =
     \<lparr>counter = c, waiters = ws, w_old = old, w_expired = \<not> 0 < expire, w_cv = cv, w_phase = Entering\<rparr>"

text \<open>One turn of the loop: return and remove the variable, or \<open>cv.Wait()\<close>.\<close>

definition watch_turn :: "watch \<Rightarrow> watch" where
  "watch_turn W =
     (if counter W \<noteq> w_old W \<or> w_expired W
      then W\<lparr>w_phase := Returned (counter W), waiters := AList.delete (w_cv W) (waiters W)\<rparr>
      else W\<lparr>w_phase := Waiting, waiters := AList.update (w_cv W) False (waiters W)\<rparr>)"

text \<open>\<open>m.lock(); m.cvs[cv] = true\<close> and the first turn.\<close>

definition watch_enter :: "watch \<Rightarrow> watch" where
  "watch_enter W = watch_turn (W\<lparr>waiters := AList.update (w_cv W) False (waiters W)\<rparr>)"

definition signalled :: "nat \<Rightarrow> condvars \<Rightarrow> bool" where
  "signalled k ws \<longleftrightarrow> map_of ws k = Some True"

text \<open>The function of \<open>time.AfterFunc\<close>: it wakes the watcher if it is asleep.\<close>

definition watch_timer :: "watch \<Rightarrow> watch" where
  "watch_timer W =
     W\<lparr>w_expired := True,
       waiters := (if w_cv W \<in> set (map fst (waiters W)) then AList.update (w_cv W) True (waiters W)
                   else waiters W)\<rparr>"

text \<open>What writers may do: nothing to the counter, or change it and signal every variable.\<close>

definition announces :: "int64 \<times> condvars \<Rightarrow> int64 \<times> condvars \<Rightarrow> bool" where
  "announces before after \<longleftrightarrow>
     map fst (snd after) = map fst (snd before) \<and>
     (\<forall>k. signalled k (snd before) \<longrightarrow> signalled k (snd after)) \<and>
     (fst after \<noteq> fst before \<longrightarrow> (\<forall>k \<in> set (map fst (snd after)). signalled k (snd after)))"

inductive watch_step :: "watch \<Rightarrow> watch \<Rightarrow> bool" where
  enter: "w_phase W = Entering \<Longrightarrow> watch_step W (watch_enter W)"
| wake: "w_phase W = Waiting \<Longrightarrow> signalled (w_cv W) (waiters W) \<Longrightarrow> watch_step W (watch_turn W)"
| timer: "\<not> w_expired W \<Longrightarrow> watch_step W (watch_timer W)"
| announce: "announces (counter W, waiters W) (c, ws) \<Longrightarrow>
    watch_step W (W\<lparr>counter := c, waiters := ws\<rparr>)"

inductive watching :: "watch \<Rightarrow> watch \<Rightarrow> bool" for W0 where
  watching_start: "watching W0 W0"
| watching_step: "watching W0 W \<Longrightarrow> watch_step W W' \<Longrightarrow> watching W0 W'"

inductive_cases watch_stepE: "watch_step W W'"

section \<open>No wake-up is lost\<close>

text \<open>A watcher that sleeps although it has something to return has been signalled.\<close>

definition watch_ok :: "watch \<Rightarrow> bool" where
  "watch_ok W \<longleftrightarrow>
     (case w_phase W of
        Entering \<Rightarrow> w_cv W \<notin> set (map fst (waiters W))
      | Waiting \<Rightarrow> w_cv W \<in> set (map fst (waiters W)) \<and>
          (counter W \<noteq> w_old W \<or> w_expired W \<longrightarrow> signalled (w_cv W) (waiters W))
      | Returned v \<Rightarrow> w_cv W \<notin> set (map fst (waiters W)) \<and> (v \<noteq> w_old W \<or> w_expired W))"

lemma keys_delete: "set (map fst (AList.delete k al)) = set (map fst al) - {k}"
  by (induction al) auto

lemma keys_update: "set (map fst (AList.update k v al)) = insert k (set (map fst al))"
  by (induction al) auto

lemma signalled_update: "signalled j (AList.update k v al) \<longleftrightarrow> (if j = k then v else signalled j al)"
  by (simp add: signalled_def update_conv')

lemma watch_turn_ok:
  assumes "w_cv W \<in> set (map fst (waiters W)) \<or> w_phase W = Entering"
  shows "watch_ok (watch_turn W)"
  using assms by (auto simp: watch_turn_def watch_ok_def keys_delete keys_update simp del: set_map)

lemma announces_keys:
  "announces (c, ws) (c', ws') \<Longrightarrow> set (map fst ws') = set (map fst ws)"
  by (metis announces_def snd_conv)

lemma watch_step_ok:
  assumes "watch_step W W'" and "watch_ok W"
  shows "watch_ok W'"
  using assms
proof cases
  case enter
  then show ?thesis
    by (simp add: watch_enter_def watch_turn_ok keys_update del: set_map)
next
  case wake
  then have "w_cv W \<in> set (map fst (waiters W))"
    using assms(2) by (simp add: watch_ok_def del: set_map)
  then show ?thesis using wake(1) watch_turn_ok by simp
next
  case timer
  then show ?thesis
    using assms(2)
    by (auto simp: watch_ok_def watch_timer_def keys_update signalled_update simp del: set_map split: phase.splits)
next
  case (announce c ws)
  have keys: "set (map fst ws) = set (map fst (waiters W))"
    using announces_keys [OF announce(2)] .
  show ?thesis
  proof (cases "w_phase W")
    case Waiting
    have "signalled (w_cv W) ws" if "c \<noteq> w_old W \<or> w_expired W"
    proof (cases "c = counter W")
      case True
      then have "signalled (w_cv W) (waiters W)"
        using that assms(2) Waiting by (auto simp: watch_ok_def)
      then show ?thesis using announce(2) by (simp add: announces_def)
    next
      case False
      moreover have "w_cv W \<in> set (map fst ws)"
        using assms(2) Waiting keys by (simp add: watch_ok_def del: set_map)
      ultimately show ?thesis using announce(2) by (simp add: announces_def del: set_map)
    qed
    then show ?thesis
      using announce(1) assms(2) Waiting keys by (simp add: watch_ok_def del: set_map)
  qed (use announce(1) assms(2) keys in \<open>simp_all add: watch_ok_def del: set_map\<close>)
qed

lemma watching_ok:
  assumes "watching W0 W" and "watch_ok W0"
  shows "watch_ok W"
  using assms by (induction rule: watching.induct) (auto intro: watch_step_ok)

lemma watch_call_ok: "cv \<notin> set (map fst ws) \<Longrightarrow> watch_ok (watch_call old expire cv c ws)"
  by (simp add: watch_call_def watch_ok_def)

lemma watch_constants:
  assumes "watching W0 W"
  shows "w_old W = w_old W0 \<and> w_cv W = w_cv W0"
  using assms
proof induction
  case (watching_step W W')
  from watching_step(2) have "w_old W' = w_old W \<and> w_cv W' = w_cv W"
    by cases (simp_all add: watch_enter_def watch_turn_def watch_timer_def)
  then show ?case using watching_step.IH by simp
qed simp

section \<open>The writers of the counters announce every change\<close>

text \<open>A watcher together with what the owner of the counter shows.\<close>

definition seen_by :: "watch \<Rightarrow> int64 \<times> condvars \<Rightarrow> watch" where
  "seen_by W v = W\<lparr>counter := fst v, waiters := snd v\<rparr>"

text \<open>
  The contract between the owner of a counter and its watchers: every operation of the owner is
  one of the writer's steps above.
\<close>

locale watched_counter =
  fixes view :: "'s \<Rightarrow> int64 \<times> condvars" and operate :: "'o \<Rightarrow> 's \<Rightarrow> 's"
  assumes operate_announces: "announces (view s) (view (operate a s))"
begin

text \<open>Operations of the owner while a watcher waits are steps of the watcher's system.\<close>

lemma operate_step:
  assumes "view s = (counter W, waiters W)"
  shows "watch_step W (seen_by W (view (operate a s)))"
proof -
  have "announces (counter W, waiters W) (fst (view (operate a s)), snd (view (operate a s)))"
    using operate_announces [of s a] assms by simp
  then show ?thesis unfolding seen_by_def by (rule watch_step.announce)
qed

lemma sleeper_woken:
  assumes "view s = (counter W, waiters W)" and "watch_ok W" and "w_phase W = Waiting"
    and "fst (view (operate a s)) \<noteq> w_old W"
  shows "signalled (w_cv W) (snd (view (operate a s)))"
  using watch_step_ok [OF operate_step [OF assms(1)] assms(2), of a] assms(3,4)
  by (simp add: watch_ok_def seen_by_def)

end

lemma announces_refl: "announces x x"
  by (simp add: announces_def)

lemma map_of_broadcast: "map_of (broadcast ws) k = map_option (\<lambda>_. True) (map_of ws k)"
  by (induction ws) (auto simp: broadcast_def)

lemma in_keys: "k \<in> set (map fst ws) \<longleftrightarrow> map_of ws k \<noteq> None"
  by (simp add: map_of_eq_None_iff)

lemma signalled_broadcast: "signalled k (broadcast ws) \<longleftrightarrow> k \<in> set (map fst ws)"
  unfolding in_keys by (auto simp: signalled_def map_of_broadcast)

lemma announces_broadcast: "announces (c, ws) (c', broadcast ws)"
proof -
  have "signalled k ws \<Longrightarrow> signalled k (broadcast ws)" for k
    by (simp add: signalled_def map_of_broadcast)
  moreover have "set (map fst (broadcast ws)) = set (map fst ws)"
    by (simp only: broadcast_keys)
  ultimately show ?thesis by (simp add: announces_def signalled_broadcast del: set_map)
qed

text \<open>The manager's serial number: \<open>bumpSerial\<close>.\<close>

definition serial_view :: "'p world \<Rightarrow> int64 \<times> condvars" where
  "serial_view w = (m_serial (mgr w), cvs (mgr w))"

interpretation serial_watch: watched_counter serial_view "\<lambda>(_ :: unit) w. snd (bumpSerial w)"
  by unfold_locales (simp add: serial_view_def announces_broadcast)

text \<open>A log: \<open>Write\<close>.\<close>

definition log_view :: "log \<Rightarrow> int64 \<times> condvars" where
  "log_view l = (log_id l, log_cvs l)"

lemma log_lines_cvs [simp]: "log_cvs (fst (log_lines ws l c)) = log_cvs l"
  by (induction ws l c rule: log_lines.induct) (simp_all add: log_line_def Let_def)

lemma log_allocate_cvs [simp]: "log_cvs (log_allocate l) = log_cvs l"
  by (simp add: log_allocate_def Let_def)

interpretation log_watch: watched_counter log_view "\<lambda>(b, c) l. fst (log_Write b l c)"
  by unfold_locales (auto simp: log_view_def log_Write_def case_prod_beta announces_broadcast)

section \<open>The entry points\<close>

text \<open>
  The calls with which a client of the manager or of a service begins to watch: each names the
  counter and the condition variables it looks at.  \<open>cv\<close> is the new condition variable.
\<close>

definition manager_WatchSerial :: "int64 \<Rightarrow> duration \<Rightarrow> nat \<Rightarrow> 'p world \<Rightarrow> watch" where
  "manager_WatchSerial old expire cv w = watch_call old expire cv (m_serial (mgr w)) (cvs (mgr w))"

definition manager_WatchServices :: "int64 \<Rightarrow> duration \<Rightarrow> nat \<Rightarrow> 'p world \<Rightarrow> watch" where
  "manager_WatchServices old expire cv w = watch_call old expire cv (listSerial (mgr w)) (cvs (mgr w))"

text \<open>\<open>Watch\<close> of \<open>log.go\<close>, written on its own: its loop differs in what it returns.\<close>

definition log_Watch :: "int64 \<Rightarrow> duration \<Rightarrow> nat \<Rightarrow> log \<Rightarrow> watch" where
  "log_Watch seen expire cv l =
     \<lparr>counter = log_id l, waiters = log_cvs l, w_old = seen,
      w_expired = (if expire > 0 then False else True), w_cv = cv, w_phase = Entering\<rparr>"

definition log_watch_result :: "int64 \<Rightarrow> int64 \<Rightarrow> int64" where
  "log_watch_result seen i = (if i \<noteq> seen then i else seen)"

definition log_Watch_turn :: "watch \<Rightarrow> watch" where
  "log_Watch_turn W =
     (if counter W \<noteq> w_old W \<or> w_expired W
      then W\<lparr>waiters := AList.delete (w_cv W) (waiters W),
             w_phase := Returned (log_watch_result (w_old W) (counter W))\<rparr>
      else W\<lparr>w_phase := Waiting, waiters := AList.update (w_cv W) False (waiters W)\<rparr>)"

lemma log_Watch_call: "log_Watch seen expire cv l = watch_call seen expire cv (log_id l) (log_cvs l)"
  by (simp add: log_Watch_def watch_call_def)

lemma log_Watch_turn: "log_Watch_turn = watch_turn"
  by (rule ext) (simp add: log_Watch_turn_def watch_turn_def log_watch_result_def)

definition manager_WatchLog :: "int64 \<Rightarrow> duration \<Rightarrow> nat \<Rightarrow> 'p world \<Rightarrow> watch" where
  "manager_WatchLog old expire cv w = log_Watch old expire cv (m_log (mgr w))"

definition WatchLog :: "sid \<Rightarrow> int64 \<Rightarrow> duration \<Rightarrow> nat \<Rightarrow> 'p world \<Rightarrow> watch" where
  "WatchLog s old expire cv w = log_Watch old expire cv (slogs w s)"

text \<open>
  \<open>WatchService\<close>: a service of a manager watches its own serial number among the watchers of the
  manager; without one it sleeps and looks once more, in the world \<open>slept\<close>.
\<close>

datatype service_watch = WatchBegins watch | WatchEnds int64

definition unmanaged_watch :: "sid \<Rightarrow> int64 \<Rightarrow> duration \<Rightarrow> (duration \<Rightarrow> 'p world \<Rightarrow> 'p world) \<Rightarrow> 'p world \<Rightarrow> int64" where
  "unmanaged_watch s old expire slept w =
     (let w1 = (if old = s_serial (svc w s) then slept expire w else w) in s_serial (svc w1 s))"

definition WatchService ::
  "sid \<Rightarrow> int64 \<Rightarrow> duration \<Rightarrow> nat \<Rightarrow> (duration \<Rightarrow> 'p world \<Rightarrow> 'p world) \<Rightarrow> 'p world \<Rightarrow> service_watch" where
  "WatchService s old expire cv slept w =
     (if has_mgr (svc w s) then WatchBegins (watch_call old expire cv (s_serial (svc w s)) (cvs (mgr w)))
      else WatchEnds (unmanaged_watch s old expire slept w))"

end
