(* ===== verification/Rest.thy ===== *)
theory Rest
  imports GoStrings "HOL-Library.Char_ord" "HOL-Library.List_Lexorder"
begin

text \<open>
  The data of the REST interface (\<open>rest/common.go\<close>) and what the command line tool makes of a
  service's entry (\<open>govisor/util/util.go\<close>): its status word, the format of a duration and the
  order of the list.
\<close>

section \<open>Data\<close>

record manager_entry =
  me_Name :: string
  me_Serial :: string
  me_CreateTime :: time
  me_UpdateTime :: time

record service_entry =
  se_Name :: string
  se_Description :: string
  se_Enabled :: bool
  se_Running :: bool
  se_Failed :: bool
  se_Provides :: "string list"
  se_Depends :: "string list"
  se_Conflicts :: "string list"
  se_Status :: string
  se_TimeStamp :: time
  se_Serial :: string

record log_entry =
  le_Id :: string
  le_Time :: time
  le_Text :: string

record rest_error =
  re_Code :: int
  re_Message :: string

definition rest_error_text :: "rest_error \<Rightarrow> string" where
  "rest_error_text e = re_Message e"

section \<open>Status and durations\<close>

definition entry_status :: "service_entry \<Rightarrow> string" where
  "entry_status s =
     (if \<not> se_Enabled s then ''disabled''
      else if se_Failed s then ''failed''
      else if se_Running s then ''running''
      else ''standby'')"

definition FormatDuration :: "duration \<Rightarrow> string" where
  "FormatDuration d =
     (let sec = (d smod minute) sdiv second;
          min = (d smod hour) sdiv minute;
          h = d sdiv hour
      in dec_of_int h @ '':'' @ zero_pad2 min @ '':'' @ zero_pad2 sec)"

text \<open>What \<open>FormatDuration\<close> shows, read back.\<close>

definition duration_of :: "int \<Rightarrow> int \<Rightarrow> int \<Rightarrow> duration" where
  "duration_of h m s = h * hour + m * minute + s * second"

lemma sdiv_nonneg: "0 \<le> (a::int) \<Longrightarrow> 0 < b \<Longrightarrow> a sdiv b = a div b"
  by (cases "a = 0") (simp_all add: signed_divide_int_def sgn_if)

lemma smod_nonneg: "0 \<le> (a::int) \<Longrightarrow> 0 < b \<Longrightarrow> a smod b = a mod b"
  by (cases "a = 0") (simp_all add: smod_int_alt_def sgn_if)

lemma FormatDuration_fields:
  assumes "0 \<le> d"
  shows "\<exists>h m s. FormatDuration d = dec_of_int h @ '':'' @ zero_pad2 m @ '':'' @ zero_pad2 s \<and>
    0 \<le> h \<and> 0 \<le> m \<and> m < 60 \<and> 0 \<le> s \<and> s < 60 \<and>
    duration_of h m s \<le> d \<and> d < duration_of h m s + second"
proof (intro exI conjI)
  let ?s = "(d mod minute) div second" and ?m = "(d mod hour) div minute" and ?h = "d div hour"
  show "FormatDuration d = dec_of_int ?h @ '':'' @ zero_pad2 ?m @ '':'' @ zero_pad2 ?s"
    using assms by (simp add: FormatDuration_def Let_def sdiv_nonneg smod_nonneg)
  define r where "r = d mod hour"
  define u where "u = d mod minute"
  have d: "d = hour * ?h + r" "0 \<le> r" "r < hour" by (simp_all add: r_def)
  have "r mod minute = u" by (simp add: r_def u_def mod_mod_cancel)
  then have r: "r = minute * (r div minute) + u" "0 \<le> u" "u < minute"
    using mult_div_mod_eq [of minute r] by (simp_all add: u_def)
  have u: "u = second * (u div second) + u mod second" "0 \<le> u mod second" "u mod second < second"
    by simp_all
  show "0 \<le> ?h" "0 \<le> ?m" "0 \<le> ?s" using assms by (simp_all add: pos_imp_zdiv_nonneg_iff)
  show "?m < 60" "?s < 60" using d(3) r u unfolding r_def [symmetric] u_def [symmetric] by linarith+
  show "duration_of ?h ?m ?s \<le> d" "d < duration_of ?h ?m ?s + second"
    unfolding duration_of_def r_def [symmetric] u_def [symmetric] using d r u by linarith+
qed

section \<open>The order of the list\<close>

text \<open>\<open>Less\<close> of \<open>sorted\<close>: failed services first, then enabled ones, then by name (bytewise).\<close>

definition Less :: "service_entry \<Rightarrow> service_entry \<Rightarrow> bool" where
  "Less a b =
     (if se_Failed a \<noteq> se_Failed b then se_Failed a
      else if se_Enabled a \<noteq> se_Enabled b then se_Enabled a
      else se_Name a < se_Name b)"

text \<open>
  \<open>sort.Sort\<close> promises a permutation in which no element is \<open>Less\<close> than an earlier one.  The
  result of an insertion sort; with distinct names it is the only list of that kind.
\<close>

fun insert_entry :: "service_entry \<Rightarrow> service_entry list \<Rightarrow> service_entry list" where
  "insert_entry a [] = [a]"
| "insert_entry a (b # bs) = (if Less b a then b # insert_entry a bs else a # b # bs)"

definition SortServices :: "service_entry list \<Rightarrow> service_entry list" where
  "SortServices items = foldr insert_entry items []"

definition in_order :: "service_entry list \<Rightarrow> bool" where
  "in_order = sorted_wrt (\<lambda>a b. \<not> Less b a)"

lemma Less_irrefl: "\<not> Less a a"
  by (simp add: Less_def)

lemma Less_trans: "Less a b \<Longrightarrow> Less b c \<Longrightarrow> Less a c"
  by (auto simp: Less_def split: if_splits)

lemma not_Less_trans: "\<not> Less b a \<Longrightarrow> \<not> Less c b \<Longrightarrow> \<not> Less c a"
  by (auto simp: Less_def not_less split: if_splits)

lemma Less_asym: "Less a b \<Longrightarrow> \<not> Less b a"
  using Less_irrefl Less_trans by blast

lemma Less_total: "se_Name a \<noteq> se_Name b \<Longrightarrow> Less a b \<or> Less b a"
  by (auto simp: Less_def)

lemma insert_entry_mset: "mset (insert_entry a bs) = add_mset a (mset bs)"
  by (induction bs) auto

lemma insert_entry_order: "in_order bs \<Longrightarrow> in_order (insert_entry a bs)"
proof (induction bs)
  case (Cons b bs)
  have set: "set (insert_entry a bs) = insert a (set bs)"
    using insert_entry_mset [of a bs] by (metis set_mset_add_mset_insert set_mset_mset)
  show ?case
  proof (cases "Less b a")
    case True
    then show ?thesis using Cons set Less_asym by (auto simp: in_order_def)
  next
    case False
    then show ?thesis using Cons.prems not_Less_trans by (auto simp: in_order_def)
  qed
qed (simp add: in_order_def)

lemma SortServices_mset: "mset (SortServices items) = mset items"
  unfolding SortServices_def by (induction items) (simp_all add: insert_entry_mset)

lemma SortServices_order: "in_order (SortServices items)"
  unfolding SortServices_def by (induction items) (simp_all add: insert_entry_order, simp add: in_order_def)

lemma in_order_unique:
  assumes "in_order xs" and "in_order ys" and "mset xs = mset ys" and "distinct (map se_Name xs)"
  shows "xs = ys"
  using assms
proof (induction xs arbitrary: ys)
  case (Cons x xs)
  then obtain y ys' where ys: "ys = y # ys'" by (cases ys) auto
  have sets: "set (x # xs) = set ys" using Cons.prems(3) by (metis set_mset_mset)
  have "x = y"
  proof (rule ccontr)
    assume ne: "x \<noteq> y"
    then have "x \<in> set ys'" "y \<in> set xs" using sets ys by auto
    then have "\<not> Less x y" "\<not> Less y x" using Cons.prems(1,2) ys by (auto simp: in_order_def)
    moreover have "se_Name x \<noteq> se_Name y" using Cons.prems(4) \<open>y \<in> set xs\<close> by auto
    ultimately show False using Less_total by blast
  qed
  then show ?case using Cons ys by (auto simp: in_order_def)
qed simp

text \<open>
  What the order is to look like: the failed services first, enabled before disabled ones, then the others in the same
  way, each of the four groups by name.
\<close>

definition listed :: "service_entry list \<Rightarrow> service_entry list" where
  "listed items = concat (map (\<lambda>(f, e). sort_key se_Name (filter (\<lambda>i. se_Failed i = f \<and> se_Enabled i = e) items))
     [(True, True), (True, False), (False, True), (False, False)])"

lemma listed_mset: "mset (listed items) = mset items"
  by (rule multiset_eqI, induction items) (auto simp: listed_def)

lemma listed_order: "in_order (listed items)"
proof -
  have "sorted_wrt (\<lambda>a b. \<not> Less b a) (sort_key se_Name (filter (\<lambda>i. se_Failed i = f \<and> se_Enabled i = e) items))" for f e
  proof (rule sorted_wrt_mono_rel)
    show "sorted_wrt (\<lambda>a b. se_Name a \<le> se_Name b) (sort_key se_Name (filter (\<lambda>i. se_Failed i = f \<and> se_Enabled i = e) items))"
      using sorted_sort_key [of se_Name] by (simp add: sorted_map)
  qed (auto simp: Less_def)
  from this [of True True] this [of True False] this [of False True] this [of False False]
  show ?thesis by (simp add: in_order_def listed_def sorted_wrt_append) (auto simp: Less_def)
qed

lemma listed_unique:
  assumes "distinct (map se_Name items)"
  shows "mset ys = mset items \<and> in_order ys \<longleftrightarrow> ys = listed items"
proof
  assume ys: "mset ys = mset items \<and> in_order ys"
  then have "mset (map se_Name ys) = mset (map se_Name items)" by simp
  then have "distinct (map se_Name ys)" using assms mset_eq_imp_distinct_iff by blast
  with ys show "ys = listed items" by (intro in_order_unique [OF _ listed_order]) (simp_all add: listed_mset)
qed (simp add: listed_mset listed_order)

end
