(* ===== verification/Server.thy ===== *)
theory Server
  imports Watch Rest
begin

text \<open>
  The HTTP handlers of \<open>server/server.go\<close> and the authentication in front of them
  (\<open>govisord/main.go\<close>).  A request is its method, its path and the headers the handlers read, a response the status, the
  headers and the value they write.  Third-party and network code are parameters: the router
  (\<open>gorilla/mux\<close>) chooses among \<open>handler_routes\<close>, \<open>bcrypt\<close> compares passwords.  While a handler
  is blocked in a watch other goroutines run; \<open>watchFn\<close> gives the world in which it wakes up.
  JSON is left to \<open>encoding/json\<close>: a body is the value that is marshalled.
\<close>

section \<open>Requests and responses\<close>

text \<open>A date header: absent, unreadable, or a number of seconds since the epoch.\<close>

datatype http_date = NoDate | BadDate | DateSeconds int

datatype http_method = GET | POST | OtherMethod string

record request =
  rq_Method :: http_method
  rq_Path :: string
  rq_PollEtag :: string
  rq_PollTime :: string
  rq_IfNoneMatch :: string
  rq_IfModifiedSince :: http_date
  rq_BasicAuth :: "(string \<times> string) option"

datatype body =
    NoBody | OkBody | NamesBody "string list" | ServiceBody service_entry | LogBody "log_entry list"
  | ManagerBody manager_entry | ErrorBody rest_error | TextBody string

record response =
  rs_Status :: int
  rs_Etag :: "string option"
  rs_LastModified :: "int option"
  rs_ContentType :: "string option"
  rs_Authenticate :: "string option"
  rs_Body :: body

definition MimeJson :: string where
  "MimeJson = ''application/json; charset=UTF-8''"

definition StatusOK :: int where "StatusOK = 200"

definition StatusNotModified :: int where "StatusNotModified = 304"

definition StatusBadRequest :: int where "StatusBadRequest = 400"

definition StatusUnauthorized :: int where "StatusUnauthorized = 401"

definition StatusNotFound :: int where "StatusNotFound = 404"

definition StatusConflict :: int where "StatusConflict = 409"

definition StatusInternalServerError :: int where "StatusInternalServerError = 500"

text \<open>\<open>http.Error\<close> of the standard library, on top of the headers that are set already.\<close>

definition http_Error :: "string \<Rightarrow> int \<Rightarrow> response \<Rightarrow> response" where
  "http_Error msg code r =
     r\<lparr>rs_ContentType := Some ''text/plain; charset=utf-8'', rs_Status := code, rs_Body := TextBody (msg @ [newline])\<rparr>"

text \<open>
  \<open>internalError\<close> is the answer when \<open>json.Marshal\<close> fails; \<open>writeJson\<close> and \<open>writeError\<close>, the last act of
  every handler, are here the case that it does not, and \<open>marshalled\<close> below decides between the two.
\<close>

definition internalError :: "string \<Rightarrow> response \<Rightarrow> response" where
  "internalError e r = http_Error e StatusInternalServerError r"

definition writeJson :: "body \<Rightarrow> response" where
  "writeJson v =
     \<lparr>rs_Status = StatusOK, rs_Etag = None, rs_LastModified = None, rs_ContentType = Some MimeJson,
      rs_Authenticate = None, rs_Body = v\<rparr>"

definition writeError :: "rest_error \<Rightarrow> response" where
  "writeError e = (writeJson (ErrorBody e))\<lparr>rs_Status := re_Code e\<rparr>"

definition notModified :: response where
  "notModified =
     \<lparr>rs_Status = StatusNotModified, rs_Etag = None, rs_LastModified = None, rs_ContentType = None,
      rs_Authenticate = None, rs_Body = NoBody\<rparr>"

section \<open>Polling and caching\<close>

abbreviation quote :: char where "quote \<equiv> CHR 34"

definition etag_of :: "int64 \<Rightarrow> string" where
  "etag_of sn = [quote] @ format_int16 (sint sn) @ [quote]"

text \<open>\<open>strconv.Atoi\<close> with the error ignored: 0 for what is no number, the nearest \<open>int\<close> if too big (the
  conversion stops at the digit that leaves 64 bits).\<close>

definition digit_value :: "char \<Rightarrow> nat option" where
  "digit_value c = (let n = of_char c :: nat in if 48 \<le> n \<and> n \<le> 57 then Some (n - 48) else None)"

fun digits_value :: "nat \<Rightarrow> string \<Rightarrow> nat option" where
  "digits_value n [] = Some n"
| "digits_value n (c # cs) =
     (case digit_value c of
        None \<Rightarrow> None
      | Some d \<Rightarrow> if 2 ^ 64 \<le> 10 * n + d then Some (10 * n + d) else digits_value (10 * n + d) cs)"

definition Atoi :: "string \<Rightarrow> int" where
  "Atoi s =
     (let (neg, ds) = (case s of [] \<Rightarrow> (False, [])
            | c # cs \<Rightarrow> if c = CHR ''-'' then (True, cs) else if c = CHR ''+'' then (False, cs) else (False, s))
      in if ds = [] then 0
         else case digits_value 0 ds of
                None \<Rightarrow> 0
              | Some n \<Rightarrow> max (- (2 ^ 63)) (min (2 ^ 63 - 1) (if neg then - int n else int n)))"

definition poll_seconds :: "string \<Rightarrow> duration" where
  "poll_seconds s = sint (word_of_int (Atoi s * second) :: int64)"

text \<open>The call of \<open>watchFn\<close> that a request asks for.\<close>

definition poll_request :: "request \<Rightarrow> (int64 \<times> duration) option" where
  "poll_request r =
     (let ptag = rq_PollEtag r in
      if length ptag < 2 then None
      else if ptag ! 0 \<noteq> quote \<or> ptag ! (length ptag - 1) \<noteq> quote then None
      else case parse_int16 (butlast (tl ptag)) of
             None \<Rightarrow> None
           | Some v \<Rightarrow> Some (word_of_int v, poll_seconds (rq_PollTime r)))"

definition checkPoll :: "request \<Rightarrow> (int64 \<Rightarrow> duration \<Rightarrow> 'w \<Rightarrow> 'w) \<Rightarrow> 'w \<Rightarrow> 'w" where
  "checkPoll r watchFn w =
     (case poll_request r of None \<Rightarrow> w | Some (old, expire) \<Rightarrow> watchFn old expire w)"

text \<open>\<open>False\<close>: the answer is "not modified".\<close>

definition condCheckGet :: "request \<Rightarrow> string \<Rightarrow> time \<Rightarrow> bool" where
  "condCheckGet r etag ts =
     (if rq_IfNoneMatch r = etag then False
      else case rq_IfModifiedSince r of
             NoDate \<Rightarrow> True
           | BadDate \<Rightarrow> True
           | DateSeconds n \<Rightarrow> \<not> ts < n * second + second)"

text \<open>\<open>http.TimeFormat\<close> shows whole seconds; \<open>zone\<close> is the offset when the time is not in UTC.\<close>

definition last_modified :: "int \<Rightarrow> time \<Rightarrow> int" where
  "last_modified zone ts = ts div second + zone"

definition cached :: "request \<Rightarrow> string \<Rightarrow> time \<Rightarrow> int \<Rightarrow> body \<Rightarrow> response" where
  "cached r etag ts zone v =
     (if \<not> condCheckGet r etag ts then notModified
      else (writeJson v)\<lparr>rs_Etag := Some etag, rs_LastModified := Some (last_modified zone ts)\<rparr>)"

section \<open>Handlers that read\<close>

definition listServices ::
  "(int64 \<Rightarrow> duration \<Rightarrow> 'p world \<Rightarrow> 'p world) \<Rightarrow> request \<Rightarrow> 'p world \<Rightarrow> response \<times> 'p world" where
  "listServices watchFn r w =
     (let w1 = checkPoll r watchFn w;
          ((svcs, sn, ts), w2) = Services w1;
          l = map (\<lambda>s. sname (svc w2 s)) svcs
      in (cached r (etag_of sn) ts 0 (NamesBody l), w2))"

definition findService :: "string \<Rightarrow> 'p world \<Rightarrow> (rest_error + sid) \<times> 'p world" where
  "findService name w =
     (let ((svcs, _, _), w1) = Services w
      in (case find (\<lambda>s. sname (svc w1 s) = name) svcs of
            Some s \<Rightarrow> Inr s
          | None \<Rightarrow> Inl \<lparr>re_Code = StatusNotFound, re_Message = ''Service not found''\<rparr>, w1))"

definition manager_body :: "manager_info \<Rightarrow> manager_entry" where
  "manager_body i =
     \<lparr>me_Name = i_Name i, me_Serial = format_int16 (sint (i_Serial i)),
      me_CreateTime = i_CreateTime i, me_UpdateTime = i_UpdateTime i\<rparr>"

definition getManager ::
  "(int64 \<Rightarrow> duration \<Rightarrow> 'p world \<Rightarrow> 'p world) \<Rightarrow> request \<Rightarrow> 'p world \<Rightarrow> response \<times> 'p world" where
  "getManager watchFn r w =
     (let w1 = checkPoll r watchFn w;
          info = GetInfo w1
      in (cached r (etag_of (i_Serial info)) (i_UpdateTime info) 0 (ManagerBody (manager_body info)), w1))"

text \<open>The records of a log, and the time of the last one (or the present).\<close>

definition log_body :: "log_record list \<Rightarrow> log_entry list" where
  "log_body recs = map (\<lambda>x. \<lparr>le_Id = format_int16 (sint (rec_id x)), le_Time = rec_time x, le_Text = rec_text x\<rparr>) recs"

definition log_when :: "log_entry list \<Rightarrow> time \<Rightarrow> time" where
  "log_when es t = foldl (\<lambda>_ e. le_Time e) t es"

definition log_response :: "int \<Rightarrow> request \<Rightarrow> log_record list option \<times> int64 \<Rightarrow> 'p world \<Rightarrow> response \<times> 'p world" where
  "log_response zone r recs_sn w =
     (let jrecs = log_body (case fst recs_sn of None \<Rightarrow> [] | Some rs \<Rightarrow> rs);
          when = log_when jrecs (now w)
      in (cached r (etag_of (snd recs_sn)) when zone (LogBody jrecs), tick w))"

definition getManagerLog ::
  "int \<Rightarrow> (int64 \<Rightarrow> duration \<Rightarrow> 'p world \<Rightarrow> 'p world) \<Rightarrow> request \<Rightarrow> 'p world \<Rightarrow> response \<times> 'p world" where
  "getManagerLog zone watchFn r w =
     (let w1 = checkPoll r watchFn w in log_response zone r (manager_GetLog 0 w1) w1)"

definition getLog ::
  "int \<Rightarrow> (sid \<Rightarrow> int64 \<Rightarrow> duration \<Rightarrow> 'p world \<Rightarrow> 'p world) \<Rightarrow> string \<Rightarrow> request \<Rightarrow> 'p world \<Rightarrow>
   response \<times> 'p world" where
  "getLog zone watchLog name r w =
     (case findService name w of
        (Inl e, w1) \<Rightarrow> (writeError e, w1)
      | (Inr s, w1) \<Rightarrow>
          let w2 = checkPoll r (watchLog s) w1 in log_response zone r (GetLog s 0 w2) w2)"


text \<open>
  \<open>getService\<close> reads the fields one by one while other goroutines run: \<open>hist i\<close> is the service
  at the \<open>i\<close>-th read.  It starts again until the serial number has not changed meanwhile.
\<close>

definition read_entry :: "(nat \<Rightarrow> 'p service) \<Rightarrow> nat \<Rightarrow> service_entry" where
  "read_entry hist t =
     \<lparr>se_Name = Name (hist (t + 1)), se_Description = Description (hist (t + 2)),
      se_Enabled = Enabled (hist (t + 3)), se_Running = Running (hist (t + 4)),
      se_Failed = Failed (hist (t + 5)), se_Provides = Provides (hist (t + 6)),
      se_Depends = Depends (hist (t + 7)), se_Conflicts = Conflicts (hist (t + 8)),
      se_Status = fst (Status (hist (t + 9))), se_TimeStamp = snd (Status (hist (t + 9))),
      se_Serial = format_int16 (sint (Serial (hist t)))\<rparr>"

fun read_service :: "nat \<Rightarrow> (nat \<Rightarrow> 'p service) \<Rightarrow> nat \<Rightarrow> (service_entry \<times> nat) option" where
  "read_service 0 hist t = None"
| "read_service (Suc n) hist t =
     (if Serial (hist t) = Serial (hist (t + 10)) then Some (read_entry hist t, t + 10)
      else read_service n hist (t + 11))"

definition service_response :: "request \<Rightarrow> service_entry \<Rightarrow> response" where
  "service_response r info =
     cached r ([quote] @ se_Serial info @ [quote]) (se_TimeStamp info) 0 (ServiceBody info)"

text \<open>
  The answer to a request for a service that was found, polled for and read, and the world at the
  last read; \<open>later s w i\<close> is the world \<open>i\<close> reads after \<open>w\<close>.  \<open>None\<close>: still reading after \<open>n\<close> turns of the loop.
\<close>

definition getService ::
  "nat \<Rightarrow> (sid \<Rightarrow> int64 \<Rightarrow> duration \<Rightarrow> 'p world \<Rightarrow> 'p world) \<Rightarrow> (sid \<Rightarrow> 'p world \<Rightarrow> nat \<Rightarrow> 'p world) \<Rightarrow>
   string \<Rightarrow> request \<Rightarrow> 'p world \<Rightarrow> (response \<times> 'p world) option" where
  "getService n watchService later name r w =
     (case findService name w of
        (Inl e, w1) \<Rightarrow> Some (writeError e, w1)
      | (Inr s, w1) \<Rightarrow>
          let w2 = checkPoll r (watchService s) w1
          in map_option (\<lambda>(info, t). (service_response r info, later s w2 t))
               (read_service n (\<lambda>i. svc (later s w2 i) s) 0))"

section \<open>Handlers that change state\<close>

text \<open>
  \<open>e == govisor.ErrConflict\<close> compares an interface that holds a \<open>*rest.Error\<close> with one that
  holds an error of package \<open>govisor\<close>.
\<close>

datatype go_error = RestError "rest_error option" | GovisorError error

definition enableService :: "'p provider \<Rightarrow> string \<Rightarrow> 'p world \<Rightarrow> (response \<times> 'p world) outcome" where
  "enableService P name w =
     (case findService name w of
        (Inl e, w1) \<Rightarrow> Done (writeError e, w1)
      | (Inr s, w1) \<Rightarrow>
          bindO (Enable P s w1) (\<lambda>(err, w2).
          case err of
            Some er \<Rightarrow>
              let e = (if RestError None = GovisorError ErrConflict
                       then \<lparr>re_Code = StatusConflict, re_Message = error_text er\<rparr>
                       else \<lparr>re_Code = StatusBadRequest, re_Message = error_text er\<rparr>)
              in Done (writeError e, w2)
          | None \<Rightarrow> Done (writeJson OkBody, w2)))"

definition simple_action ::
  "(sid \<Rightarrow> 'p world \<Rightarrow> (error option \<times> 'p world) outcome) \<Rightarrow> string \<Rightarrow> 'p world \<Rightarrow> (response \<times> 'p world) outcome" where
  "simple_action act name w =
     (case findService name w of
        (Inl e, w1) \<Rightarrow> Done (writeError e, w1)
      | (Inr s, w1) \<Rightarrow>
          bindO (act s w1) (\<lambda>(err, w2).
          case err of
            Some er \<Rightarrow> Done (writeError \<lparr>re_Code = StatusBadRequest, re_Message = error_text er\<rparr>, w2)
          | None \<Rightarrow> Done (writeJson OkBody, w2)))"

definition disableService :: "'p provider \<Rightarrow> string \<Rightarrow> 'p world \<Rightarrow> (response \<times> 'p world) outcome" where
  "disableService P = simple_action (Disable P)"

definition restartService :: "'p provider \<Rightarrow> string \<Rightarrow> 'p world \<Rightarrow> (response \<times> 'p world) outcome" where
  "restartService P = simple_action (Restart P)"

definition clearService :: "'p provider \<Rightarrow> string \<Rightarrow> 'p world \<Rightarrow> (response \<times> 'p world) outcome" where
  "clearService P name w =
     (case findService name w of
        (Inl e, w1) \<Rightarrow> Done (writeError e, w1)
      | (Inr s, w1) \<Rightarrow> bindO (Clear P s w1) (\<lambda>w2. Done (writeJson OkBody, w2)))"

section \<open>Routes and authentication\<close>

datatype endpoint =
    EpManager | EpManagerLog | EpServices | EpService | EpEnable | EpDisable | EpClear | EpRestart | EpLog

text \<open>\<open>NewHandler\<close>: the routes it registers.\<close>

definition handler_routes :: "(string \<times> endpoint \<times> http_method) list" where
  "handler_routes =
     [(''/'', EpManager, GET), (''/log'', EpManagerLog, GET), (''/services'', EpServices, GET),
      (''/services/{service}'', EpService, GET), (''/services/{service}/enable'', EpEnable, POST),
      (''/services/{service}/disable'', EpDisable, POST), (''/services/{service}/clear'', EpClear, POST),
      (''/services/{service}/restart'', EpRestart, POST), (''/services/{service}/log'', EpLog, GET)]"

definition changes_state :: "endpoint \<Rightarrow> bool" where
  "changes_state ep \<longleftrightarrow> ep \<in> {EpEnable, EpDisable, EpClear, EpRestart}"

text \<open>\<open>MyHandler.ServeHTTP\<close> up to the handlers: \<open>None\<close> when the request goes on to them.\<close>

definition needAuth :: "string \<Rightarrow> response" where
  "needAuth name =
     http_Error ''Unauthorized'' StatusUnauthorized
       \<lparr>rs_Status = StatusOK, rs_Etag = None, rs_LastModified = None, rs_ContentType = None,
        rs_Authenticate = Some (''Basic realm='' @ quoted name), rs_Body = NoBody\<rparr>"

record auth =
  au_auth :: bool
  au_passwd :: "(string \<times> string) list"
  au_name :: string

definition authenticate :: "(string \<Rightarrow> string \<Rightarrow> bool) \<Rightarrow> auth \<Rightarrow> request \<Rightarrow> response option" where
  "authenticate bcrypt h r =
     (if au_auth h then
        case rq_BasicAuth r of
          None \<Rightarrow> Some (needAuth (au_name h))
        | Some (user, pass) \<Rightarrow>
            (case map_of (au_passwd h) user of
               None \<Rightarrow> Some (needAuth (au_name h))
             | Some enc \<Rightarrow> if bcrypt enc pass then None else Some (needAuth (au_name h)))
      else None)"

text \<open>\<open>loadPasswdFile\<close>: the records the CSV reader returns until the end of the file or an error.\<close>

fun load_passwd :: "(string + string \<times> string) list \<Rightarrow> auth \<Rightarrow> string option \<times> auth" where
  "load_passwd [] h = (None, h\<lparr>au_auth := True\<rparr>)"
| "load_passwd (Inl e # rest) h = (Some e, h)"
| "load_passwd (Inr (user, enc) # rest) h =
     load_passwd rest (h\<lparr>au_passwd := AList.update user enc (au_passwd h)\<rparr>)"

section \<open>Lemmas\<close>

lemma poll_request_etag:
  "rq_PollEtag r = etag_of sn \<Longrightarrow> poll_request r = Some (sn, poll_seconds (rq_PollTime r))"
proof -
  assume a: "rq_PollEtag r = etag_of sn"
  have "butlast (tl (etag_of sn)) = format_int16 (sint sn)"
    by (simp add: etag_of_def butlast_append)
  moreover have "etag_of sn ! (length (etag_of sn) - 1) = quote"
    by (simp add: etag_of_def nth_append)
  moreover have "2 \<le> length (etag_of sn)" "etag_of sn ! 0 = quote"
    by (simp_all add: etag_of_def)
  ultimately show ?thesis
    by (simp add: poll_request_def a parse_format_serial)
qed

lemma etag_of_inj: "etag_of a = etag_of b \<longleftrightarrow> a = b"
  by (auto simp: etag_of_def format_int16_inj)

lemma cached_cases:
  "cached r etag ts zone v = notModified \<or>
   rs_Status (cached r etag ts zone v) = StatusOK \<and> rs_Body (cached r etag ts zone v) = v \<and>
   rs_Etag (cached r etag ts zone v) = Some etag \<and> rq_IfNoneMatch r \<noteq> etag"
  by (auto simp: cached_def writeJson_def condCheckGet_def)

section \<open>Serving a request\<close>

text \<open>
  What happens while a handler is blocked in a watch of the manager, its list, its log, a service or a log of
  a service, or between two reads of a service; and the offset of the local time.
\<close>

record 'p waits =
  wt_Serial :: "int64 \<Rightarrow> duration \<Rightarrow> 'p world \<Rightarrow> 'p world"
  wt_Services :: "int64 \<Rightarrow> duration \<Rightarrow> 'p world \<Rightarrow> 'p world"
  wt_Log :: "int64 \<Rightarrow> duration \<Rightarrow> 'p world \<Rightarrow> 'p world"
  wt_Service :: "sid \<Rightarrow> int64 \<Rightarrow> duration \<Rightarrow> 'p world \<Rightarrow> 'p world"
  wt_ServiceLog :: "sid \<Rightarrow> int64 \<Rightarrow> duration \<Rightarrow> 'p world \<Rightarrow> 'p world"
  wt_later :: "sid \<Rightarrow> 'p world \<Rightarrow> nat \<Rightarrow> 'p world"
  wt_zone :: int

definition handle ::
  "'p provider \<Rightarrow> 'p waits \<Rightarrow> nat \<Rightarrow> endpoint \<Rightarrow> string \<Rightarrow> request \<Rightarrow> 'p world \<Rightarrow>
   (response \<times> 'p world) option outcome" where
  "handle P W n ep name r w =
     (case ep of
        EpManager \<Rightarrow> Done (Some (getManager (wt_Serial W) r w))
      | EpManagerLog \<Rightarrow> Done (Some (getManagerLog (wt_zone W) (wt_Log W) r w))
      | EpServices \<Rightarrow> Done (Some (listServices (wt_Services W) r w))
      | EpService \<Rightarrow> Done (getService n (wt_Service W) (wt_later W) name r w)
      | EpEnable \<Rightarrow> bindO (enableService P name w) (\<lambda>x. Done (Some x))
      | EpDisable \<Rightarrow> bindO (disableService P name w) (\<lambda>x. Done (Some x))
      | EpClear \<Rightarrow> bindO (clearService P name w) (\<lambda>x. Done (Some x))
      | EpRestart \<Rightarrow> bindO (restartService P name w) (\<lambda>x. Done (Some x))
      | EpLog \<Rightarrow> Done (Some (getLog (wt_zone W) (wt_ServiceLog W) name r w)))"

text \<open>\<open>json.Marshal\<close> of the value of a response: the error, if there is one.\<close>

definition marshalled :: "(body \<Rightarrow> string option) \<Rightarrow> response \<Rightarrow> response" where
  "marshalled marshal r =
     (if rs_Body r = NoBody then r
      else case marshal (rs_Body r) of
             None \<Rightarrow> r
           | Some e \<Rightarrow> internalError e (r\<lparr>rs_ContentType := None\<rparr>))"

text \<open>
  \<open>Handler.ServeHTTP\<close>: the router is given the routes and the request and answers itself or names the handler
  and the variable \<open>service\<close> of the path.
\<close>

definition Handler_ServeHTTP ::
  "((string \<times> endpoint \<times> http_method) list \<Rightarrow> request \<Rightarrow> response + endpoint \<times> string) \<Rightarrow> (body \<Rightarrow> string option) \<Rightarrow>
   'p provider \<Rightarrow> 'p waits \<Rightarrow> nat \<Rightarrow> request \<Rightarrow> 'p world \<Rightarrow> (response \<times> 'p world) option outcome" where
  "Handler_ServeHTTP mux marshal P W n r w =
     (case mux handler_routes r of
        Inl answer \<Rightarrow> Done (Some (answer, w))
      | Inr (ep, name) \<Rightarrow>
          bindO (handle P W n ep name r w)
            (\<lambda>x. Done (map_option (\<lambda>(resp, w1). (marshalled marshal resp, w1)) x)))"

definition MyHandler_ServeHTTP ::
  "(string \<Rightarrow> string \<Rightarrow> bool) \<Rightarrow> auth \<Rightarrow> ((string \<times> endpoint \<times> http_method) list \<Rightarrow> request \<Rightarrow> response + endpoint \<times> string) \<Rightarrow>
   (body \<Rightarrow> string option) \<Rightarrow> 'p provider \<Rightarrow> 'p waits \<Rightarrow> nat \<Rightarrow> request \<Rightarrow> 'p world \<Rightarrow>
   (response \<times> 'p world) option outcome" where
  "MyHandler_ServeHTTP bcrypt h mux marshal P W n r w =
     (case authenticate bcrypt h r of
        Some answer \<Rightarrow> Done (Some (answer, w))
      | None \<Rightarrow> Handler_ServeHTTP mux marshal P W n r w)"

end
