(* ===== verification/Snapshot.thy ===== *)
theory Snapshot
  imports Effects Server
begin

text \<open>
  What a serial number of a service is good for.  Every operation gives each service that it shows differently
  a number the manager has not used before, so as long as the \<open>2 ^ 64\<close> numbers last, two readings with the same number saw
  the same state, and so did every reading in between.  The loop of \<open>getService\<close> relies on this.
\<close>

section \<open>Numbers since a moment\<close>

text \<open>\<open>u\<close> carries one of the first \<open>n\<close> numbers given out after \<open>v\<close>.\<close>

definition numbered :: "'p world \<Rightarrow> nat \<Rightarrow> 'p world \<Rightarrow> sid \<Rightarrow> bool" where
  "numbered v n w u \<longleftrightarrow> (\<exists>j. 1 \<le> j \<and> j \<le> n \<and> s_serial (svc w u) = m_serial (mgr v) + of_nat j)"

text \<open>From \<open>v\<close> to \<open>w\<close>, \<open>n\<close> numbers were given out and \<open>k\<close> readings of the clock taken.\<close>

definition signed_in :: "nat \<Rightarrow> nat \<Rightarrow> 'p world \<Rightarrow> sid set \<Rightarrow> sid set \<Rightarrow> 'p world \<Rightarrow> bool" where
  "signed_in n k v F D w \<longleftrightarrow> n \<le> k \<and> clk w = readings_after (clk v) k \<and> m_serial (mgr w) = m_serial (mgr v) + of_nat n \<and>
     (\<forall>u \<in> F. numbered v n w u) \<and>
     (\<forall>u. u \<notin> D \<and> has_mgr (svc w u) \<longrightarrow> numbered v n w u \<or> shown (svc w u) = shown (svc v u))"

definition signed :: "'p world \<Rightarrow> sid set \<Rightarrow> sid set \<Rightarrow> 'p world \<Rightarrow> bool" where
  "signed v F D w \<longleftrightarrow> (\<exists>n k. signed_in n k v F D w)"

lemma signed_refl: "signed_in 0 0 w {} {} w"
  by (simp add: signed_in_def)

lemma numbered_mono: "numbered v n w u \<Longrightarrow> n \<le> n' \<Longrightarrow> s_serial (svc w' u) = s_serial (svc w u) \<Longrightarrow> numbered v n' w' u"
  unfolding numbered_def by (metis le_trans)

lemma shown_serial: "shown S = shown S' \<Longrightarrow> s_serial S = s_serial S' \<and> has_mgr S = has_mgr S'"
  by (simp add: shown_def)

lemma signed_steady: "signed_in n k v F D w \<Longrightarrow> steady w w' \<Longrightarrow> \<exists>k'. signed_in n k' v F D w'"
proof -
  assume w: "signed_in n k v F D w" and q: "steady w w'"
  obtain j where "clk w' = readings_after (clk w) j" using q by (auto simp: steady_def passes_on_def)
  moreover have "shown (svc w' u) = shown (svc w u)" for u using q by (simp add: steady_def)
  moreover from this have "numbered v n w' u = numbered v n w u" "has_mgr (svc w' u) = has_mgr (svc w u)" for u
    using shown_serial [of "svc w' u" "svc w u"] by (simp_all add: numbered_def)
  moreover have "m_serial (mgr w') = m_serial (mgr w)" using q by (simp add: steady_def serials_def)
  ultimately have "signed_in n (k + j) v F D w'" using w by (simp add: signed_in_def)
  then show ?thesis by blast
qed

text \<open>\<open>s\<close> gets the last of \<open>i\<close> new numbers.\<close>

lemma signed_number:
  assumes "signed_in n k v F D w" and "0 < i" "i \<le> j" and "clk w' = readings_after (clk w) j"
    and "m_serial (mgr w') = m_serial (mgr w) + of_nat i"
    and "\<And>u. svc w' u = (if u = s then (svc w s)\<lparr>s_serial := m_serial (mgr w) + of_nat i\<rparr> else svc w u)"
  shows "signed_in (n + i) (k + j) v (insert s F) (D - {s}) w'"
proof -
  have new: "numbered v (n + i) w' s"
    using assms(1,2) by (auto simp: numbered_def assms(6) signed_in_def intro!: exI [of _ "n + i"])
  have old: "numbered v n w u \<Longrightarrow> numbered v (n + i) w' u" for u
    using new numbered_mono [of v n w u "n + i" w'] by (cases "u = s") (simp_all add: assms(6))
  show ?thesis
    unfolding signed_in_def
  proof (intro conjI ballI allI impI)
    show "u \<in> insert s F \<Longrightarrow> numbered v (n + i) w' u" for u
      using assms(1) new old by (auto simp: signed_in_def)
    fix u assume "u \<notin> D - {s} \<and> has_mgr (svc w' u)"
    then show "numbered v (n + i) w' u \<or> shown (svc w' u) = shown (svc v u)"
      using assms(1) new old by (cases "u = s") (auto simp: signed_in_def assms(6))
  qed (use assms(1,3-5) in \<open>simp_all add: signed_in_def\<close>)
qed

lemma clk_bumpSerial [simp]: "clk (snd (bumpSerial w)) = readings_after (clk w) 1"
  by (simp add: bumpSerial_def Let_def next_reading_after)

lemma list_changed_fields:
  "svc (list_changed s w) u = (if u = s then (svc w s)\<lparr>s_serial := m_serial (mgr w) + 2\<rparr> else svc w u)"
  "m_serial (mgr (list_changed s w)) = m_serial (mgr w) + 2"
  "clk (list_changed s w) = readings_after (clk w) 3"
  by (simp_all add: list_changed_def set_listSerial_def set_listStamp_def Let_def case_prod_beta next_reading_after numeral_3_eq_3)

interpretation signed: marked_list P "\<lambda>_. True" signed for P :: "'p provider"
proof unfold_locales
  fix v w w' :: "'p world" and F D F' D' :: "sid set" and s :: sid and p :: 'p and i :: int and f :: "'p service \<Rightarrow> 'p service"
  assume "signed v F D w"
  then obtain n k where w: "signed_in n k v F D w" by (auto simp: signed_def)
  show "signed v F' D' w" if "F' \<subseteq> F" "D \<subseteq> D'"
    using w that unfolding signed_def signed_in_def by (meson subsetD)
  have steady: "signed v F D x" if "steady w x" for x
    using signed_steady [OF w that] by (auto simp: signed_def)
  show "signed v F D w'" if "quiet w w'" using steady that by (simp add: quiet_def)
  show "signed v F D (upd s (\<lambda>S. S\<lparr>starts := starts S + 1\<rparr>) w')" if "record_start s w = Done w'"
    by (rule steady, rule steady_trans [OF steady_record_start [OF that]]) (rule steady_steps)
  show "signed v F D (upd s (\<lambda>S. S\<lparr>starts := 0\<rparr>) w)" "signed v F D (upd s (\<lambda>S. S\<lparr>prov := p\<rparr>) w)"
    "signed v F D (upd s (\<lambda>S. S\<lparr>starts := 0, startTimes := if 0 < i then replicate (nat i) zero_time else [], rateLimit := i\<rparr>) w)"
    by (rule steady, rule steady_steps)+
  show "signed v F D (upd s (\<lambda>_. service_defaults P p) w)" if "s \<notin> F"
  proof -
    have "numbered v n (upd s g w) u" if "numbered v n w u" "u \<noteq> s" for u g
      using that by (auto simp: numbered_def)
    then have "signed_in n k v F D (upd s (\<lambda>_. service_defaults P p) w)"
      using w \<open>s \<notin> F\<close> unfolding signed_in_def by (auto simp: service_defaults_def)
    then show ?thesis by (auto simp: signed_def)
  qed
  show "signed v F (D - {s}) w" if "\<not> has_mgr (svc w s)"
    using w that unfolding signed_def signed_in_def by (metis Diff_iff singletonD)
  show "signed v F D (upd s f w)" if "s_serial (f (svc w s)) = s_serial (svc w s) \<or> s \<notin> F" "s \<in> F \<union> D"
  proof -
    have "numbered v n (upd s f w) u" if "numbered v n w u" "u \<noteq> s \<or> u \<in> F" for u
      using that \<open>s_serial (f (svc w s)) = s_serial (svc w s) \<or> s \<notin> F\<close> by (auto simp: numbered_def)
    then have "signed_in n k v F D (upd s f w)"
      using w \<open>s \<in> F \<union> D\<close> by (auto simp: signed_in_def)
    then show ?thesis by (auto simp: signed_def)
  qed
  show "signed v (insert s F) (D - {s}) (upd s (\<lambda>S. S\<lparr>s_serial := fst (bumpSerial w)\<rparr>) (snd (bumpSerial w)))"
    unfolding signed_def by (intro exI, rule signed_number [OF w, of 1 1]) simp_all
  show "signed v (insert s F) (D - {s}) (list_changed s w)"
    unfolding signed_def by (intro exI, rule signed_number [OF w, of 2 3]) (simp_all add: list_changed_fields)
qed

section \<open>All operations\<close>

lemma shutdown_signed:
  assumes "inv v" and "Shutdown P v = Done w"
  shows "signed v {} {} w"
proof -
  have "signed v {} {} v" using signed_refl [of v] by (auto simp: signed_def)
  then have "signed v {} UNIV v" by (rule signed.R_weaken) simp_all
  from yields_DoneD [OF signed.R_Shutdown [OF this] assms(2)] obtain n k where "signed_in n k v {} UNIV w"
    by (auto simp: signed_def)
  moreover have "inv w" "managed w = []" using Shutdown_spec [OF assms(1), of P] assms(2) by simp_all
  then have "\<not> has_mgr (svc w u)" for u using inv_parts(2) [of w] by (simp add: graph_ok_def)
  ultimately show ?thesis unfolding signed_def signed_in_def by blast
qed

lemma exec_signed:
  assumes "inv v" and "exec P a v = Done w"
  shows "\<exists>n k. signed_in n k v {} {} w"
proof -
  have r: "signed v {} {} v" using signed_refl [of v] by (auto simp: signed_def)
  have "signed v {} {} w"
  proof (cases "a = OpShutdown")
    case True
    then show ?thesis using shutdown_signed [OF assms(1)] assms(2) by simp
  next
    case False
    then show ?thesis
      using signed.R_exec_list [OF _ r, of a P] signed.R_exec_service [OF _ False provided_any r, of P] assms(2)
      by (cases "changes_list a") simp_all
  qed
  then show ?thesis by (simp add: signed_def)
qed

lemma numbered_trans:
  assumes "signed_in n k u {} {} v" and "numbered v n' w s"
  shows "numbered u (n + n') w s"
proof -
  obtain j where j: "1 \<le> j" "j \<le> n'" "s_serial (svc w s) = m_serial (mgr v) + of_nat j"
    using assms(2) by (auto simp: numbered_def)
  then have "s_serial (svc w s) = m_serial (mgr u) + of_nat (n + j)"
    using assms(1) by (simp add: signed_in_def)
  then show ?thesis using j unfolding numbered_def by (metis add_le_cancel_left trans_le_add2)
qed

lemma numbered_same: "numbered u n v s \<Longrightarrow> shown (svc w s) = shown (svc v s) \<Longrightarrow> numbered u (n + n') w s"
  using numbered_mono [of u n v s "n + n'" w] shown_serial by fastforce

lemma signed_trans:
  assumes "signed_in n k u {} {} v" and "signed_in n' k' v {} {} w"
  shows "signed_in (n + n') (k + k') u {} {} w"
  unfolding signed_in_def
proof (intro conjI ballI allI impI)
  fix s assume s: "s \<notin> {} \<and> has_mgr (svc w s)"
  show "numbered u (n + n') w s \<or> shown (svc w s) = shown (svc u s)"
  proof (cases "numbered v n' w s")
    case True
    then show ?thesis using numbered_trans [OF assms(1)] by blast
  next
    case False
    then have same: "shown (svc w s) = shown (svc v s)" using assms(2) s by (auto simp: signed_in_def)
    then have "has_mgr (svc v s)" using s shown_serial by fastforce
    then show ?thesis using assms(1) same numbered_same [OF _ same] by (auto simp: signed_in_def)
  qed
qed (use assms in \<open>simp_all add: signed_in_def\<close>)

lemma reachable_signed:
  assumes "reachable P A v w" and "inv v"
  shows "\<exists>n k. signed_in n k v {} {} w"
  using assms
proof induction
  case reachable_start
  show ?case using signed_refl by blast
next
  case (reachable_step w a w')
  have "inv w" by (rule reachable_inv [OF reachable_step.hyps(1) reachable_step.prems])
  with exec_signed [OF this reachable_step.hyps(4)] reachable_step.IH [OF reachable_step.prems]
  show ?case using signed_trans by blast
qed

section \<open>A number identifies a state\<close>

lemma same_number_same_state:
  assumes "signed_in n k u {} {} x" "signed_in n' k' x {} {} y" "signed_in n'' k'' y {} {} z"
    and "\<not> has_mgr (svc u s)" "has_mgr (svc x s)" "has_mgr (svc y s)" "has_mgr (svc z s)"
    and "n + n' + n'' < 2 ^ 64" and "s_serial (svc z s) = s_serial (svc x s)"
  shows "shown (svc y s) = shown (svc x s)"
proof (rule ccontr)
  assume d: "shown (svc y s) \<noteq> shown (svc x s)"
  have "numbered u n x s" using assms(1,4,5) by (auto simp: signed_in_def dest: shown_serial)
  then obtain a where a: "a \<le> n" "s_serial (svc x s) = m_serial (mgr u) + of_nat a" by (auto simp: numbered_def)
  have y: "numbered x n' y s" using assms(2,6) d by (auto simp: signed_in_def)
  have "numbered x (n' + n'') z s"
    using numbered_trans [OF assms(2)] numbered_same [OF y] assms(3,7) by (auto simp: signed_in_def)
  then obtain b where b: "1 \<le> b" "b \<le> n' + n''" "s_serial (svc z s) = m_serial (mgr x) + of_nat b"
    by (auto simp: numbered_def)
  have "(of_nat a :: int64) = of_nat (n + b)"
    using a(2) b(3) assms(1,9) by (simp add: signed_in_def)
  then have "a = n + b"
    using a(1) b(1,2) assms(8)
    by (simp add: word_of_nat_eq_iff take_bit_nat_eq_self del: of_nat_add)
  then show False using a(1) b(1) by simp
qed

lemma new_world_clock: "passes_on c (clk (new_world name V c r))"
  by (simp add: new_world_def NewManager_def Let_def case_prod_beta NewLog_def next_reading_after)

section \<open>Histories\<close>

text \<open>
  \<open>W i\<close> is the world at the \<open>i\<close>-th of some moments, between which any operations run.  Two successive readings of
  the clock differ by a nanosecond at least, so that no more numbers are given out than nanoseconds pass.
\<close>

lemma readings_pass:
  assumes "\<And>i. c i < c (Suc i)"
  shows "c i + int k \<le> c (i + k)"
proof (induction k)
  case (Suc k)
  then show ?case using assms [of "i + k"] by simp
qed simp

lemma history_inv:
  assumes "inv (W 0)" and "\<And>i. reachable P A (W i) (W (Suc i))"
  shows "inv (W i)"
  by (induction i) (use assms reachable_inv in blast)+

lemma history_signed:
  assumes "inv (W 0)" and "\<And>i. reachable P A (W i) (W (Suc i))"
  shows "\<exists>n k. signed_in n k (W i) {} {} (W (i + d))"
proof (induction d)
  case 0
  show ?case using signed_refl [of "W i"] by auto
next
  case (Suc d)
  have "\<exists>n k. signed_in n k (W (i + d)) {} {} (W (i + Suc d))"
    using reachable_signed [OF assms(2) history_inv [OF assms], of "i + d"] by simp
  then show ?case using Suc.IH signed_trans by blast
qed

lemma same_number_same_history:
  assumes w: "inv w" "\<And>u. \<not> has_mgr (svc w u)" "reachable P A w (W 0)" "\<And>i. reachable P A (W i) (W (Suc i))"
    and clock: "\<And>i. clk w i < clk w (Suc i)" "now (W m) - now w < 2 ^ 64"
    and s: "\<And>i. i \<le> m \<Longrightarrow> has_mgr (svc (W i) s)"
    and "i \<le> k" "k \<le> j" "j \<le> m" and "s_serial (svc (W j) s) = s_serial (svc (W i) s)"
  shows "shown (svc (W k) s) = shown (svc (W i) s)"
proof -
  have i0: "inv (W 0)" by (rule reachable_inv [OF w(3,1)])
  note steps = history_signed [where W = W, OF i0 w(4)]
  obtain n0 k0 where 0: "signed_in n0 k0 w {} {} (W 0)" using reachable_signed [OF w(3,1)] by blast
  obtain n1 k1 where 1: "signed_in n1 k1 (W 0) {} {} (W i)" using steps [of 0 i] by auto
  obtain n2 k2 where 2: "signed_in n2 k2 (W i) {} {} (W k)" using steps [of i "k - i"] assms(8) by auto
  obtain n3 k3 where 3: "signed_in n3 k3 (W k) {} {} (W j)" using steps [of k "j - k"] assms(9) by auto
  obtain n4 k4 where 4: "signed_in n4 k4 (W j) {} {} (W m)" using steps [of j "m - j"] assms(10) by auto
  note 01 = signed_trans [OF 0 1]
  have all: "signed_in (n0 + n1 + n2 + n3 + n4) (k0 + k1 + k2 + k3 + k4) w {} {} (W m)"
    by (rule signed_trans [OF signed_trans [OF signed_trans [OF 01 2] 3] 4])
  then have "now (W m) = clk w (k0 + k1 + k2 + k3 + k4)" by (simp add: signed_in_def readings_after_def)
  then have "int (k0 + k1 + k2 + k3 + k4) < 2 ^ 64"
    using readings_pass [of "clk w" 0 "k0 + k1 + k2 + k3 + k4", OF clock(1)] clock(2) by simp
  then have "n0 + n1 + n2 + n3 < 2 ^ 64" using all by (simp add: signed_in_def)
  with same_number_same_state [OF 01 2 3 w(2)] s assms(8-11) show ?thesis by simp
qed

text \<open>With the number of the manager, no service has changed.\<close>

lemma same_serial_same_services:
  assumes "inv w" and "reachable P A w v" and "\<And>i. clk w i < clk w (Suc i)" and "now v - now w < 2 ^ 64"
    and "m_serial (mgr v) = m_serial (mgr w)" and "s \<in> set (managed v)"
  shows "s \<in> set (managed w) \<and> shown (svc v s) = shown (svc w s)"
proof -
  obtain n k where v: "signed_in n k w {} {} v" using reachable_signed [OF assms(2,1)] by blast
  then have "n \<le> k" "now v = clk w k" "(of_nat n :: int64) = 0"
    using assms(5) by (simp_all add: signed_in_def readings_after_def)
  moreover have "clk w 0 + int k \<le> clk w k" using readings_pass [of "clk w" 0 k, OF assms(3)] by simp
  ultimately have "n < 2 ^ 64" "2 ^ 64 dvd n" using assms(4) by (simp_all add: word_of_nat_eq_0_iff)
  then have "n = 0" by (metis dvd_imp_le leD neq0_conv)
  moreover have "graph_ok v" "graph_ok w" using inv_parts(2) reachable_inv [OF assms(2,1)] assms(1) by blast+
  ultimately show ?thesis
    using v assms(6) shown_serial [of "svc v s" "svc w s"] by (auto simp: signed_in_def numbered_def graph_ok_def)
qed

section \<open>The loop of \<open>getService\<close>\<close>

text \<open>It ends once the number stays for two turns, with what was shown at one moment.\<close>

lemma read_service_ends:
  assumes "\<And>t. t + 10 \<le> m + 20 \<Longrightarrow> Serial (hist t) = Serial (hist (t + 10)) \<Longrightarrow> read_entry hist t = read_entry (\<lambda>_. hist t) 0"
    and "\<And>i. m \<le> i \<Longrightarrow> i \<le> m + 20 \<Longrightarrow> Serial (hist i) = Serial (hist m)"
  shows "\<exists>n t i. i \<le> t \<and> t \<le> m + 20 \<and> read_service n hist 0 = Some (read_entry (\<lambda>_. hist i) 0, t)"
proof -
  have "\<exists>n u i. i \<le> u \<and> u \<le> m + 20 \<and> read_service n hist t = Some (read_entry (\<lambda>_. hist i) 0, u)" if "t \<le> m + 10" for t
    using that
  proof (induction "m + 10 - t" arbitrary: t rule: less_induct)
    case less
    show ?case
    proof (cases "Serial (hist t) = Serial (hist (t + 10))")
      case True
      then have "read_service (Suc 0) hist t = Some (read_entry (\<lambda>_. hist t) 0, t + 10)"
        using assms(1) [OF _ True] less.prems by simp
      then show ?thesis using less.prems by (intro exI [of _ "Suc 0"] exI [of _ "t + 10"] exI [of _ t]) simp
    next
      case False
      have t: "t < m" using False assms(2) [of t] assms(2) [of "t + 10"] less.prems by (cases "m \<le> t") simp_all
      then have "m + 10 - (t + 11) < m + 10 - t" "t + 11 \<le> m + 10" by simp_all
      from less.hyps [OF this] obtain n u i where "i \<le> u" "u \<le> m + 20" "read_service n hist (t + 11) = Some (read_entry (\<lambda>_. hist i) 0, u)"
        by blast
      then show ?thesis using False by (intro exI [of _ "Suc n"] exI [of _ u] exI [of _ i]) simp
    qed
  qed
  then show ?thesis by simp
qed

lemma shown_entry:
  assumes "\<And>k. 1 \<le> k \<Longrightarrow> k \<le> 9 \<Longrightarrow> shown (hist (t + k)) = shown (hist t) \<and> \<not> stopping (hist (t + k))"
    and "\<not> stopping (hist t)"
  shows "read_entry hist t = read_entry (\<lambda>_. hist t) 0"
  using assms(1) [of 1] assms(1) [of 2] assms(1) [of 3] assms(1) [of 4] assms(1) [of 5] assms(1) [of 6] assms(1) [of 7]
    assms(1) [of 8] assms(1) [of 9] assms(2)
  by (simp add: read_entry_def shown_def Name_def Description_def Provides_def Depends_def Conflicts_def Status_def Enabled_def
      Running_def Failed_def)

end
