(* ===== verification/Serials.thy ===== *)
theory Serials
  imports Effects Watch
begin

text \<open>
  What the operations of the manager do to its serial numbers and to the condition variables of
  those that watch them.  The locale \<open>effect\<close> says when a relation between the serial numbers is kept by all
  operations that do not change the list of services, \<open>list_effect\<close> when it is kept by all; the
  interpretations are the promises that \<open>WatchSerial\<close> and \<open>WatchServices\<close> rest on.
\<close>

section \<open>Relations between the serial numbers\<close>

locale effect =
  fixes R :: "'p world \<Rightarrow> 'p world \<Rightarrow> bool"
  assumes R_trans: "R u v \<Longrightarrow> R v w \<Longrightarrow> R u w"
    and R_same: "serials w' = serials w \<Longrightarrow> R w w'"
    and R_bumped: "R w (snd (bumpSerial w))"

sublocale effect \<subseteq> marked P "\<lambda>_. True" "\<lambda>v F D w. R v w" for P :: "'p provider"
proof unfold_locales
  fix v w w' :: "'p world" and s and p :: 'p and k :: int and f :: "'p service \<Rightarrow> 'p service"
  assume w: "R v w"
  have same: "R v x" if "serials x = serials w" for x by (rule R_trans [OF w R_same [OF that]])
  have u: "R v (upd u g w)" for u g by (rule same) simp
  show "quiet w w' \<Longrightarrow> R v w'" using same [of w'] by (simp add: quiet_def steady_def)
  show "R v (upd s (\<lambda>S. S\<lparr>s_serial := fst (bumpSerial w)\<rparr>) (snd (bumpSerial w)))"
    by (rule R_trans [OF R_trans [OF w R_bumped] R_same]) simp
  show "record_start s w = Done w' \<Longrightarrow> R v (upd s (\<lambda>S. S\<lparr>starts := starts S + 1\<rparr>) w')"
    by (rule same) (simp add: steady_record_start [unfolded steady_def])
  show "R v (upd s (\<lambda>S. S\<lparr>starts := 0\<rparr>) w)" "R v (upd s f w)" "R v (upd s (\<lambda>S. S\<lparr>prov := p\<rparr>) w)"
    "R v (upd s (\<lambda>_. service_defaults P p) w)"
    "R v (upd s (\<lambda>S. S\<lparr>starts := 0, startTimes := if 0 < k then replicate (nat k) zero_time else [], rateLimit := k\<rparr>) w)"
    by (rule u)+
qed

context effect
begin

lemma R_refl: "R w w"
  by (rule R_same) simp

text \<open>Every operation but the two that change the list of services.\<close>

lemma R_exec:
  assumes "\<not> changes_list a"
  shows "yields (exec P a w) (R w)"
proof (cases "a = OpShutdown")
  case True
  then show ?thesis using R_Shutdown [OF R_refl] by simp
next
  case False
  then show ?thesis by (rule R_exec_service [OF assms _ provided_any R_refl])
qed

end

text \<open>A relation that the change of the list of services keeps as well is kept by all operations.\<close>

locale list_effect = effect +
  assumes R_list_changed: "R w (list_changed s w)"

sublocale list_effect \<subseteq> marked_list P "\<lambda>_. True" "\<lambda>v F D w. R v w" for P
  by unfold_locales (rule R_trans [OF _ R_list_changed])

context list_effect
begin

lemma R_every_exec: "yields (exec P a w) (R w)"
  by (cases "changes_list a") (simp_all add: R_exec R_exec_list R_refl)

end

section \<open>What watchers rely on\<close>

lemma announces_trans: "announces x y \<Longrightarrow> announces y z \<Longrightarrow> announces x z"
  unfolding announces_def by metis

text \<open>What watchers of the list see.\<close>

definition list_view :: "'p world \<Rightarrow> int64 \<times> condvars" where
  "list_view w = (listSerial (mgr w), cvs (mgr w))"

lemma bumpSerial_list [simp]: "listSerial (mgr (snd (bumpSerial w))) = listSerial (mgr w)"
  by (simp add: bumpSerial_def Let_def)

lemma list_changed_serials:
  "serials (list_changed s w) =
    (m_serial (mgr w) + 2, m_serial (mgr w) + 1, broadcast (broadcast (cvs (mgr w))), cleanup (mgr w),
      m_name (mgr w))"
  by (simp add: serials_def list_changed_def set_listSerial_def set_listStamp_def Let_def case_prod_beta)

lemma announces_broadcast_twice: "announces (c, ws) (c', broadcast (broadcast ws))"
  by (rule announces_trans [OF announces_broadcast announces_broadcast])

interpretation serial_change: list_effect "\<lambda>w w'. announces (serial_view w) (serial_view w')"
proof unfold_locales
  show "announces (serial_view w) (serial_view (list_changed s w))" for s and w :: "'a world"
    using list_changed_serials [of s w] by (simp add: serial_view_def serials_def announces_broadcast_twice)
qed (auto simp: serial_view_def serials_def announces_refl announces_broadcast intro: announces_trans)

interpretation list_change: list_effect "\<lambda>w w'. announces (list_view w) (list_view w')"
proof unfold_locales
  show "announces (list_view w) (list_view (list_changed s w))" for s and w :: "'a world"
    using list_changed_serials [of s w] by (simp add: list_view_def serials_def announces_broadcast_twice)
qed (auto simp: list_view_def serials_def announces_refl announces_broadcast intro: announces_trans)

interpretation list_fixed: effect "\<lambda>w w'. listSerial (mgr w') = listSerial (mgr w)"
  by unfold_locales (simp_all add: serials_def)

text \<open>The operations of the manager are operations of the owner of the counter.\<close>

definition after :: "'p provider \<times> 'p operation \<Rightarrow> 'p world \<Rightarrow> 'p world" where
  "after Pa w = (case exec (fst Pa) (snd Pa) w of Done w' \<Rightarrow> w' | _ \<Rightarrow> w)"

lemma after_Done: "exec P a w = Done w' \<Longrightarrow> after (P, a) w = w'"
  by (simp add: after_def)

lemma after_announces:
  "announces (serial_view w) (serial_view (after Pa w))" "announces (list_view w) (list_view (after Pa w))"
  using serial_change.R_every_exec [of "fst Pa" "snd Pa" w] list_change.R_every_exec [of "fst Pa" "snd Pa" w]
  by (cases "exec (fst Pa) (snd Pa) w"; simp add: after_def announces_refl)+

interpretation manager_watch: watched_counter serial_view after
  by unfold_locales (rule after_announces)

interpretation manager_list_watch: watched_counter list_view after
  by unfold_locales (rule after_announces)

section \<open>The monitor does not end\<close>

lemma bumpSerial_cleanup [simp]: "cleanup (mgr (snd (bumpSerial w))) = cleanup (mgr w)"
  by (simp add: bumpSerial_def Let_def)

lemma bumpSerial_name [simp]: "m_name (mgr (snd (bumpSerial w))) = m_name (mgr w)"
  by (simp add: bumpSerial_def Let_def)

interpretation name_fixed: list_effect "\<lambda>w w'. m_name (mgr w') = m_name (mgr w)"
proof unfold_locales
  show "m_name (mgr (list_changed s w)) = m_name (mgr w)" for s and w :: "'a world"
    using list_changed_serials [of s w] by (simp add: serials_def)
qed (simp_all add: serials_def)

interpretation cleanup_fixed: list_effect "\<lambda>w w'. cleanup (mgr w') = cleanup (mgr w)"
proof unfold_locales
  show "cleanup (mgr (list_changed s w)) = cleanup (mgr w)" for s and w :: "'a world"
    using list_changed_serials [of s w] by (simp add: serials_def)
qed (simp_all add: serials_def)

lemma reachable_cleanup:
  assumes "reachable P A w0 w" and "\<not> cleanup (mgr w0)"
  shows "\<not> cleanup (mgr w)"
  using assms
proof induction
  case (reachable_step w a w')
  then show ?case using yields_DoneD [OF cleanup_fixed.R_every_exec] by metis
qed simp

lemma monitor_round_finish: "monitor_round P w = Done (finish, w') \<Longrightarrow> \<not> cleanup (mgr w) \<Longrightarrow> \<not> finish"
  using yields_DoneD [OF cleanup_fixed.R_monitor_round [OF refl, of P w]]
  by (auto simp: monitor_round_def bindO_Done_iff set_monitoring_def split: if_splits)

text \<open>However many rounds it makes, whatever operations run while it sleeps.\<close>

definition runs_operations :: "'p provider \<Rightarrow> (nat \<Rightarrow> 'p world \<Rightarrow> 'p world outcome) \<Rightarrow> bool" where
  "runs_operations P others \<longleftrightarrow> (\<forall>k v. \<exists>a. others k v = exec P a v \<and> allowed a v)"

lemma monitor_goes_on:
  assumes others: "runs_operations P others"
    and "inv w" and "\<not> cleanup (mgr w)"
  shows "returns (monitor P others n w) (\<lambda>(finish, w'). \<not> finish \<and> inv w')"
  using assms(2,3)
proof (induction n arbitrary: w)
  case (Suc n)
  obtain f w1 where round: "monitor_round P w = Done (f, w1)" "inv w1"
    using monitor_round_spec [OF Suc.prems(1), of P] by (auto simp: returns_iff keeps_def)
  have w1: "\<not> f" "\<not> cleanup (mgr w1)"
    using monitor_round_finish [OF round(1) Suc.prems(2)] Suc.prems(2)
      yields_DoneD [OF cleanup_fixed.R_monitor_round [OF refl, of P w] round(1)] by auto
  obtain a where a: "others n w1 = exec P a w1" "allowed a w1" using others unfolding runs_operations_def by blast
  then obtain w2 where w2: "exec P a w1 = Done w2" "inv w2"
    using exec_spec [OF round(2), of a P] by (auto simp: returns_iff)
  then have "\<not> cleanup (mgr w2)"
    using yields_DoneD [OF cleanup_fixed.R_every_exec w2(1)] w1(2) by simp
  then show ?case
    using Suc.IH [OF w2(2)] round w1 a w2 by simp
qed simp

end
