(* ===== verification/Kept.thy ===== *)
theory Kept
  imports Effects
begin

text \<open>
  Properties of a world that only the state of the providers, the account of the starts and the clock decide.
  The locale \<open>kept\<close> says when such a property is kept by every operation.  Its first instance is \<open>timely\<close>: the slots
  of \<open>startTimes\<close> hold the times of the latest starts, and the slot that \<open>tooQuickly\<close> reads holds the last one.
\<close>

section \<open>Properties kept by every operation\<close>

definition drifts :: "'p world \<Rightarrow> 'p world \<Rightarrow> bool" where
  "drifts w w' \<longleftrightarrow> passes_on (clk w) (clk w') \<and> (\<forall>u. core (svc w' u) = core (svc w u))"

lemma drifts_refl [simp]: "drifts w w"
  by (simp add: drifts_def)

lemma drifts_quiet: "quiet w w' \<Longrightarrow> drifts w w'"
  by (simp add: drifts_def quiet_def steady_def)

lemma drifts_upd [simp]: "core (f (svc w s)) = core (svc w s) \<Longrightarrow> drifts w (upd s f w)"
  by (simp add: drifts_def)

lemma drifts_bump [simp]: "drifts w (upd s (\<lambda>S. S\<lparr>s_serial := i\<rparr>) (snd (bumpSerial w)))"
  by (simp add: drifts_def bumpSerial_def Let_def core_def)

lemma drifts_list_changed [simp]: "drifts w (list_changed s w)"
  by (simp add: drifts_def list_changed_def set_listSerial_def set_listStamp_def bumpSerial_def Let_def case_prod_beta
      core_def passes_on_trans [OF passes_on_next passes_on_trans [OF passes_on_next passes_on_next]])

locale kept =
  fixes P :: "'p provider" and good :: "'p \<Rightarrow> bool" and I :: "'p world \<Rightarrow> bool"
  assumes I_drifts: "I w \<Longrightarrow> drifts w w' \<Longrightarrow> I w'"
    and I_called: "I w \<Longrightarrow> answers P (prov (svc w s)) p \<or> good p \<Longrightarrow> I (upd s (\<lambda>S. S\<lparr>prov := p\<rparr>) w)"
    and I_counted: "I w \<Longrightarrow> record_start s w = Done w' \<Longrightarrow> I (upd s (\<lambda>S. S\<lparr>starts := starts S + 1\<rparr>) w')"
    and I_zeroed: "I w \<Longrightarrow> I (upd s (\<lambda>S. S\<lparr>starts := 0\<rparr>) w)"
    and I_limited: "I w \<Longrightarrow> I (upd s (\<lambda>S. S\<lparr>starts := 0,
      startTimes := (if 0 < k then replicate (nat k) zero_time else []), rateLimit := k\<rparr>) w)"
    and I_created: "I w \<Longrightarrow> good p \<Longrightarrow> I (upd s (\<lambda>_. service_defaults P p) w)"

sublocale kept \<subseteq> marked_list P good "\<lambda>v F D w. I w"
proof unfold_locales
  fix w w' :: "'p world" and s :: sid and p :: 'p and k :: int and f :: "'p service \<Rightarrow> 'p service"
  assume w: "I w"
  note drift = I_drifts [OF w]
  show "quiet w w' \<Longrightarrow> I w'" by (rule drift, rule drifts_quiet)
  show "core (f (svc w s)) = core (svc w s) \<Longrightarrow> I (upd s f w)" by (rule drift, rule drifts_upd)
  show "I (upd s (\<lambda>S. S\<lparr>s_serial := fst (bumpSerial w)\<rparr>) (snd (bumpSerial w)))" "I (list_changed s w)"
    by (rule drift, simp)+
qed (simp_all add: I_called I_counted I_zeroed I_limited I_created del: drifts_upd)

context kept
begin

lemma I_exec:
  assumes "provided good a" and "I w"
  shows "yields (exec P a w) I"
proof (cases "a = OpShutdown")
  case True
  then show ?thesis using R_Shutdown [of w] assms(2) by simp
next
  case False
  then show ?thesis
    using R_exec_service [OF _ False assms(1) assms(2)] R_exec_list [OF _ assms(2), of a] by blast
qed

lemma I_reachable:
  assumes "reachable P A w0 w" and "I w0" and "\<And>a. A a \<Longrightarrow> provided good a"
  shows "I w"
  using assms
proof induction
  case (reachable_step w a w')
  have "I w" using reachable_step.IH reachable_step.prems by blast
  then show ?case by (rule yields_DoneD [OF I_exec [OF reachable_step.prems(2) [OF reachable_step.hyps(2)]] reachable_step.hyps(4)])
qed

end

section \<open>The times of the starts\<close>

text \<open>
  The account of one service at the time \<open>n\<close>: there is a slot for each start the limit permits, none holds a later time,
  and after a start the slot of the last one, which \<open>tooQuickly\<close> reads, holds the latest.
\<close>

definition last_slot :: "'p service \<Rightarrow> time" where
  "last_slot S = startTimes S ! nat ((starts S - 1) mod rateLimit S)"

definition accounted :: "time \<Rightarrow> 'p service \<Rightarrow> bool" where
  "accounted n S \<longleftrightarrow> 0 \<le> starts S \<and> (0 < rateLimit S \<longrightarrow> int (length (startTimes S)) = rateLimit S \<and>
     (\<forall>t \<in> set (startTimes S). t \<le> n \<and> (0 < starts S \<longrightarrow> t \<le> last_slot S)))"

definition timely :: "'p world \<Rightarrow> bool" where
  "timely w \<longleftrightarrow> monotonic (clk w) \<and> zero_time \<le> now w \<and> (\<forall>u. accounted (now w) (svc w u))"

lemma accounted_core: "accounted n S \<Longrightarrow> core S' = core S \<Longrightarrow> n \<le> n' \<Longrightarrow> accounted n' S'"
  by (fastforce simp: accounted_def last_slot_def core_fields)

lemma monotonic_after: "monotonic c \<Longrightarrow> monotonic (readings_after c k)"
  by (simp add: monotonic_def readings_after_def)

lemma timely_drifts: "timely w \<Longrightarrow> drifts w w' \<Longrightarrow> timely w'"
proof -
  assume w: "timely w" and d: "drifts w w'"
  then obtain k where k: "clk w' = readings_after (clk w) k" by (auto simp: drifts_def passes_on_def)
  then have "now w \<le> now w'" using w by (simp add: timely_def monotonic_def readings_after_def)
  then show ?thesis
    using w d k accounted_core [where n = "now w" and n' = "now w'"]
    unfolding timely_def drifts_def by (metis monotonic_after order_trans)
qed

lemma timely_upd: "timely w \<Longrightarrow> (accounted (now w) (svc w s) \<Longrightarrow> accounted (now w) (f (svc w s))) \<Longrightarrow> timely (upd s f w)"
  by (simp add: timely_def)

lemma upd_tick: "upd s f (tick w) = tick (upd s f w)"
  by (simp add: upd_def tick_def)

lemma upd_twice: "upd s f (upd s g w) = upd s (\<lambda>S. f (g S)) w"
  by (simp add: upd_def)

lemma upd_const: "f (svc w s) = S \<Longrightarrow> upd s f w = upd s (\<lambda>_. S) w"
  by (simp add: upd_def)

text \<open>The slot that a start writes is the one that is read after it is counted.\<close>

lemma record_start_counted:
  assumes w: "timely w" and r: "record_start s w = Done w'"
  shows "timely (upd s (\<lambda>S. S\<lparr>starts := starts S + 1\<rparr>) w')"
proof (cases "0 < rateLimit (svc w s)")
  case False
  then have "w' = w" using r by (simp add: record_start_def Let_def)
  then show ?thesis using timely_upd [OF w] False by (simp add: accounted_def)
next
  case True
  let ?S = "svc w s"
  let ?i = "nat (starts ?S mod rateLimit ?S)"
  let ?T = "?S\<lparr>startTimes := (startTimes ?S)[?i := now w], starts := starts ?S + 1\<rparr>"
  have S: "accounted (now w) ?S" using w by (simp add: timely_def)
  then have i: "?i < length (startTimes ?S)" "starts ?S smod rateLimit ?S = starts ?S mod rateLimit ?S"
    using True by (auto simp: accounted_def smod_int_alt_def sgn_if nat_less_iff)
  have "accounted (now w) ?T"
    using S True i(1) by (auto simp: accounted_def last_slot_def dest!: set_update_subset_insert [THEN subsetD])
  then have "timely (upd s (\<lambda>_. ?T) w)" by (rule timely_upd [OF w])
  then have T: "timely (tick (upd s (\<lambda>_. ?T) w))" by (rule timely_drifts [OF _ drifts_quiet [OF quiet_steps(1)]])
  have "w' = tick (upd s (\<lambda>S. S\<lparr>startTimes := (startTimes S)[?i := now w]\<rparr>) w)"
    using r True i(2) unfolding record_start_def Let_def by (simp split: if_splits)
  then have "upd s (\<lambda>S. S\<lparr>starts := starts S + 1\<rparr>) w' = tick (upd s (\<lambda>_. ?T) w)"
    by (simp only: upd_tick upd_twice) (rule arg_cong [where f = tick], rule upd_const, simp)
  then show ?thesis by (simp only: T)
qed

interpretation timely: kept P "\<lambda>_. True" timely for P :: "'p provider"
proof unfold_locales
  fix w w' :: "'p world" and s :: sid and p :: 'p and k :: int
  assume w: "timely w"
  note upd = timely_upd [OF w]
  show "drifts w w' \<Longrightarrow> timely w'" by (rule timely_drifts [OF w])
  show "record_start s w = Done w' \<Longrightarrow> timely (upd s (\<lambda>S. S\<lparr>starts := starts S + 1\<rparr>) w')"
    by (rule record_start_counted [OF w])
  show "timely (upd s (\<lambda>S. S\<lparr>prov := p\<rparr>) w)"
    by (rule upd) (simp add: accounted_def last_slot_def)
  show "timely (upd s (\<lambda>S. S\<lparr>starts := 0\<rparr>) w)"
    by (rule upd) (simp add: accounted_def)
  have "zero_time \<le> now w" using w by (simp add: timely_def)
  then show "timely (upd s (\<lambda>S. S\<lparr>starts := 0, startTimes := if 0 < k then replicate (nat k) zero_time else [], rateLimit := k\<rparr>) w)"
    "timely (upd s (\<lambda>_. service_defaults P p) w)"
    by (intro upd; simp add: accounted_def service_defaults_def)+
qed

text \<open>What is refused.\<close>

lemma last_slot_Max: "accounted n S \<Longrightarrow> 0 < rateLimit S \<Longrightarrow> 0 < starts S \<Longrightarrow> last_slot S = Max (set (startTimes S))"
proof -
  assume S: "accounted n S" "0 < rateLimit S" "0 < starts S"
  then have "nat ((starts S - 1) mod rateLimit S) < length (startTimes S)"
    by (simp add: accounted_def nat_less_iff)
  then have "last_slot S \<in> set (startTimes S)" by (simp add: last_slot_def)
  moreover have "\<forall>t \<in> set (startTimes S). t \<le> last_slot S" using S by (simp add: accounted_def)
  ultimately show ?thesis by (intro Max_eqI [symmetric]) simp_all
qed

lemma tooQuickly_last:
  assumes w: "timely w" and S: "limited (svc w s)" "0 \<le> rateLimit (svc w s)"
  shows "\<exists>w'. tooQuickly s w = Done (if now w < Max (set (startTimes (svc w s))) + ratePeriod (svc w s)
    then Some ErrRateLimited else None, w')"
proof -
  let ?S = "svc w s" and ?n = "rateLimit (svc w s)"
  have L: "0 < ?n" "?n \<le> starts ?S" "accounted (now w) ?S" "int (length (startTimes ?S)) = ?n"
  proof -
    show "accounted (now w) ?S" using w by (simp add: timely_def)
    then show "0 < ?n" "?n \<le> starts ?S" "int (length (startTimes ?S)) = ?n"
      using S by (auto simp: limited_def accounted_def)
  qed
  have i1: "(starts ?S - 1) smod ?n = (starts ?S - 1) mod ?n"
    using L by (cases "starts ?S = 1") (simp_all add: smod_int_alt_def sgn_if)
  have i2: "0 \<le> (starts ?S - 2) smod ?n \<and> (starts ?S - 2) smod ?n < ?n"
    using L by (intro smod_index) auto
  have 1: "index_time (startTimes ?S) ((starts ?S - 1) smod ?n) = Done (last_slot ?S)"
    using L unfolding i1 by (simp add: index_time_def last_slot_def)
  obtain l2 where 2: "index_time (startTimes ?S) ((starts ?S - 2) smod ?n) = Done l2" "l2 \<in> set (startTimes ?S)"
    using i2 L(4) by (simp add: index_time_def nat_less_iff)
  then have "l2 \<le> last_slot ?S" using L by (simp add: accounted_def)
  moreover have "now w \<le> now (tick w)" using w by (simp add: timely_def reading_le_next)
  ultimately show ?thesis
    using 1 2(1) L by (auto simp: tooQuickly_def Let_def last_slot_Max [OF L(3)])
qed

text \<open>A start makes its own time the latest.\<close>

lemma record_start_Max:
  assumes w: "timely w" and r: "record_start s w = Done w'" and l: "0 < rateLimit (svc w s)"
  shows "Max (set (startTimes (svc w' s))) = now w"
proof -
  let ?S = "svc w s" and ?i = "nat (starts (svc w s) smod rateLimit (svc w s))"
  have "svc w' s = ?S\<lparr>startTimes := (startTimes ?S)[?i := now w]\<rparr>" and i: "?i < length (startTimes ?S)"
    using r l by (auto simp: record_start_def Let_def split: if_splits)
  moreover have "t \<le> now w" if "t \<in> set ((startTimes ?S)[?i := now w])" for t
    using set_update_subset_insert [of "startTimes ?S" ?i "now w"] that w l by (auto simp: timely_def accounted_def)
  moreover have "now w \<in> set ((startTimes ?S)[?i := now w])" by (rule set_update_memI [OF i])
  ultimately show ?thesis by (simp add: Max_eqI)
qed

end
