(* ===== verification/Outcomes.thy ===== *)
theory Outcomes
  imports Effects
begin

text \<open>
  What the attempt to start one service comes to, exactly: either nothing of what is recorded of its runs changes, or
  \<open>Start\<close> of its provider is called once and its answer decides.  The cascade that follows leaves what runs alone.
\<close>

section \<open>What is recorded of the runs of a service\<close>

definition runs_of :: "'p service \<Rightarrow> _" where
  "runs_of S = ((running S, failed S, err S, starts S, prov S),
     (enabled S, stopping S, restart S, rateLimit S), parents S, incompat S)"

definition alike :: "'p service \<Rightarrow> 'p service \<Rightarrow> bool" where
  "alike S S' \<longleftrightarrow> runs_of S' = runs_of S"

lemma alike_fields:
  assumes "alike S S'"
  shows "running S' = running S" "failed S' = failed S" "err S' = err S" "starts S' = starts S" "prov S' = prov S"
    "enabled S' = enabled S" "stopping S' = stopping S" "restart S' = restart S" "rateLimit S' = rateLimit S"
    "parents S' = parents S" "incompat S' = incompat S"
  using assms by (simp_all add: alike_def runs_of_def)

lemma alike_refl [simp]: "alike S S"
  by (simp add: alike_def)

lemma alike_trans: "alike S T \<Longrightarrow> alike T U \<Longrightarrow> alike S U"
  by (simp add: alike_def)

lemma alike_upd [simp]:
  "alike S (T\<lparr>reason := r\<rparr>) = alike S T" "alike S (T\<lparr>stamp := t\<rparr>) = alike S T" "alike S (T\<lparr>s_serial := i\<rparr>) = alike S T"
  "alike S (T\<lparr>rateLog := b\<rparr>) = alike S T" "alike S (T\<lparr>startTimes := ts\<rparr>) = alike S T" "alike S (T\<lparr>in_check := b\<rparr>) = alike S T"
  "alike (S\<lparr>reason := r\<rparr>) T = alike S T" "alike (S\<lparr>stamp := t\<rparr>) T = alike S T" "alike (S\<lparr>in_check := b\<rparr>) T = alike S T"
  by (simp_all add: alike_def runs_of_def)

definition all_alike :: "'p world \<Rightarrow> 'p world \<Rightarrow> bool" where
  "all_alike w w' \<longleftrightarrow> (\<forall>u. alike (svc w u) (svc w' u))"

lemma all_alike_refl [simp]: "all_alike w w"
  by (simp add: all_alike_def)

lemma all_alike_alike: "all_alike w w' \<Longrightarrow> alike (svc w s) (svc w' s)"
  by (simp add: all_alike_def)

lemma all_alike_count:
  assumes "all_alike w w'"
  shows "all_alike (upd s (\<lambda>S. S\<lparr>starts := starts S + 1\<rparr>) w) (upd s (\<lambda>S. S\<lparr>starts := starts S + 1\<rparr>) w')"
  using assms by (simp add: all_alike_def alike_def runs_of_def)

lemma yields_two:
  "yields m (\<lambda>(a, w). Q a w) \<Longrightarrow> (\<And>a w. Q a w \<Longrightarrow> yields (g a w) R) \<Longrightarrow> yields (bindO m (\<lambda>(a, w). g a w)) R"
  by (cases m) auto

lemma all_alike_trans: "all_alike u v \<Longrightarrow> all_alike v w \<Longrightarrow> all_alike u w"
  unfolding all_alike_def by (blast intro: alike_trans)

lemma all_alike_reason: "all_alike w (upd s (\<lambda>S. S\<lparr>reason := r\<rparr>) w)"
  by (simp add: all_alike_def)

lemma all_alike_stamp: "all_alike w (stamp_now s w)"
  by (simp add: all_alike_def)

lemma all_alike_can_run: "all_alike w w' \<Longrightarrow> can_run w' s = can_run w s"
  by (simp add: all_alike_def can_run_def satisfied_def serving_def alike_fields [of "svc w u" "svc w' u" for u])

lemma bump_alike: "yields (bump s w) (all_alike w)"
  by (simp add: bump_def all_alike_def bumpSerial_def Let_def)

lemma canRun_alike: "yields (canRun s w) (\<lambda>(ok, w'). all_alike w w' \<and> ok = can_run w s)"
proof -
  have "yields (bindO (bump s (upd s (\<lambda>S. S\<lparr>reason := ''Unmet dependency''\<rparr>) w)) (\<lambda>w1. Done (False, stamp_now s w1)))
      (\<lambda>(ok, w'). all_alike w w' \<and> ok = can_run w s)" if "\<not> can_run w s"
    using that by (intro yields_next [OF bump_alike]) (simp add: all_alike_trans [OF all_alike_reason all_alike_trans [OF _ all_alike_stamp]])
  then show ?thesis
    unfolding canRun_def Let_def satisfied_list
    by (intro yields_if) (auto simp: can_run_def list_ex_iff)
qed

lemma tooQuickly_alike: "yields (tooQuickly s w) (\<lambda>(e, w'). all_alike w w' \<and> (e \<noteq> None \<longrightarrow> limited (svc w s)))"
  by (simp add: tooQuickly_def index_time_def Let_def all_alike_def limited_def)

lemma record_start_alike: "yields (record_start s w) (all_alike w)"
  by (simp add: record_start_def Let_def all_alike_def)

text \<open>\<open>Start\<close> has been called once, with the answer and the state that the provider gives.\<close>

definition tried :: "'p provider \<Rightarrow> 'p service \<Rightarrow> 'p service \<Rightarrow> bool" where
  "tried P S S' \<longleftrightarrow> starts S' = starts S + 1 \<and> prov S' = fst (snd (pStart P (prov S))) \<and>
     (case fst (pStart P (prov S)) of
        None \<Rightarrow> running S' \<and> \<not> failed S' \<and> err S' = err S
      | Some e \<Rightarrow> \<not> running S' \<and> failed S' \<and> err S' = Some e)"

lemma tried_alike: "alike S T \<Longrightarrow> tried P T U \<Longrightarrow> tried P S U"
  by (simp add: tried_def alike_fields cong: option.case_cong)

section \<open>The cascade\<close>

text \<open>What runs is left alone by every attempt.\<close>

definition runs_on :: "'p world \<Rightarrow> 'p world \<Rightarrow> bool" where
  "runs_on w w' \<longleftrightarrow> (\<forall>u. running (svc w u) \<longrightarrow> alike (svc w u) (svc w' u))"

lemma runs_on_alike: "all_alike w w' \<Longrightarrow> runs_on w w'"
  by (simp add: all_alike_def runs_on_def)

lemma runs_on_trans: "runs_on u v \<Longrightarrow> runs_on v w \<Longrightarrow> runs_on u w"
  unfolding runs_on_def by (metis alike_trans alike_fields(1))

lemma tried_runs_on: "tried P S (svc w s) \<Longrightarrow> running (svc w s) \<Longrightarrow> runs_on w w' \<Longrightarrow> tried P S (svc w' s)"
  by (simp add: runs_on_def tried_def alike_fields [of "svc w s" "svc w' s"] cong: option.case_cong)

definition outcome_of :: "'p provider \<Rightarrow> sid \<Rightarrow> 'p world \<Rightarrow> 'p world \<Rightarrow> bool" where
  "outcome_of P s w w' \<longleftrightarrow> runs_on w w' \<and>
     (if running (svc w s) \<or> \<not> can_run w s then alike (svc w s) (svc w' s)
      else tried P (svc w s) (svc w' s) \<or> limited (svc w s) \<and> alike (svc w s) (svc w' s))"

text \<open>The end of an attempt that was neither refused nor pointless: \<open>x\<close> is the world in which \<open>Start\<close> is called.\<close>

lemma attempt_outcome:
  assumes w: "\<not> running (svc w s)" "can_run w s" and x: "all_alike (upd s (\<lambda>S. S\<lparr>starts := starts S + 1\<rparr>) w) x"
    and loop: "\<And>cs d y. yields (foldO (\<lambda>c. startRecurse n P c d) cs y) (runs_on y)"
  shows "yields (let (e, w5) = prov_Start P s x in
      case e of
        Some er \<Rightarrow>
          let w6 = s_logf s (m er w5) w5; w7 = upd s (\<lambda>S. S\<lparr>reason := r er\<rparr>) w6; w8 = stamp_now s w7
          in Done (upd s (\<lambda>S. S\<lparr>err := Some er, failed := True\<rparr>) w8)
      | None \<Rightarrow>
          let w6 = stamp_now s (upd s (\<lambda>S. S\<lparr>reason := ''Started''\<rparr>) w5);
              w7 = s_logf s (m' w6) w6; w8 = upd s (\<lambda>S. S\<lparr>running := True, failed := False\<rparr>) w7;
              (cs, w9) = range_keys (children (svc w8 s)) w8
          in foldO (\<lambda>c. startRecurse n P c d) cs w9) (outcome_of P s w)"
proof -
  have X: "alike (svc w u) (svc x u)" if "u \<noteq> s" for u
    using all_alike_alike [OF x, of u] that by simp
  have s: "running (svc x s) = running (svc w s)" "err (svc x s) = err (svc w s)" "starts (svc x s) = starts (svc w s) + 1"
    "prov (svc x s) = prov (svc w s)"
    using alike_fields [OF all_alike_alike [OF x, of s]] by simp_all
  have end_of: "outcome_of P s w z" if "\<And>u. u \<noteq> s \<Longrightarrow> alike (svc x u) (svc z u)" "tried P (svc w s) (svc z s)" for z
  proof -
    have "alike (svc w u) (svc z u)" if "running (svc w u)" for u
      using w(1) that X [of u] \<open>\<And>u. u \<noteq> s \<Longrightarrow> alike (svc x u) (svc z u)\<close> [of u] by (cases "u = s") (auto intro: alike_trans)
    then show ?thesis using w that(2) by (simp add: outcome_of_def runs_on_def)
  qed
  show ?thesis
  proof (cases "fst (pStart P (prov (svc w s)))")
    case (Some er)
    then show ?thesis
      by (simp add: prov_Start_def case_prod_beta Let_def s) (rule end_of; simp add: tried_def s w)
  next
    case None
    have "yields (foldO (\<lambda>c. startRecurse n P c d) cs y) (outcome_of P s w)"
      if "\<And>u. u \<noteq> s \<Longrightarrow> alike (svc x u) (svc y u)" "tried P (svc w s) (svc y s)" for cs y
    proof (rule yields_mono [OF loop])
      fix z assume z: "runs_on y z"
      have "running (svc y s)" using that(2) None by (simp add: tried_def)
      then have t: "tried P (svc w s) (svc z s)" using tried_runs_on [OF that(2) _ z] by simp
      have "runs_on w y" using end_of [of y] that by (simp add: outcome_of_def)
      then show "outcome_of P s w z" using t w runs_on_trans [OF _ z] by (simp add: outcome_of_def)
    qed
    then show ?thesis
      using None by (simp add: prov_Start_def case_prod_beta Let_def s tried_def)
  qed
qed

lemma start_steps:
  assumes w: "\<not> running (svc w s)"
    and start: "\<And>x. can_run w s \<Longrightarrow> all_alike (upd s (\<lambda>S. S\<lparr>starts := starts S + 1\<rparr>) w) x \<Longrightarrow> yields (f x) (outcome_of P s w)"
  shows "yields (bindO (canRun s w) (\<lambda>(ok, w1).
      if \<not> ok then Done w1
      else bindO (tooQuickly s w1) (\<lambda>(e, w2).
        if e \<noteq> None then Done w2
        else bindO (record_start s w2) (\<lambda>w3. bindO (bump s (upd s (\<lambda>S. S\<lparr>starts := starts S + 1\<rparr>) w3)) f))))
    (outcome_of P s w)"
proof (rule yields_two [OF canRun_alike], elim conjE, rule yields_if)
  fix ok w1
  assume w1: "all_alike w w1" "ok = can_run w s"
  show "\<not> ok \<Longrightarrow> yields (Done w1) (outcome_of P s w)"
    using w1 by (simp add: outcome_of_def runs_on_alike all_alike_alike)
  assume "\<not> \<not> ok"
  then have can: "can_run w s" using w1 by simp
  show "yields (bindO (tooQuickly s w1) (\<lambda>(e, w2).
      if e \<noteq> None then Done w2
      else bindO (record_start s w2) (\<lambda>w3. bindO (bump s (upd s (\<lambda>S. S\<lparr>starts := starts S + 1\<rparr>) w3)) f)))
    (outcome_of P s w)"
  proof (rule yields_two [OF tooQuickly_alike], elim conjE, rule yields_if)
    fix e w2
    assume w2: "all_alike w1 w2" "e \<noteq> None \<longrightarrow> limited (svc w1 s)"
    have ww2: "all_alike w w2" by (rule all_alike_trans [OF w1(1) w2(1)])
    show "e \<noteq> None \<Longrightarrow> yields (Done w2) (outcome_of P s w)"
      using w2(2) ww2 w can
      by (simp add: outcome_of_def runs_on_alike all_alike_alike limited_def alike_fields [OF all_alike_alike [OF w1(1)]])
    show "yields (bindO (record_start s w2) (\<lambda>w3. bindO (bump s (upd s (\<lambda>S. S\<lparr>starts := starts S + 1\<rparr>) w3)) f))
      (outcome_of P s w)"
      by (intro yields_next [OF record_start_alike] yields_next [OF bump_alike] start [OF can])
        (rule all_alike_trans [OF all_alike_count [OF all_alike_trans [OF ww2]]])
  qed
qed

lemma startRecurse_outcome: "yields (startRecurse n P s d w) (outcome_of P s w)"
proof (induction n arbitrary: s d w)
  case (Suc n)
  have loop: "yields (foldO (\<lambda>c. startRecurse n P c d) cs y) (runs_on y)" for cs d y
  proof (rule yields_foldO [where I = "runs_on y"])
    show "yields (startRecurse n P c d z) (runs_on y)" if "runs_on y z" for c z
      by (rule yields_mono [OF Suc.IH]) (auto simp: outcome_of_def intro: runs_on_trans [OF that])
  qed (simp add: runs_on_alike)
  show ?case
  proof (cases "running (svc w s)")
    case True
    then show ?thesis by (simp add: outcome_of_def runs_on_alike)
  next
    case False
    then show ?thesis
      unfolding startRecurse.simps if_not_P [OF False] by (intro start_steps attempt_outcome loop)
  qed
qed simp

section \<open>Operations that end in an attempt\<close>

text \<open>The service as \<open>Clear\<close> leaves it before it tries to start it.\<close>

definition cleared :: "'p service \<Rightarrow> 'p service" where
  "cleared S = S\<lparr>starts := 0, failed := False, err := None\<rparr>"

lemma can_run_cleared:
  assumes "inv w"
  shows "can_run (upd s cleared w) s = can_run w s"
proof -
  have "serving (svc (upd s cleared w) u) = serving (svc w u)" for u
    using inv_parts(9) [OF assms, of u] by (auto simp: serving_def cleared_def)
  then have "satisfied (upd s cleared w) s = satisfied w s"
    unfolding satisfied_def by (simp add: cleared_def)
  then show ?thesis by (auto simp: can_run_def cleared_def)
qed

lemma Clear_outcome:
  assumes "inv w" and "has_mgr (svc w s)"
  shows "yields (Clear P s w) (\<lambda>w'.
    if running (svc w s) \<or> \<not> can_run w s then alike (cleared (svc w s)) (svc w' s)
    else tried P (cleared (svc w s)) (svc w' s))"
proof -
  have go: "yields (startRecurse n P s d (upd s (\<lambda>S. S\<lparr>starts := 0, failed := False, err := None\<rparr>) x)) (\<lambda>w'.
      if running (svc w s) \<or> \<not> can_run w s then alike (cleared (svc w s)) (svc w' s)
      else tried P (cleared (svc w s)) (svc w' s))" if x: "all_alike w x" for n d x
  proof (rule yields_mono [OF startRecurse_outcome])
    let ?v = "upd s (\<lambda>S. S\<lparr>starts := 0, failed := False, err := None\<rparr>) x"
    fix w' assume o: "outcome_of P s ?v w'"
    have v: "all_alike (upd s cleared w) ?v"
      using x by (simp add: all_alike_def cleared_def alike_def runs_of_def)
    have S: "alike (cleared (svc w s)) (svc ?v s)" using all_alike_alike [OF v, of s] by simp
    have run: "running (svc ?v s) = running (svc w s)"
      using alike_fields [OF S] by (simp add: cleared_def)
    have can: "can_run ?v s = can_run w s"
      by (simp only: all_alike_can_run [OF v] can_run_cleared [OF assms(1)])
    have "0 \<le> rateLimit (svc w s)" using inv_parts(6) [OF assms(1), of s] by (simp add: rate_ok_def)
    then have "\<not> limited (svc ?v s)" using alike_fields [OF S] by (simp add: limited_def cleared_def)
    then show "if running (svc w s) \<or> \<not> can_run w s then alike (cleared (svc w s)) (svc w' s)
      else tried P (cleared (svc w s)) (svc w' s)"
      using o S unfolding outcome_of_def run can by (auto intro: alike_trans tried_alike)
  qed
  show ?thesis
  proof (unfold Clear_def Let_def, rule yields_if)
    show "\<not> has_mgr (svc w s) \<Longrightarrow> yields (Done w) Q" for Q using assms(2) by simp
  qed (rule yields_next [OF bump_alike], rule go, simp add: all_alike_def)
qed

text \<open>A service that may be enabled and can run then is tried.\<close>

lemma Enable_outcome:
  assumes "inv w" and "has_mgr (svc w s)" and "\<not> enabled (svc w s)" and "satisfied w s"
    and "\<And>c. c \<in> set (incompat (svc w s)) \<Longrightarrow> \<not> enabled (svc w c)" and "s \<notin> set (incompat (svc w s))"
  shows "yields (Enable P s w) (\<lambda>(_, w'). tried P ((svc w s)\<lparr>enabled := True, starts := 0\<rparr>) (svc w' s))"
proof -
  let ?S = "(svc w s)\<lparr>enabled := True, starts := 0\<rparr>"
  let ?e = "upd s (\<lambda>S. S\<lparr>enabled := True, starts := 0\<rparr>)"
  have run: "\<not> running (svc w s)" using inv_parts(9) [OF assms(1), of s] assms(3) by blast
  have "serving (svc (?e w) u)" if "serving (svc w u)" for u
    using that assms(3) by (auto simp: serving_def)
  moreover have "parents (svc (?e w) s) = parents (svc w s)" by simp
  ultimately have "satisfied (?e w) s"
    using assms(4) unfolding satisfied_def by (simp del: svc_upd) blast
  then have can: "can_run (?e w) s"
    using assms(5,6) inv_parts(8) [OF assms(1), of s] by (auto simp: can_run_def)
  have go: "yields (startRecurse n P s d (?e x)) (\<lambda>w'. tried P ?S (svc w' s))" if x: "all_alike w x" for n d x
  proof (rule yields_mono [OF startRecurse_outcome])
    fix w' assume o: "outcome_of P s (?e x) w'"
    have v: "all_alike (?e w) (?e x)" using x by (simp add: all_alike_def alike_def runs_of_def)
    then have S: "alike ?S (svc (?e x) s)" using all_alike_alike [OF v, of s] by simp
    have "0 \<le> rateLimit (svc w s)" using inv_parts(6) [OF assms(1), of s] by (simp add: rate_ok_def)
    then have "\<not> limited (svc (?e x) s)" "\<not> running (svc (?e x) s)" "can_run (?e x) s"
      using alike_fields [OF S] run can by (simp_all add: limited_def all_alike_can_run [OF v])
    then have "tried P (svc (?e x) s) (svc w' s)" using o by (auto simp: outcome_of_def)
    then show "tried P ?S (svc w' s)" by (rule tried_alike [OF S])
  qed
  let ?w1 = "snd (range_keys (incompat (svc w s)) w)"
  have "yields (bindO (bump s ?w1) (\<lambda>w2.
      let w3 = stamp_now s (upd s (\<lambda>S. S\<lparr>reason := ''Enabled''\<rparr>) w2);
          w4 = s_logf s (''Enabling service '' @ sname (svc w3 s)) w3; w5 = ?e w4
      in bindO (startRecurse (fuel w5) P s ''Enabled service'' w5) (\<lambda>w6. Done (None, w6))))
    (\<lambda>(_, w'). tried P ?S (svc w' s))"
    unfolding Let_def
    by (rule yields_next [OF bump_alike], rule yields_next [OF go]) (simp_all add: all_alike_def)
  moreover have "find (\<lambda>c. enabled (svc ?w1 c)) (fst (range_keys (incompat (svc w s)) w)) = None"
  proof -
    have "set (fst (range_keys (incompat (svc w s)) w)) = set (incompat (svc w s))"
      using inv_parts(1) [OF assms(1)] by (simp add: base_ok_def)
    then show ?thesis using assms(5) by (simp add: find_None_iff)
  qed
  ultimately show ?thesis
    using assms(2,3) unfolding Enable_def Let_def case_prod_beta by (simp del: yields_bindO)
qed

text \<open>What the monitor makes of a service whose provider reports a fault.\<close>

lemma selfHeal_outcome:
  assumes "failed (svc w s)" "restart (svc w s)"
  shows "yields (selfHeal P s w) (outcome_of P s w)"
proof -
  let ?v = "s_logf s ''Attempting self-healing'' w"
  have "all_alike w ?v" by (simp add: all_alike_def)
  then have "can_run ?v s = can_run w s" by (rule all_alike_can_run)
  then have "outcome_of P s ?v = outcome_of P s w" by (simp add: outcome_of_def runs_on_def fun_eq_iff)
  then show ?thesis
    using startRecurse_outcome [of "fuel w" P s "''Self-healing attempt''" ?v] assms by (simp add: selfHeal_def del: s_logf_frames)
qed

lemma fault_outcome:
  assumes "inv w" and "s \<in> set (managed w)" and run: "running (svc w s)" and er: "fst (pCheck P (prov (svc w s))) = Some er"
  shows "returns (check_and_heal P s w) (\<lambda>w'. keeps w w' \<and>
    (if running (svc w' s) then restart (svc w s) \<and> starts (svc w' s) = starts (svc w s) + 1
     else failed (svc w' s) \<and>
       (starts (svc w' s) = starts (svc w s) \<and> err (svc w' s) = Some er \<and> \<not> (restart (svc w s) \<and> waiting w' s) \<or>
        restart (svc w s) \<and> starts (svc w' s) = starts (svc w s) + 1 \<and>
          (\<exists>q e. fst (pStart P q) = Some e \<and> err (svc w' s) = Some e))))"
proof -
  have s: "enabled (svc w s)" "\<not> failed (svc w s)" using inv_parts(9) [OF assms(1) run] by simp_all
  obtain e w1 where c: "checkService P s w = Done (e, w1)"
    and w1: "keeps w w1" "(e = None) = running (svc w1 s)" "e \<noteq> None \<Longrightarrow> failed (svc w1 s)"
      "starts (svc w1 s) = starts (svc w s)"
    using checkService_spec [OF assms(1,2), of P] run by (auto simp: returns_iff)
  have e: "e = Some er" using checkService_answer(1) [OF c run s(2)] er by simp
  then have f: "failed (svc w1 s)" "\<not> running (svc w1 s)" "err (svc w1 s) = Some er"
    using w1(2,3) checkService_answer(2) [OF c run s(2)] by simp_all
  have i: "inv w1" "s \<in> set (managed w1)" "restart (svc w1 s) = restart (svc w s)"
    using keeps_inv [OF w1(1)] assms(2) w1(1) by (simp_all add: keeps_def frame_def)
  have go: "check_and_heal P s w = selfHeal P s w1"
    using s(1) e by (simp add: check_and_heal_def c)
  have "returns (selfHeal P s w1) (\<lambda>w'. keeps w1 w' \<and>
      (waiting w' s \<longrightarrow> \<not> restart (svc w s) \<or> starts (svc w s) < starts (svc w' s)))"
    by (rule returns_mono [OF returns_conj [OF selfHeal_spec [OF i(1,2)] selfHeal_tries [OF i(1,2)]]])
      (use f(1) i(3) w1(4) in \<open>metis\<close>)
  then obtain w' where w': "selfHeal P s w1 = Done w'" "keeps w1 w'"
      "waiting w' s \<longrightarrow> \<not> restart (svc w s) \<or> starts (svc w s) < starts (svc w' s)"
    unfolding returns_iff by blast
  show ?thesis
  proof (cases "restart (svc w s)")
    case False
    then have "w' = w1" using w'(1) i(3) by (simp add: selfHeal_def)
    then show ?thesis using go w' f w1 False by simp
  next
    case True
    then have "outcome_of P s w1 w'" using yields_DoneD [OF selfHeal_outcome w'(1)] f(1) i(3) by simp
    then consider "tried P (svc w1 s) (svc w' s)" | "alike (svc w1 s) (svc w' s)"
      using f(2) by (auto simp: outcome_of_def split: if_splits)
    then show ?thesis
    proof cases
      case 1
      then show ?thesis
        using go w' True w1(4) keeps_trans [OF w1(1) w'(2)] by (auto simp: tried_def split: option.splits)
    next
      case 2
      then show ?thesis
        using go w' True w1(4) f alike_fields [OF 2] keeps_trans [OF w1(1) w'(2)] by auto
    qed
  qed
qed

end
