(* ===== verification/RestClient.thy ===== *)
theory RestClient
  imports Rest
begin

text \<open>
  The client of the REST interface (\<open>rest/client.go\<close>): the cache of the list of services, of
  services and of logs with their ETags, long polls, and the requests that change state.  The
  network is a parameter, a function from a call and the state of the world to an answer or an
  error (the end of a context among them); \<open>encoding/json\<close> is the record \<open>decoders\<close>.  While a
  request is outstanding the client's lock is free: \<open>others\<close> is what other goroutines did to the
  client meanwhile.
\<close>

section \<open>Requests and answers\<close>

record http_call =
  hc_Method :: string
  hc_Url :: string
  hc_BasicAuth :: "(string \<times> string) option"
  hc_IfNoneMatch :: string      \<comment> \<open>a header that is not set reads as the empty string\<close>
  hc_PollEtag :: string
  hc_PollTime :: string
  hc_ContentType :: string

text \<open>An answer; \<open>Inl\<close> in the body is the error of \<open>ioutil.ReadAll\<close>.\<close>

record 'b http_answer =
  ha_StatusCode :: int
  ha_Status :: string
  ha_Etag :: string
  ha_Body :: "string + 'b"

datatype net_error = DeadlineExceeded | NetError string

datatype client_error = RestFailure rest_error | NetFailure string

type_synonym ('b, 'n) transport = "http_call \<Rightarrow> 'n \<Rightarrow> (net_error + 'b http_answer) \<times> 'n"

text \<open>\<open>json.Unmarshal\<close> into the four kinds of values, and into an error that has values already.\<close>

record 'b decoders =
  de_Names :: "'b \<Rightarrow> string + string list"
  de_Service :: "'b \<Rightarrow> string + service_entry"
  de_Manager :: "'b \<Rightarrow> string + manager_entry"
  de_Log :: "'b \<Rightarrow> string + log_entry list"
  de_Error :: "'b \<Rightarrow> rest_error \<Rightarrow> rest_error option"

section \<open>The client\<close>

record service_info =
  si_Entry :: service_entry
  si_etag :: string

record log_info =
  li_Records :: "log_entry list"
  li_etag :: string

record client =
  rc_user :: string
  rc_pass :: string
  rc_base :: string
  rc_auth :: bool
  rc_manager :: "(manager_entry \<times> string) option"    \<comment> \<open>with its ETag\<close>
  rc_services :: "string \<rightharpoonup> service_info"
  rc_names :: "string list"
  rc_etag :: string
  rc_logs :: "string \<rightharpoonup> log_info"

definition NewClient :: "string \<Rightarrow> client" where
  "NewClient baseURI =
     \<lparr>rc_user = [], rc_pass = [], rc_base = baseURI, rc_auth = False, rc_manager = None,
      rc_services = Map.empty, rc_names = [], rc_etag = [], rc_logs = Map.empty\<rparr>"

definition SetAuth :: "string \<Rightarrow> string \<Rightarrow> client \<Rightarrow> client" where
  "SetAuth user pass c = c\<lparr>rc_user := user, rc_pass := pass, rc_auth := True\<rparr>"

text \<open>\<open>url.QueryEscape\<close>.\<close>

definition unreserved :: "char \<Rightarrow> bool" where
  "unreserved c \<longleftrightarrow> (let n = of_char c :: nat in
     48 \<le> n \<and> n \<le> 57 \<or> 65 \<le> n \<and> n \<le> 90 \<or> 97 \<le> n \<and> n \<le> 122 \<or> c \<in> {CHR ''-'', CHR ''_'', CHR ''.'', CHR ''~''})"

definition upper_hex :: "nat \<Rightarrow> char" where
  "upper_hex d = ''0123456789ABCDEF'' ! d"

definition QueryEscape :: "string \<Rightarrow> string" where
  "QueryEscape s = concat (map (\<lambda>c.
     if c = CHR '' '' then ''+''
     else if unreserved c then [c]
     else [CHR ''%'', upper_hex (of_char c div 16), upper_hex (of_char c mod 16)]) s)"

definition client_url :: "client \<Rightarrow> string \<Rightarrow> string" where
  "client_url c name =
     (if name = [] then rc_base c @ ''/services'' else rc_base c @ ''/services/'' @ QueryEscape name)"

definition basic_auth :: "client \<Rightarrow> (string \<times> string) option" where
  "basic_auth c = (if rc_auth c then Some (rc_user c, rc_pass c) else None)"

text \<open>The error of an answer that is neither 200 nor 304.\<close>

definition answer_error :: "'b decoders \<Rightarrow> 'b http_answer \<Rightarrow> client_error" where
  "answer_error D a =
     (let er = \<lparr>re_Code = ha_StatusCode a, re_Message = ha_Status a\<rparr>
      in case ha_Body a of
           Inl _ \<Rightarrow> RestFailure er
         | Inr b \<Rightarrow> (case de_Error D b er of Some e \<Rightarrow> RestFailure e | None \<Rightarrow> RestFailure er))"

text \<open>
  \<open>poll\<close>: an error, or the new ETag ("" when nothing changed) with the value that was decoded.
\<close>

definition poll_call :: "client \<Rightarrow> string \<Rightarrow> string \<Rightarrow> int \<Rightarrow> http_call" where
  "poll_call c url etag wait =
     \<lparr>hc_Method = ''GET'', hc_Url = url, hc_BasicAuth = basic_auth c,
      hc_IfNoneMatch = etag,
      hc_PollEtag = (if etag \<noteq> [] \<and> wait > 0 then etag else []),
      hc_PollTime = (if etag \<noteq> [] \<and> wait > 0 then dec_of_int wait else []),
      hc_ContentType = []\<rparr>"

definition poll ::
  "('b, 'n) transport \<Rightarrow> 'b decoders \<Rightarrow> ('b \<Rightarrow> string + 'v) \<Rightarrow> client \<Rightarrow> string \<Rightarrow> string \<Rightarrow> int \<Rightarrow> 'n \<Rightarrow>
   (client_error + string \<times> 'v option) \<times> 'n" where
  "poll T D decode c url etag wait n =
     (case T (poll_call c url etag wait) n of
        (Inl DeadlineExceeded, n1) \<Rightarrow> (Inl (RestFailure \<lparr>re_Code = 408, re_Message = ''Request timed out''\<rparr>), n1)
      | (Inl (NetError e), n1) \<Rightarrow> (Inl (NetFailure e), n1)
      | (Inr a, n1) \<Rightarrow>
          (if ha_StatusCode a = 304 then Inr ([], None)
           else if ha_StatusCode a \<noteq> 200 then Inl (answer_error D a)
           else case ha_Body a of
                  Inl e \<Rightarrow> Inl (NetFailure e)
                | Inr b \<Rightarrow>
                    (case decode b of
                       Inl e \<Rightarrow> Inl (NetFailure e)
                     | Inr v \<Rightarrow> Inr (ha_Etag a, Some v)), n1))"

definition client_post ::
  "('b, 'n) transport \<Rightarrow> 'b decoders \<Rightarrow> client \<Rightarrow> string \<Rightarrow> 'n \<Rightarrow> client_error option \<times> 'n" where
  "client_post T D c url n =
     (case T \<lparr>hc_Method = ''POST'', hc_Url = url, hc_BasicAuth = basic_auth c, hc_IfNoneMatch = [],
             hc_PollEtag = [], hc_PollTime = [], hc_ContentType = ''text/plain''\<rparr> n of
        (Inl DeadlineExceeded, n1) \<Rightarrow> (Some (NetFailure ''context deadline exceeded''), n1)
      | (Inl (NetError e), n1) \<Rightarrow> (Some (NetFailure e), n1)
      | (Inr a, n1) \<Rightarrow> (if ha_StatusCode a \<noteq> 200 then Some (answer_error D a) else None, n1))"

section \<open>The list of services\<close>

text \<open>The entries of the old cache that are still in the list.\<close>

fun keep_services ::
  "string list \<Rightarrow> (string \<rightharpoonup> service_info) \<Rightarrow> (string \<rightharpoonup> service_info) \<Rightarrow> (string \<rightharpoonup> service_info)" where
  "keep_services [] old new = new"
| "keep_services (n # ns) old new =
     (case old n of
        Some svc \<Rightarrow> keep_services ns (old(n := None)) (new(n \<mapsto> svc))
      | None \<Rightarrow> keep_services ns old new)"

definition pollServices ::
  "('b, 'n) transport \<Rightarrow> 'b decoders \<Rightarrow> (client \<Rightarrow> client) \<Rightarrow> int \<Rightarrow> client \<Rightarrow> 'n \<Rightarrow>
   (client_error + string list) \<times> client \<times> 'n" where
  "pollServices T D others secs c n =
     (let otag = rc_etag c; onames = rc_names c
      in case poll T D (de_Names D) c (client_url c []) otag secs n of
           (Inl e, n1) \<Rightarrow> (Inl e, others c, n1)
         | (Inr (etag, v), n1) \<Rightarrow>
             if etag = [] \<or> etag = otag then (Inr onames, others c, n1)
             else
               let c1 = others c;
                   names = (case v of Some v \<Rightarrow> v | None \<Rightarrow> [])
               in (Inr names,
                   c1\<lparr>rc_etag := etag, rc_names := names,
                      rc_services := keep_services names (rc_services c1) Map.empty\<rparr>, n1))"

definition client_Services ::
  "('b, 'n) transport \<Rightarrow> 'b decoders \<Rightarrow> (client \<Rightarrow> client) \<Rightarrow> client \<Rightarrow> 'n \<Rightarrow>
   (client_error + string list) \<times> client \<times> 'n" where
  "client_Services T D others = pollServices T D others 0"

section \<open>One service\<close>

text \<open>The result \<open>Inr None\<close> is a nil pointer without an error.\<close>

definition pollService ::
  "('b, 'n) transport \<Rightarrow> 'b decoders \<Rightarrow> (client \<Rightarrow> client) \<Rightarrow> string \<Rightarrow> int \<Rightarrow> service_info option \<Rightarrow>
   client \<Rightarrow> 'n \<Rightarrow> (client_error + service_info option) \<times> client \<times> 'n" where
  "pollService T D others name secs seen c n =
     (let osvc = rc_services c name;
          go = (\<lambda>otag secs.
            case poll T D (de_Service D) c (client_url c name) otag secs n of
              (Inl e, n1) \<Rightarrow> let c1 = others c in (Inl e, c1\<lparr>rc_services := (rc_services c1)(name := None)\<rparr>, n1)
            | (Inr (etag, v), n1) \<Rightarrow>
                (case v of
                   Some s \<Rightarrow>
                     if etag = [] then (Inr osvc, others c, n1)
                     else
                       let i = \<lparr>si_Entry = s, si_etag = etag\<rparr>; c1 = others c
                       in (Inr (Some i), c1\<lparr>rc_services := (rc_services c1)(name \<mapsto> i)\<rparr>, n1)
                 | None \<Rightarrow> (Inr osvc, others c, n1)))
      in case seen of
           None \<Rightarrow> go [] 0
         | Some l \<Rightarrow>
             (case osvc of
                Some i \<Rightarrow> if si_etag l \<noteq> si_etag i then (Inr (Some i), c, n) else go (si_etag l) secs
              | None \<Rightarrow> go (si_etag l) secs))"

definition GetService ::
  "('b, 'n) transport \<Rightarrow> 'b decoders \<Rightarrow> (client \<Rightarrow> client) \<Rightarrow> string \<Rightarrow> client \<Rightarrow> 'n \<Rightarrow>
   (client_error + service_info option) \<times> client \<times> 'n" where
  "GetService T D others name = pollService T D others name 0 None"

definition client_WatchService ::
  "('b, 'n) transport \<Rightarrow> 'b decoders \<Rightarrow> (client \<Rightarrow> client) \<Rightarrow> string \<Rightarrow> service_info option \<Rightarrow>
   client \<Rightarrow> 'n \<Rightarrow> (client_error + service_info option) \<times> client \<times> 'n" where
  "client_WatchService T D others name = pollService T D others name 300"

section \<open>Logs\<close>

text \<open>The name "" stands for the log of the manager.\<close>

definition log_url :: "client \<Rightarrow> string \<Rightarrow> string" where
  "log_url c name = (if name = [] then rc_base c @ ''/log'' else client_url c name @ ''/log'')"

definition pollLog ::
  "('b, 'n) transport \<Rightarrow> 'b decoders \<Rightarrow> (client \<Rightarrow> client) \<Rightarrow> string \<Rightarrow> int \<Rightarrow> log_info option \<Rightarrow>
   client \<Rightarrow> 'n \<Rightarrow> (client_error + log_info option) \<times> client \<times> 'n" where
  "pollLog T D others name secs seen c n =
     (let cached = rc_logs c name;
          (otag, wait) =
            (case seen of
               None \<Rightarrow> ([], 0)
             | Some l \<Rightarrow>
                 (case cached of
                    Some i \<Rightarrow> if li_etag l \<noteq> li_etag i then (li_etag i, 0) else (li_etag l, secs)
                  | None \<Rightarrow> (li_etag l, secs)))
      in case poll T D (de_Log D) c (log_url c name) otag wait n of
           (Inl e, n1) \<Rightarrow> let c1 = others c in (Inl e, c1\<lparr>rc_logs := (rc_logs c1)(name := None)\<rparr>, n1)
         | (Inr (etag, v), n1) \<Rightarrow>
             (case v of
                Some rs \<Rightarrow>
                  if etag = [] then (Inr cached, others c, n1)
                  else
                    let i = \<lparr>li_Records = rs, li_etag = etag\<rparr>; c1 = others c
                    in (Inr (Some i), c1\<lparr>rc_logs := (rc_logs c1)(name \<mapsto> i)\<rparr>, n1)
              | None \<Rightarrow> (Inr cached, others c, n1)))"

definition client_WatchLog ::
  "('b, 'n) transport \<Rightarrow> 'b decoders \<Rightarrow> (client \<Rightarrow> client) \<Rightarrow> string \<Rightarrow> log_info option \<Rightarrow>
   client \<Rightarrow> 'n \<Rightarrow> (client_error + log_info option) \<times> client \<times> 'n" where
  "client_WatchLog T D others name = pollLog T D others name 300"

definition client_GetLog ::
  "('b, 'n) transport \<Rightarrow> 'b decoders \<Rightarrow> (client \<Rightarrow> client) \<Rightarrow> string \<Rightarrow> client \<Rightarrow> 'n \<Rightarrow>
   (client_error + log_info option) \<times> client \<times> 'n" where
  "client_GetLog T D others name = pollLog T D others name 0 None"

section \<open>The manager\<close>

definition client_Watch ::
  "('b, 'n) transport \<Rightarrow> 'b decoders \<Rightarrow> (client \<Rightarrow> client) \<Rightarrow> string \<Rightarrow> client \<Rightarrow> 'n \<Rightarrow>
   (client_error + string) \<times> client \<times> 'n" where
  "client_Watch T D others etag c n =
     (let go = (case poll T D (de_Manager D) c (rc_base c) etag 300 n of
            (Inl e, n1) \<Rightarrow> (Inl e, others c, n1)
          | (Inr (tag, v), n1) \<Rightarrow>
              let c1 = others c in
              (case v of
                 Some m \<Rightarrow>
                   if tag = [] then (Inr etag, c1, n1)
                   else
                     (Inr tag,
                      (case rc_manager c1 of
                         Some (_, t) \<Rightarrow> if t \<noteq> tag then c1\<lparr>rc_manager := Some (m, tag)\<rparr> else c1
                       | None \<Rightarrow> c1\<lparr>rc_manager := Some (m, tag)\<rparr>), n1)
               | None \<Rightarrow> (Inr etag, c1, n1)))
      in case rc_manager c of
           Some (_, t) \<Rightarrow> if etag = [] then (Inr t, c, n) else go
         | None \<Rightarrow> go)"

section \<open>Requests that change state\<close>

definition postService ::
  "('b, 'n) transport \<Rightarrow> 'b decoders \<Rightarrow> client \<Rightarrow> string \<Rightarrow> string \<Rightarrow> 'n \<Rightarrow> client_error option \<times> 'n" where
  "postService T D c name action n = client_post T D c (client_url c name @ ''/'' @ action) n"

definition client_EnableService ::
  "('b, 'n) transport \<Rightarrow> 'b decoders \<Rightarrow> client \<Rightarrow> string \<Rightarrow> 'n \<Rightarrow> client_error option \<times> 'n" where
  "client_EnableService T D c name = postService T D c name ''enable''"

definition client_DisableService ::
  "('b, 'n) transport \<Rightarrow> 'b decoders \<Rightarrow> client \<Rightarrow> string \<Rightarrow> 'n \<Rightarrow> client_error option \<times> 'n" where
  "client_DisableService T D c name = postService T D c name ''disable''"

definition client_ClearService ::
  "('b, 'n) transport \<Rightarrow> 'b decoders \<Rightarrow> client \<Rightarrow> string \<Rightarrow> 'n \<Rightarrow> client_error option \<times> 'n" where
  "client_ClearService T D c name = postService T D c name ''clear''"

definition client_RestartService ::
  "('b, 'n) transport \<Rightarrow> 'b decoders \<Rightarrow> client \<Rightarrow> string \<Rightarrow> 'n \<Rightarrow> client_error option \<times> 'n" where
  "client_RestartService T D c name = postService T D c name ''restart''"

section \<open>Lemmas\<close>

lemma keep_services_restrict: "keep_services ns old new n = (if n \<in> set ns \<and> old n \<noteq> None then old n else new n)"
  by (induction ns arbitrary: old new) (auto split: option.split)

text \<open>What the client holds after a successful poll of the list are services of the list.\<close>

lemma pollServices_bounded:
  assumes "pollServices T D others secs c n = (Inr ns, c', n')"
    and "rc_etag (others c) = rc_etag c" "rc_names (others c) = rc_names c"
    and "dom (rc_services (others c)) \<subseteq> set (rc_names c) \<or> rc_etag c' \<noteq> rc_etag c"
  shows "rc_names c' = ns" "dom (rc_services c') \<subseteq> set ns"
  using assms by (auto simp: pollServices_def Let_def keep_services_restrict split: prod.splits sum.splits if_splits)

lemma poll_304:
  assumes "T (poll_call c url etag wait) n = (Inr a, n')" and "ha_StatusCode a = 304"
  shows "poll T D decode c url etag wait n = (Inr ([], None), n')"
  using assms by (simp add: poll_def)

lemma poll_200:
  assumes "T (poll_call c url etag wait) n = (Inr a, n')" and "ha_StatusCode a = 200"
    and "ha_Body a = Inr b" "decode b = Inr v"
  shows "poll T D decode c url etag wait n = (Inr (ha_Etag a, Some v), n')"
  using assms by (simp add: poll_def)

text \<open>
  Watching a service: told "not modified", the client returns what it has cached for the service, a nil
  pointer without an error when that is nothing; given a new entry with an ETag, it returns and caches that.
\<close>

lemma watch_service_answer:
  assumes "T (poll_call c (client_url c name) (si_etag l) 300) n = (Inr a, n')"
    and "\<And>i. rc_services c name = Some i \<Longrightarrow> si_etag i = si_etag l"
  shows "(ha_StatusCode a = 304 \<longrightarrow>
      client_WatchService T D others name (Some l) c n = (Inr (rc_services c name), others c, n')) \<and>
    (ha_StatusCode a = 200 \<and> ha_Body a = Inr b \<and> de_Service D b = Inr s \<and> ha_Etag a \<noteq> [] \<longrightarrow>
      client_WatchService T D others name (Some l) c n =
        (Inr (Some \<lparr>si_Entry = s, si_etag = ha_Etag a\<rparr>),
         (others c)\<lparr>rc_services := (rc_services (others c))(name \<mapsto> \<lparr>si_Entry = s, si_etag = ha_Etag a\<rparr>)\<rparr>, n'))"
  using assms by (auto simp: client_WatchService_def pollService_def poll_def Let_def split: option.split)

end
