(* ===== verification/Serving.thy ===== *)
theory Serving
  imports Server System RestClient
begin

text \<open>
  The server as a whole: what a request that passes the password check and the router does to the
  manager.  A relation between worlds that the waits, the reading handlers and the four actions keep is kept
  by every request (locale \<open>served\<close>).
\<close>

section \<open>Finding a service by its name\<close>

lemma Services_inv:
  assumes "inv w"
  shows "inv (snd (Services w))" "svc (snd (Services w)) = svc w" "mgr (snd (Services w)) = mgr w"
    "set (fst (fst (Services w))) = set (managed w)" "still w (snd (Services w))"
proof -
  have "permutes_keys (ord w)" using inv_parts(1) [OF assms] by (simp add: base_ok_def)
  then show "svc (snd (Services w)) = svc w" "mgr (snd (Services w)) = mgr w"
    "set (fst (fst (Services w))) = set (managed w)" "still w (snd (Services w))"
    by (simp_all add: Services_def case_prod_beta)
  then show "inv (snd (Services w))" using still_inv assms by blast
qed

definition not_found :: rest_error where
  "not_found = \<lparr>re_Code = StatusNotFound, re_Message = ''Service not found''\<rparr>"

lemma findService_cases:
  assumes "inv w"
  obtains (found) s where "findService name w = (Inr s, snd (Services w))" "s \<in> set (managed w)" "sname (svc w s) = name"
  | (missing) "findService name w = (Inl not_found, snd (Services w))" "\<forall>s \<in> set (managed w). sname (svc w s) \<noteq> name"
proof -
  have f: "findService name w = (case find (\<lambda>s. sname (svc w s) = name) (fst (fst (Services w))) of
      Some s \<Rightarrow> Inr s | None \<Rightarrow> Inl not_found, snd (Services w))"
    using Services_inv(2) [OF assms] by (simp add: findService_def case_prod_beta not_found_def split: option.split)
  show thesis
  proof (cases "find (\<lambda>s. sname (svc w s) = name) (fst (fst (Services w)))")
    case None
    then have "\<forall>s \<in> set (managed w). sname (svc w s) \<noteq> name"
      using Services_inv(4) [OF assms] by (simp add: find_None_iff)
    then show thesis by (rule missing [rotated]) (simp add: f None)
  next
    case (Some s)
    then have "s \<in> set (fst (fst (Services w)))" "sname (svc w s) = name" by (auto simp: find_Some_iff)
    then show thesis using found [of s] f Some Services_inv(4) [OF assms] by simp
  qed
qed

section \<open>What the handlers do to the manager\<close>

text \<open>What other goroutines do while a handler waits, kept within a relation.\<close>

definition waits_keep :: "('p world \<Rightarrow> 'p world \<Rightarrow> bool) \<Rightarrow> 'p waits \<Rightarrow> bool" where
  "waits_keep R W \<longleftrightarrow>
     (\<forall>old t w. R w (wt_Serial W old t w) \<and> R w (wt_Services W old t w) \<and> R w (wt_Log W old t w)) \<and>
     (\<forall>s old t w. R w (wt_Service W s old t w) \<and> R w (wt_ServiceLog W s old t w)) \<and>
     (\<forall>s w i. R w (wt_later W s w i))"

text \<open>Requests that read change nothing but the clock and the order of the map.\<close>

locale served =
  fixes R :: "'p world \<Rightarrow> 'p world \<Rightarrow> bool"
  assumes R_trans: "R u v \<Longrightarrow> R v w \<Longrightarrow> R u w"
    and R_still: "still w w' \<Longrightarrow> R w w'"
begin

lemma R_checkPoll: "(\<And>old t w. R w (f old t w)) \<Longrightarrow> R w (checkPoll r f w)"
  by (simp add: checkPoll_def R_still split: option.split)

lemma R_Services: "R w (snd (Services w))"
  by (rule R_still) (simp add: Services_def case_prod_beta)

lemma R_findService: "R w (snd (findService name w))"
  using R_Services [of w] by (simp add: findService_def case_prod_beta)

lemma R_log_response: "R w (snd (log_response zone r x w))"
  by (simp add: log_response_def Let_def R_still)

lemma R_listServices:
  assumes "waits_keep R W"
  shows "R w (snd (listServices (wt_Services W) r w))"
proof -
  have "R w (checkPoll r (wt_Services W) w)" by (rule R_checkPoll) (use assms in \<open>simp add: waits_keep_def\<close>)
  then show ?thesis by (simp add: listServices_def case_prod_beta Let_def) (erule R_trans, rule R_Services)
qed

lemma R_getManager:
  assumes "waits_keep R W"
  shows "R w (snd (getManager (wt_Serial W) r w))"
  using R_checkPoll [of "wt_Serial W" w r] assms by (simp add: getManager_def Let_def waits_keep_def)

lemma R_getManagerLog:
  assumes "waits_keep R W"
  shows "R w (snd (getManagerLog zone (wt_Log W) r w))"
proof -
  have "R w (checkPoll r (wt_Log W) w)" by (rule R_checkPoll) (use assms in \<open>simp add: waits_keep_def\<close>)
  then show ?thesis by (simp add: getManagerLog_def Let_def) (erule R_trans, rule R_log_response)
qed

lemma R_getLog:
  assumes "waits_keep R W"
  shows "R w (snd (getLog zone (wt_ServiceLog W) name r w))"
proof -
  have poll: "R v (checkPoll r (wt_ServiceLog W s) v)" for s v
    by (rule R_checkPoll) (use assms in \<open>simp add: waits_keep_def\<close>)
  obtain f w1 where f: "findService name w = (f, w1)" by fastforce
  then have w1: "R w w1" using R_findService [of w name] by simp
  show ?thesis
  proof (cases f)
    case (Inr s)
    then show ?thesis
      using f R_trans [OF w1 R_trans [OF poll R_log_response]] by (simp add: getLog_def Let_def)
  qed (use f w1 in \<open>simp add: getLog_def\<close>)
qed

lemma R_getService:
  assumes "waits_keep R W" and "getService n (wt_Service W) (wt_later W) name r w = Some (resp, w')"
  shows "R w w'"
proof -
  obtain f w1 where f: "findService name w = (f, w1)" by fastforce
  then have w1: "R w w1" using R_findService [of w name] by simp
  show ?thesis
  proof (cases f)
    case (Inl e)
    then show ?thesis using assms(2) f w1 by (simp add: getService_def)
  next
    case (Inr s)
    have "R w1 (checkPoll r (wt_Service W s) w1)"
      by (rule R_checkPoll) (use assms(1) in \<open>simp add: waits_keep_def\<close>)
    moreover have "\<exists>t. w' = wt_later W s (checkPoll r (wt_Service W s) w1) t"
      using assms(2) f Inr by (auto simp: getService_def Let_def)
    moreover have "R v (wt_later W s v t)" for v t
      using assms(1) by (simp add: waits_keep_def)
    ultimately show ?thesis using w1 R_trans by blast
  qed
qed

lemma R_handle:
  assumes "waits_keep R W" and "\<not> changes_state ep"
    and "handle P W n ep name r w = Done (Some (resp, w'))"
  shows "R w w'"
proof -
  have "R w (snd x)" if "x = (resp, w')" "x \<in> {getManager (wt_Serial W) r w,
      getManagerLog (wt_zone W) (wt_Log W) r w, listServices (wt_Services W) r w,
      getLog (wt_zone W) (wt_ServiceLog W) name r w}" for x
    using that(2) R_listServices [OF assms(1)] R_getManager [OF assms(1)] R_getManagerLog [OF assms(1)]
      R_getLog [OF assms(1)] by auto
  then show ?thesis
    using assms(2,3) R_getService [OF assms(1)]
    by (cases ep) (auto simp: handle_def changes_state_def)
qed

end

interpretation still_served: served still
  by unfold_locales (rule still_trans)

interpretation inv_served: served "\<lambda>w w'. inv w \<longrightarrow> inv w'"
  by unfold_locales (auto intro: still_inv)

text \<open>The requests that change state are the operations of the service they name.\<close>

lemma simple_action_returns:
  assumes "inv w" and "\<And>s v. inv v \<Longrightarrow> s \<in> set (managed v) \<Longrightarrow> returns (act s v) (\<lambda>(e, w'). inv w')"
  shows "returns (simple_action act name w) (\<lambda>(_, w'). inv w')"
proof -
  note s = Services_inv [OF assms(1)]
  show ?thesis
  proof (cases rule: findService_cases [OF assms(1), where name = name, case_names found missing])
    case (found x)
    have "x \<in> set (managed (snd (Services w)))" using found(2) s(3) by simp
    from assms(2) [OF s(1) this] show ?thesis
      by (simp add: simple_action_def found(1)) (erule returns_mono, auto split: option.split)
  next
    case missing
    then show ?thesis using s(1) by (simp add: simple_action_def)
  qed
qed

lemma handle_returns:
  assumes "inv w" and "waits_keep (\<lambda>w w'. inv w \<longrightarrow> inv w') W"
  shows "returns (handle P W n ep name r w) (\<lambda>x. case x of None \<Rightarrow> ep = EpService | Some (resp, w') \<Rightarrow> inv w')"
proof -
  note s = Services_inv [OF assms(1)]
  have act: "returns (bindO m (\<lambda>x. Done (Some x))) (\<lambda>x. case x of None \<Rightarrow> ep = EpService | Some (resp, w') \<Rightarrow> inv w')"
    if "returns m (\<lambda>(_, w'). inv w')" for m :: "(response \<times> 'a world) outcome"
    by (simp, rule returns_mono [OF that]) auto
  show ?thesis
  proof (cases "changes_state ep")
    case False
    then have "\<exists>x. handle P W n ep name r w = Done x \<and> (x = None \<longrightarrow> ep = EpService)"
      by (cases ep) (auto simp: handle_def changes_state_def)
    then obtain x where x: "handle P W n ep name r w = Done x" "x = None \<longrightarrow> ep = EpService" by blast
    then show ?thesis
      using inv_served.R_handle [OF assms(2) False] assms(1) by (auto split: option.split)
  next
    case True
    have en: "returns (enableService P name w) (\<lambda>(_, w'). inv w')"
    proof (cases rule: findService_cases [OF assms(1), where name = name, case_names found missing])
      case (found x)
      have "x \<in> set (managed (snd (Services w)))" using found(2) s(3) by simp
      from Enable_spec [OF s(1) this, of P] show ?thesis
        by (simp add: enableService_def found(1)) (erule returns_mono, auto simp: keeps_def split: option.split)
    next
      case missing
      then show ?thesis using s(1) by (simp add: enableService_def)
    qed
    have cl: "returns (clearService P name w) (\<lambda>(_, w'). inv w')"
    proof (cases rule: findService_cases [OF assms(1), where name = name, case_names found missing])
      case (found x)
      have "x \<in> set (managed (snd (Services w)))" using found(2) s(3) by simp
      from Clear_spec [OF s(1) this, of P] show ?thesis
        by (simp add: clearService_def found(1)) (erule returns_mono, simp add: keeps_def)
    next
      case missing
      then show ?thesis using s(1) by (simp add: clearService_def)
    qed
    have "returns (Disable P s v) (\<lambda>(e, w'). inv w')" "returns (Restart P s v) (\<lambda>(e, w'). inv w')"
      if "inv v" "s \<in> set (managed v)" for s v
      by (rule returns_mono [OF Disable_spec [OF that]] returns_mono [OF Restart_spec [OF that]], auto simp: keeps_def)+
    then have "returns (disableService P name w) (\<lambda>(_, w'). inv w')" "returns (restartService P name w) (\<lambda>(_, w'). inv w')"
      unfolding disableService_def restartService_def by (simp_all add: simple_action_returns [OF assms(1)])
    then show ?thesis
      using True act en cl by (cases ep) (simp_all only: handle_def changes_state_def endpoint.simps, simp_all)
  qed
qed

section \<open>Any request\<close>

text \<open>The router keeps to the methods its routes were registered with.\<close>

definition routes_by_method ::
  "((string \<times> endpoint \<times> http_method) list \<Rightarrow> request \<Rightarrow> response + endpoint \<times> string) \<Rightarrow> bool" where
  "routes_by_method mux \<longleftrightarrow> (\<forall>rs r ep name. mux rs r = Inr (ep, name) \<longrightarrow> (\<exists>path. (path, ep, rq_Method r) \<in> set rs))"

lemma only_post_changes:
  "routes_by_method mux \<Longrightarrow> mux handler_routes r = Inr (ep, name) \<Longrightarrow> changes_state ep \<Longrightarrow> rq_Method r = POST"
  by (fastforce simp: routes_by_method_def handler_routes_def changes_state_def)

lemma ServeHTTP_returns:
  assumes "inv w" and "waits_keep (\<lambda>w w'. inv w \<longrightarrow> inv w') W"
  shows "returns (MyHandler_ServeHTTP bcrypt h mux marshal P W n r w)
    (\<lambda>x. case x of None \<Rightarrow> authenticate bcrypt h r = None \<and> (\<exists>name. mux handler_routes r = Inr (EpService, name))
       | Some (resp, w') \<Rightarrow> inv w')"
proof (cases "authenticate bcrypt h r")
  case None
  show ?thesis
  proof (cases "mux handler_routes r")
    case (Inr x)
    then obtain ep name where "mux handler_routes r = Inr (ep, name)" by (cases x) auto
    then show ?thesis
      using None by (simp add: MyHandler_ServeHTTP_def Handler_ServeHTTP_def)
        (rule returns_mono [OF handle_returns [OF assms]], auto split: option.splits)
  qed (simp add: None MyHandler_ServeHTTP_def Handler_ServeHTTP_def assms(1))
qed (simp add: MyHandler_ServeHTTP_def assms(1))

text \<open>
  A request stays without an answer only while it reads a service that gets a new serial number in each of the \<open>n\<close>
  turns (a turn is eleven readings when the number has changed by its end).
\<close>

definition restless :: "'p waits \<Rightarrow> nat \<Rightarrow> sid \<Rightarrow> 'p world \<Rightarrow> bool" where
  "restless W n s w \<longleftrightarrow>
     (\<forall>k < n. Serial (svc (wt_later W s w (11 * k)) s) \<noteq> Serial (svc (wt_later W s w (11 * k + 10)) s))"

lemma read_service_None:
  "read_service n hist t = None \<Longrightarrow> k < n \<Longrightarrow> Serial (hist (t + 11 * k)) \<noteq> Serial (hist (t + 11 * k + 10))"
proof (induction n arbitrary: t k)
  case (Suc n)
  then have n: "Serial (hist t) \<noteq> Serial (hist (t + 10))" "read_service n hist (t + 11) = None"
    by (simp_all split: if_splits)
  show ?case
  proof (cases k)
    case (Suc j)
    then show ?thesis using Suc.IH [OF n(2), of j] Suc.prems(2) by (simp add: add.assoc)
  qed (simp add: n)
qed simp

lemma unanswered:
  assumes "MyHandler_ServeHTTP bcrypt h mux marshal P W n r w = Done None"
  shows "\<exists>name s w1. mux handler_routes r = Inr (EpService, name) \<and> findService name w = (Inr s, w1) \<and>
    restless W n s (checkPoll r (wt_Service W s) w1)"
proof -
  have a: "authenticate bcrypt h r = None"
    using assms by (auto simp: MyHandler_ServeHTTP_def split: option.splits)
  obtain ep name where m: "mux handler_routes r = Inr (ep, name)" and h: "handle P W n ep name r w = Done None"
    using assms a by (auto simp: MyHandler_ServeHTTP_def Handler_ServeHTTP_def bindO_Done_iff split: sum.splits)
  then have ep: "ep = EpService" "getService n (wt_Service W) (wt_later W) name r w = None"
    by (auto simp: handle_def bindO_Done_iff split: endpoint.splits)
  then obtain s w1 where s: "findService name w = (Inr s, w1)"
      and none: "read_service n (\<lambda>i. svc (wt_later W s (checkPoll r (wt_Service W s) w1) i) s) 0 = None"
    by (auto simp: getService_def Let_def split: prod.splits sum.splits)
  have "restless W n s (checkPoll r (wt_Service W s) w1)"
    using read_service_None [OF none] by (simp add: restless_def)
  then show ?thesis using m s unfolding ep(1) by blast
qed

lemma ServeHTTP_reads:
  assumes "waits_keep still W" and "routes_by_method mux"
    and "MyHandler_ServeHTTP bcrypt h mux marshal P W n r w = Done (Some (resp, w'))"
    and "authenticate bcrypt h r \<noteq> None \<or> rq_Method r \<noteq> POST"
  shows "still w w'"
proof (cases "authenticate bcrypt h r")
  case None
  show ?thesis
  proof (cases "mux handler_routes r")
    case (Inr x)
    then obtain ep name where m: "mux handler_routes r = Inr (ep, name)" by (cases x) auto
    then have "\<not> changes_state ep" using only_post_changes [OF assms(2)] assms(4) None by blast
    moreover obtain resp1 where "handle P W n ep name r w = Done (Some (resp1, w'))"
      using assms(3) None m
      by (auto simp: MyHandler_ServeHTTP_def Handler_ServeHTTP_def bindO_Done_iff)
    ultimately show ?thesis by (rule still_served.R_handle [OF assms(1)])
  qed (use None assms(3) in \<open>simp add: MyHandler_ServeHTTP_def Handler_ServeHTTP_def\<close>)
qed (use assms(3) in \<open>simp add: MyHandler_ServeHTTP_def\<close>)

end
