(* ===== verification/Remote.thy ===== *)
theory Remote
  imports Serving
begin

text \<open>
  The client of \<open>rest/client.go\<close> and the server of \<open>govisord\<close> put together: the address that the client
  writes is the path that the server reads, an answer of the server is the answer the client
  decodes.  The escapes are those of \<open>net/url\<close>; the router is still a parameter, with its documented
  behaviour on the routes the server registers.
\<close>

section \<open>Addresses\<close>

text \<open>Reading a path: \<open>%XX\<close> is a byte and anything else itself; \<open>None\<close> is a malformed escape.\<close>

fun path_unescape :: "string \<Rightarrow> string option" where
  "path_unescape [] = Some []"
| "path_unescape (c # cs) =
     (if c = CHR ''%'' then
        (case cs of
           a # b # rest \<Rightarrow>
             (case (hex_value a, hex_value b) of
                (Some x, Some y) \<Rightarrow> map_option (Cons (char_of (16 * x + y))) (path_unescape rest)
              | _ \<Rightarrow> None)
         | _ \<Rightarrow> None)
      else map_option (Cons c) (path_unescape cs))"

lemma upper_digits_ok: "\<forall>d \<in> set [0..<16]. hex_value (upper_hex d) = Some d"
  by code_simp

lemma hex_value_upper [simp]: "d < 16 \<Longrightarrow> hex_value (upper_hex d) = Some d"
  using upper_digits_ok by simp

lemma unreserved_percent [simp]: "\<not> unreserved (CHR ''%'')"
  by (simp add: unreserved_def)

text \<open>A space comes back as the plus sign, which stands for a space only in a query.\<close>

definition seen_name :: "string \<Rightarrow> string" where
  "seen_name = map (\<lambda>c. if c = CHR '' '' then CHR ''+'' else c)"

lemma QueryEscape_simps [simp]:
  "QueryEscape [] = []"
  "QueryEscape (c # cs) = (if c = CHR '' '' then ''+'' else if unreserved c then [c]
     else [CHR ''%'', upper_hex (of_char c div 16), upper_hex (of_char c mod 16)]) @ QueryEscape cs"
  by (simp_all add: QueryEscape_def)

lemma seen_name_simps [simp]:
  "seen_name [] = []" "seen_name (c # cs) = (if c = CHR '' '' then CHR ''+'' else c) # seen_name cs"
  by (simp_all add: seen_name_def)

lemma path_unescape_QueryEscape:
  "path_unescape (QueryEscape s @ rest) = map_option ((@) (seen_name s)) (path_unescape rest)"
proof (induction s)
  case Nil
  show ?case by (cases "path_unescape rest") simp_all
next
  case (Cons c s)
  have "(of_char c :: nat) < 256" by (rule nat_of_char_less_256)
  then have "hex_value (upper_hex (of_char c div 16)) = Some (of_char c div 16)"
    "hex_value (upper_hex (of_char c mod 16)) = Some (of_char c mod 16)"
    by (simp_all add: hex_value_upper less_mult_imp_div_less)
  moreover have "char_of (16 * (of_char c div 16) + of_char c mod 16 :: nat) = c" by simp
  moreover have "c \<noteq> CHR ''%''" if "unreserved c" using that by auto
  ultimately show ?case using Cons.IH by (cases "path_unescape rest") auto
qed

lemma path_unescape_plain:
  "CHR ''%'' \<notin> set s \<Longrightarrow> path_unescape (s @ rest) = map_option ((@) s) (path_unescape rest)"
  by (induction s; cases "path_unescape rest") auto

section \<open>The network\<close>

text \<open>
  The server's request for a call of a client whose address begins with \<open>base\<close>; \<open>None\<close> when there is no
  such address.  An empty path is the root.
\<close>

definition method_of :: "string \<Rightarrow> http_method" where
  "method_of m = (if m = ''GET'' then GET else if m = ''POST'' then POST else OtherMethod m)"

definition request_of :: "string \<Rightarrow> http_call \<Rightarrow> request option" where
  "request_of base call =
     (if take (length base) (hc_Url call) \<noteq> base then None
      else map_option (\<lambda>p.
        \<lparr>rq_Method = method_of (hc_Method call), rq_Path = (if p = [] then ''/'' else p),
         rq_PollEtag = hc_PollEtag call, rq_PollTime = hc_PollTime call, rq_IfNoneMatch = hc_IfNoneMatch call,
         rq_IfModifiedSince = NoDate, rq_BasicAuth = hc_BasicAuth call\<rparr>)
        (path_unescape (drop (length base) (hc_Url call))))"

text \<open>The text of the status line does not matter: every error of the server has a body of its own.\<close>

definition answer_of :: "response \<Rightarrow> body http_answer" where
  "answer_of r =
     \<lparr>ha_StatusCode = rs_Status r, ha_Status = [], ha_Etag = (case rs_Etag r of None \<Rightarrow> [] | Some t \<Rightarrow> t),
      ha_Body = Inr (rs_Body r)\<rparr>"

text \<open>A network on which the calls reach a server; an answer that does not come is a time-out.\<close>

definition server_network ::
  "string \<Rightarrow> (request \<Rightarrow> 'w \<Rightarrow> (response \<times> 'w) option outcome) \<Rightarrow> (body, 'w) transport" where
  "server_network base serve call w =
     (case request_of base call of
        None \<Rightarrow> (Inl (NetError ''no such address''), w)
      | Some r \<Rightarrow>
          (case serve r w of
             Done (Some (resp, w1)) \<Rightarrow> (Inr (answer_of resp), w1)
           | _ \<Rightarrow> (Inl DeadlineExceeded, w)))"

text \<open>
  The router on paths that match a route: \<open>{service}\<close> stands for a segment, that is not empty, has no
  slash and is no \<open>.\<close> or \<open>..\<close> (which the router cleans away).
\<close>

definition segment :: "string \<Rightarrow> bool" where
  "segment name \<longleftrightarrow> name \<noteq> [] \<and> CHR ''/'' \<notin> set name \<and> name \<noteq> ''.'' \<and> name \<noteq> ''..''"

definition routes_by_path ::
  "((string \<times> endpoint \<times> http_method) list \<Rightarrow> request \<Rightarrow> response + endpoint \<times> string) \<Rightarrow> bool" where
  "routes_by_path mux \<longleftrightarrow>
     (\<forall>r ep. rq_Path r \<in> {''/'', ''/log'', ''/services''} \<and> (rq_Path r, ep, rq_Method r) \<in> set handler_routes \<longrightarrow>
        mux handler_routes r = Inr (ep, [])) \<and>
     (\<forall>r ep name tail. segment name \<and> rq_Path r = ''/services/'' @ name @ tail \<and>
        (''/services/{service}'' @ tail, ep, rq_Method r) \<in> set handler_routes \<longrightarrow>
        mux handler_routes r = Inr (ep, name))"

lemma client_path:
  "name \<noteq> [] \<Longrightarrow> CHR ''%'' \<notin> set tail \<Longrightarrow>
   path_unescape (drop (length (rc_base c)) (client_url c name @ tail)) =
     Some (''/services/'' @ seen_name name @ tail)"
  using path_unescape_plain [of "''/services/''" "QueryEscape name @ tail"] path_unescape_plain [of tail "[]"]
  by (simp add: client_url_def path_unescape_QueryEscape)

section \<open>Requests of the client at the server\<close>

definition passes :: "(string \<Rightarrow> string \<Rightarrow> bool) \<Rightarrow> auth \<Rightarrow> client \<Rightarrow> bool" where
  "passes bcrypt h c \<longleftrightarrow>
     (au_auth h \<longrightarrow> rc_auth c \<and> (\<exists>enc. map_of (au_passwd h) (rc_user c) = Some enc \<and> bcrypt enc (rc_pass c)))"

lemma passes_authenticate:
  "passes bcrypt h c \<Longrightarrow> rq_BasicAuth r = basic_auth c \<Longrightarrow> authenticate bcrypt h r = None"
  by (auto simp: passes_def authenticate_def basic_auth_def)

lemma enableService_spec:
  assumes "inv w"
  shows "\<exists>r w'. enableService P name w = Done (r, w') \<and> inv w' \<and>
    (if \<exists>s \<in> set (managed w). sname (svc w s) = name
     then \<exists>s \<in> set (managed w). sname (svc w s) = name \<and>
       (if \<not> enabled (svc w s) \<and> (\<exists>c \<in> set (incompat (svc w s)). enabled (svc w c))
        then r = writeError \<lparr>re_Code = 400, re_Message = ''Conflicting service enabled''\<rparr>
        else r = writeJson OkBody \<and> enabled (svc w' s))
     else r = writeError \<lparr>re_Code = 404, re_Message = ''Service not found''\<rparr> \<and> w' = snd (Services w))"
proof -
  let ?w1 = "snd (Services w)"
  note w1 = Services_inv [OF assms]
  show ?thesis
  proof (cases rule: findService_cases [OF assms, where name = name, case_names found missing])
    case missing
    then have "\<not> (\<exists>s \<in> set (managed w). sname (svc w s) = name)" by blast
    then show ?thesis
      using w1(1) by (simp add: enableService_def missing(1) not_found_def StatusNotFound_def)
  next
    case (found s)
    have m: "s \<in> set (managed ?w1)" using found(2) w1(3) by simp
    obtain e w' where e: "Enable P s ?w1 = Done (e, w')" "keeps ?w1 w'"
        and spec: "if \<not> enabled (svc w s) \<and> (\<exists>c \<in> set (incompat (svc w s)). enabled (svc w c))
         then e = Some ErrConflict \<and> (\<forall>u. flags_of (svc w' u) = flags_of (svc w u))
         else e = None \<and> enabled (svc w' s) \<and> (\<not> enabled (svc w s) \<and> satisfied ?w1 s \<longrightarrow>
           running (svc w' s) \<or> failed (svc w' s))"
      using Enable_spec [OF w1(1) m, of P]
      by (force simp only: w1(2) returns_iff split_paired_all prod.case)
    define r where "r = (case e of None \<Rightarrow> writeJson OkBody
      | Some er \<Rightarrow> writeError \<lparr>re_Code = StatusBadRequest, re_Message = error_text er\<rparr>)"
    have run: "enableService P name w = Done (r, w')"
      by (simp add: enableService_def found(1) e(1) r_def split: option.split)
    have r: "if \<not> enabled (svc w s) \<and> (\<exists>c \<in> set (incompat (svc w s)). enabled (svc w c))
        then r = writeError \<lparr>re_Code = 400, re_Message = ''Conflicting service enabled''\<rparr>
        else r = writeJson OkBody \<and> enabled (svc w' s)"
      using spec by (simp add: r_def StatusBadRequest_def split: if_splits)
    have ex: "\<exists>s \<in> set (managed w). sname (svc w s) = name" using found by blast
    show ?thesis
      unfolding if_P [OF ex] using run keeps_inv [OF e(2)] found(2,3) r by blast
  qed
qed

text \<open>What a client learns from the answer to a request that changes state.\<close>

lemma client_post_answer:
  assumes "request_of (rc_base c) \<lparr>hc_Method = ''POST'', hc_Url = url, hc_BasicAuth = basic_auth c,
      hc_IfNoneMatch = [], hc_PollEtag = [], hc_PollTime = [], hc_ContentType = ''text/plain''\<rparr> = Some r"
    and "serve r w = Done (Some (resp, w'))" and "\<And>e er. de_Error D (ErrorBody e) er = Some e"
  shows "resp = writeJson OkBody \<Longrightarrow> client_post (server_network (rc_base c) serve) D c url w = (None, w')"
    and "resp = writeError e \<Longrightarrow> re_Code e \<noteq> 200 \<Longrightarrow>
      client_post (server_network (rc_base c) serve) D c url w = (Some (RestFailure e), w')"
  using assms
  by (simp_all add: client_post_def server_network_def answer_of_def writeJson_def writeError_def StatusOK_def
      answer_error_def)

text \<open>What the client decodes is what the server encoded.\<close>

definition json_works :: "(body \<Rightarrow> string option) \<Rightarrow> body decoders \<Rightarrow> bool" where
  "json_works marshal D \<longleftrightarrow>
     (\<forall>b. marshal b = None) \<and> (\<forall>ns. de_Names D (NamesBody ns) = Inr ns) \<and>
     (\<forall>e er. de_Error D (ErrorBody e) er = Some e)"

text \<open>The call passes the password check and the router and reaches the service that its address names.\<close>

lemma client_enables_service:
  assumes "inv w" and "passes bcrypt h c" and "routes_by_path mux" and "segment (seen_name name)"
    and "json_works marshal D"
  shows "\<exists>res w'. client_EnableService
      (server_network (rc_base c) (MyHandler_ServeHTTP bcrypt h mux marshal P W n)) D c name w = (res, w') \<and> inv w' \<and>
    (if \<exists>s \<in> set (managed w). sname (svc w s) = seen_name name
     then \<exists>s \<in> set (managed w). sname (svc w s) = seen_name name \<and>
       (if \<not> enabled (svc w s) \<and> (\<exists>c \<in> set (incompat (svc w s)). enabled (svc w c))
        then res = Some (RestFailure \<lparr>re_Code = 400, re_Message = ''Conflicting service enabled''\<rparr>)
        else res = None \<and> enabled (svc w' s))
     else res = Some (RestFailure \<lparr>re_Code = 404, re_Message = ''Service not found''\<rparr>))"
proof -
  let ?serve = "MyHandler_ServeHTTP bcrypt h mux marshal P W n"
  let ?url = "client_url c name @ ''/enable''"
  have "name \<noteq> []" using assms(4) by (auto simp: segment_def)
  then obtain r where r: "request_of (rc_base c) \<lparr>hc_Method = ''POST'', hc_Url = ?url, hc_BasicAuth = basic_auth c,
        hc_IfNoneMatch = [], hc_PollEtag = [], hc_PollTime = [], hc_ContentType = ''text/plain''\<rparr> = Some r"
      "rq_Method r = POST" "rq_Path r = ''/services/'' @ seen_name name @ ''/enable''" "rq_BasicAuth r = basic_auth c"
    using client_path [of name "''/enable''" c] by (simp add: request_of_def method_of_def client_url_def)
  have "mux handler_routes r = Inr (EpEnable, seen_name name)"
    using assms(3,4) r(2,3) by (simp add: routes_by_path_def handler_routes_def)
  moreover obtain resp w' where e: "enableService P (seen_name name) w = Done (resp, w')" "inv w'"
      "if \<exists>s \<in> set (managed w). sname (svc w s) = seen_name name
       then \<exists>s \<in> set (managed w). sname (svc w s) = seen_name name \<and>
         (if \<not> enabled (svc w s) \<and> (\<exists>c \<in> set (incompat (svc w s)). enabled (svc w c))
          then resp = writeError \<lparr>re_Code = 400, re_Message = ''Conflicting service enabled''\<rparr>
          else resp = writeJson OkBody \<and> enabled (svc w' s))
       else resp = writeError \<lparr>re_Code = 404, re_Message = ''Service not found''\<rparr> \<and> w' = snd (Services w)"
    using enableService_spec [OF assms(1), of P "seen_name name"] by blast
  ultimately have "?serve r w = Done (Some (resp, w'))"
    using passes_authenticate [OF assms(2) r(4)]
    by (simp add: MyHandler_ServeHTTP_def Handler_ServeHTTP_def handle_def marshalled_def assms(5) [unfolded json_works_def])
  moreover have "de_Error D (ErrorBody e) er = Some e" for e er using assms(5) by (simp add: json_works_def)
  ultimately have answer: "resp = writeJson OkBody \<Longrightarrow> client_post (server_network (rc_base c) ?serve) D c ?url w = (None, w')"
    "\<And>e. resp = writeError e \<Longrightarrow> re_Code e \<noteq> 200 \<Longrightarrow>
      client_post (server_network (rc_base c) ?serve) D c ?url w = (Some (RestFailure e), w')"
    using client_post_answer [where D = D and serve = ?serve, OF r(1)] by blast+
  show ?thesis
  proof (cases "\<exists>s \<in> set (managed w). sname (svc w s) = seen_name name")
    case True
    then obtain s where s: "s \<in> set (managed w)" "sname (svc w s) = seen_name name"
        "if \<not> enabled (svc w s) \<and> (\<exists>c \<in> set (incompat (svc w s)). enabled (svc w c))
         then resp = writeError \<lparr>re_Code = 400, re_Message = ''Conflicting service enabled''\<rparr>
         else resp = writeJson OkBody \<and> enabled (svc w' s)"
      using e(3) unfolding if_P [OF True] by blast
    show ?thesis
      unfolding client_EnableService_def postService_def if_P [OF True]
      using answer(1) answer(2) e(2) s by (cases "\<not> enabled (svc w s) \<and> (\<exists>c \<in> set (incompat (svc w s)). enabled (svc w c))") auto
  next
    case False
    then have "resp = writeError \<lparr>re_Code = 404, re_Message = ''Service not found''\<rparr>"
      using e(3) unfolding if_not_P [OF False] by blast
    then show ?thesis
      unfolding client_EnableService_def postService_def if_not_P [OF False]
      using answer(2) e(2) by simp
  qed
qed

section \<open>A router\<close>

text \<open>An instance of the parameter, with which the theorems are applied: it compares segment by segment.\<close>

abbreviation segments :: "string \<Rightarrow> string list" where
  "segments \<equiv> split_at (CHR ''/'')"

lemma segments_append: "CHR ''/'' \<notin> set a \<Longrightarrow> segments (a @ CHR ''/'' # b) = a # segments b"
  by (induction a) auto

fun match_segments :: "string list \<Rightarrow> string list \<Rightarrow> string option" where
  "match_segments [] [] = Some []"
| "match_segments (t # ts) (x # xs) =
     (if t = ''{service}'' then if x = [] then None else map_option (\<lambda>_. x) (match_segments ts xs)
      else if t = x then match_segments ts xs else None)"
| "match_segments _ _ = None"

definition sample_router ::
  "(string \<times> endpoint \<times> http_method) list \<Rightarrow> request \<Rightarrow> response + endpoint \<times> string" where
  "sample_router rs r =
     (let xs = segments (rq_Path r)
      in case find (\<lambda>(t, ep, m). m = rq_Method r \<and> match_segments t xs \<noteq> None) (map (\<lambda>(t, x). (segments t, x)) rs) of
           None \<Rightarrow> Inl (http_Error ''404 page not found'' StatusNotFound notModified)
         | Some (t, ep, m) \<Rightarrow> Inr (ep, the (match_segments t xs)))"

lemma sample_router_method: "routes_by_method sample_router"
proof -
  have "\<exists>path. (path, ep, rq_Method r) \<in> set rs" if route: "sample_router rs r = Inr (ep, name)" for rs r ep name
  proof -
    let ?Q = "\<lambda>(t, ep, m). m = rq_Method r \<and> match_segments t (segments (rq_Path r)) \<noteq> None"
    let ?rs = "map (\<lambda>(t, x). (segments t, x)) rs"
    obtain t ep' m where f: "find ?Q ?rs = Some (t, ep', m)"
      using route by (cases "find ?Q ?rs") (auto simp: sample_router_def Let_def)
    then have "ep' = ep" using route by (simp add: sample_router_def Let_def)
    moreover have "(t, ep', m) \<in> set ?rs" "m = rq_Method r" using find_SomeD [OF f] by auto
    ultimately have "(t, ep, rq_Method r) \<in> set ?rs" by (simp only:)
    then show ?thesis by auto
  qed
  then show ?thesis by (simp add: routes_by_method_def)
qed

lemma handler_segments:
  "map (\<lambda>(t, x). (segments t, x)) handler_routes =
    [([[], []], EpManager, GET), ([[], ''log''], EpManagerLog, GET), ([[], ''services''], EpServices, GET),
     ([[], ''services'', ''{service}''], EpService, GET), ([[], ''services'', ''{service}'', ''enable''], EpEnable, POST),
     ([[], ''services'', ''{service}'', ''disable''], EpDisable, POST), ([[], ''services'', ''{service}'', ''clear''], EpClear, POST),
     ([[], ''services'', ''{service}'', ''restart''], EpRestart, POST), ([[], ''services'', ''{service}'', ''log''], EpLog, GET)]"
  by code_simp

lemma service_segments:
  assumes "segment name"
  shows "segments (''/services/'' @ name) = [[], ''services'', name]"
    "CHR ''/'' \<notin> set act \<Longrightarrow> segments (''/services/'' @ name @ CHR ''/'' # act) = [[], ''services'', name, act]"
proof -
  have "segments (''/services/'' @ x) = [] # ''services'' # segments x" for x
    using segments_append [of "''services''" x] by simp
  then show "segments (''/services/'' @ name) = [[], ''services'', name]"
    "CHR ''/'' \<notin> set act \<Longrightarrow> segments (''/services/'' @ name @ CHR ''/'' # act) = [[], ''services'', name, act]"
    using assms segments_append [of name act] 
    by (simp_all add: segment_def)
qed

lemma sample_router_service:
  assumes "segment name"
  shows "rq_Path r = ''/services/'' @ name \<Longrightarrow> rq_Method r = GET \<Longrightarrow> sample_router handler_routes r = Inr (EpService, name)"
    and "rq_Path r = ''/services/'' @ name @ ''/enable'' \<Longrightarrow> rq_Method r = POST \<Longrightarrow> sample_router handler_routes r = Inr (EpEnable, name)"
    and "rq_Path r = ''/services/'' @ name @ ''/disable'' \<Longrightarrow> rq_Method r = POST \<Longrightarrow> sample_router handler_routes r = Inr (EpDisable, name)"
    and "rq_Path r = ''/services/'' @ name @ ''/clear'' \<Longrightarrow> rq_Method r = POST \<Longrightarrow> sample_router handler_routes r = Inr (EpClear, name)"
    and "rq_Path r = ''/services/'' @ name @ ''/restart'' \<Longrightarrow> rq_Method r = POST \<Longrightarrow> sample_router handler_routes r = Inr (EpRestart, name)"
    and "rq_Path r = ''/services/'' @ name @ ''/log'' \<Longrightarrow> rq_Method r = GET \<Longrightarrow> sample_router handler_routes r = Inr (EpLog, name)"
  using assms service_segments [OF assms]
  by (simp_all add: sample_router_def handler_segments segment_def)

lemma sample_router_fixed:
  "rq_Path r = ''/'' \<Longrightarrow> rq_Method r = GET \<Longrightarrow> sample_router handler_routes r = Inr (EpManager, [])"
  "rq_Path r = ''/log'' \<Longrightarrow> rq_Method r = GET \<Longrightarrow> sample_router handler_routes r = Inr (EpManagerLog, [])"
  "rq_Path r = ''/services'' \<Longrightarrow> rq_Method r = GET \<Longrightarrow> sample_router handler_routes r = Inr (EpServices, [])"
  by (simp_all add: sample_router_def handler_segments)

lemma sample_router_path: "routes_by_path sample_router"
proof -
  have "sample_router handler_routes r = Inr (ep, name)"
    if "segment name" "rq_Path r = ''/services/'' @ name @ tail"
      "(''/services/{service}'' @ tail, ep, rq_Method r) \<in> set handler_routes" for r ep name tail
  proof -
    have "(tail, ep, rq_Method r) \<in> {([], EpService, GET), (''/enable'', EpEnable, POST), (''/disable'', EpDisable, POST),
        (''/clear'', EpClear, POST), (''/restart'', EpRestart, POST), (''/log'', EpLog, GET)}"
      using that(3) by (auto simp: handler_routes_def)
    then show ?thesis using sample_router_service [OF that(1), of r] that(2) by auto
  qed
  moreover have "sample_router handler_routes r = Inr (ep, [])"
    if "rq_Path r \<in> {''/'', ''/log'', ''/services''}" "(rq_Path r, ep, rq_Method r) \<in> set handler_routes" for r ep
    using that sample_router_fixed [of r] by (auto simp: handler_routes_def)
  ultimately show ?thesis by (simp add: routes_by_path_def)
qed

end
