(* ===== verification/Process.thy ===== *)
theory Process
  imports ServiceApi
begin

text \<open>
  Operating system processes as providers (\<open>process.go\<close>): a state machine that starts a command,
  is told of its end by the goroutine \<open>doWait\<close>, and stops it with a signal or a command and a
  timeout.  The kernel is a parameter, the record \<open>os_calls\<close> of what the system calls return;
  \<open>time.AfterFunc\<close> enters as the answer to the question whether the process took too long.
\<close>

section \<open>State\<close>

record process =
  pr_name :: string
  pr_desc :: string
  pr_provides :: "string list"
  pr_depends :: "string list"
  pr_conflicts :: "string list"
  pr_logger :: "out_logger option"
  pr_reason :: "error option"
  pr_failed :: bool
  pr_stopped :: bool
  pr_stopTime :: duration
  pr_failOnExit :: bool
  pr_stopCmd :: "command option"
  pr_checkCmd :: "command option"
  pr_startCmd :: "command option"
  pr_process :: "int option"          \<comment> \<open>the pid\<close>
  pr_directory :: string
  pr_waiter :: nat                    \<comment> \<open>the counter of the \<open>sync.WaitGroup\<close>\<close>

text \<open>
  The kernel in state \<open>'o\<close>: make a pipe, start a command (an error or a pid), send SIGTERM, kill, wait
  for a process to end (the error is that of \<open>cmd.Wait\<close>), and wait no longer than some time for it.
\<close>

datatype wait_result = Ended "error option" | StillRunning

record 'o os_calls =
  os_Pipe :: "'o \<Rightarrow> error option \<times> 'o"
  os_Start :: "command \<Rightarrow> 'o \<Rightarrow> (error + int) \<times> 'o"
  os_Terminate :: "int \<Rightarrow> 'o \<Rightarrow> error option \<times> 'o"
  os_Kill :: "int \<Rightarrow> 'o \<Rightarrow> error option \<times> 'o"
  os_Wait :: "int \<Rightarrow> 'o \<Rightarrow> error option \<times> 'o"
  os_WaitFor :: "int \<Rightarrow> duration \<Rightarrow> 'o \<Rightarrow> wait_result \<times> 'o"
  os_Environ :: "string list"

type_synonym lines = "(out_logger \<times> string) list"

text \<open>
  \<open>p.logger.Printf\<close>.  A process is only run by the service that \<open>NewService\<close> made for it, and
  \<open>NewService\<close> gives it a logger first.
\<close>

definition print_log :: "process \<Rightarrow> string \<Rightarrow> lines" where
  "print_log p msg = (case pr_logger p of None \<Rightarrow> [] | Some l \<Rightarrow> [(l, msg)])"

text \<open>\<open>doLog\<close>: the lines of the output, each without its newline and behind the prefix.\<close>

definition doLog :: "string \<Rightarrow> string list \<Rightarrow> process \<Rightarrow> lines" where
  "doLog prefix ls p =
     concat (map (\<lambda>line. if line \<noteq> [] then print_log p (prefix @ trim_newlines line) else []) ls)"

text \<open>
  \<open>cmd.StdoutPipe()\<close> and \<open>cmd.StderrPipe()\<close> of \<open>os/exec\<close> on a command that has not started: an error,
  or the command with that output connected.
\<close>

definition StdoutPipe :: "'o os_calls \<Rightarrow> command \<Rightarrow> 'o \<Rightarrow> (error + command) \<times> 'o" where
  "StdoutPipe os c w =
     (if cmd_Stdout c then (Inl (OtherError ''exec: Stdout already set''), w)
      else case os_Pipe os w of
             (Some e, w1) \<Rightarrow> (Inl e, w1)
           | (None, w1) \<Rightarrow> (Inr (c\<lparr>cmd_Stdout := True\<rparr>), w1))"

definition StderrPipe :: "'o os_calls \<Rightarrow> command \<Rightarrow> 'o \<Rightarrow> (error + command) \<times> 'o" where
  "StderrPipe os c w =
     (if cmd_Stderr c then (Inl (OtherError ''exec: Stderr already set''), w)
      else case os_Pipe os w of
             (Some e, w1) \<Rightarrow> (Inl e, w1)
           | (None, w1) \<Rightarrow> (Inr (c\<lparr>cmd_Stderr := True\<rparr>), w1))"

text \<open>
  What \<open>Start\<close> and \<open>runCmdWithTimeout\<close> do with the answer: a failure is logged and the command goes on without.
  The goroutine \<open>doLog\<close> that reads the pipe prints while other operations run.
\<close>

definition captured ::
  "string \<Rightarrow> process \<Rightarrow> command \<Rightarrow> (error + command) \<times> 'o \<Rightarrow> command \<times> lines \<times> 'o" where
  "captured stream p c r =
     (case r of
        (Inl e, w) \<Rightarrow> (c, print_log p (''Failed to capture '' @ stream @ '': '' @ error_text e), w)
      | (Inr c', w) \<Rightarrow> (c', [], w))"

section \<open>Running\<close>

text \<open>\<open>Start\<close> with the command \<open>cmd\<close>; a process without one makes the method panic.\<close>

definition start_command ::
  "'o os_calls \<Rightarrow> command \<Rightarrow> process \<Rightarrow> 'o \<Rightarrow> error option \<times> process \<times> lines \<times> 'o" where
  "start_command os cmd p w =
     (let p1 = p\<lparr>pr_stopped := False, pr_failed := False, pr_reason := None\<rparr>;
          (cmd1, out1, w1) =
            (if \<not> cmd_Stdout cmd then captured ''stdout'' p1 cmd (StdoutPipe os cmd w) else (cmd, [], w));
          (cmd2, out2, w2) =
            (if \<not> cmd_Stderr cmd1 then captured ''stderr'' p1 cmd1 (StderrPipe os cmd1 w1) else (cmd1, [], w1))
      in case os_Start os cmd2 w2 of
           (Inl e, w3) \<Rightarrow> (Some e, p1\<lparr>pr_failed := True, pr_reason := Some e\<rparr>, out1 @ out2, w3)
         | (Inr pid, w3) \<Rightarrow>
             (None, p1\<lparr>pr_process := Some pid, pr_waiter := pr_waiter p1 + 1\<rparr>,
               out1 @ out2 @ print_log p1 (''Process id '' @ dec_of_int pid), w3))"

definition process_Start ::
  "'o os_calls \<Rightarrow> process \<Rightarrow> 'o \<Rightarrow> (error option \<times> process \<times> lines \<times> 'o) outcome" where
  "process_Start os p w =
     (case pr_startCmd p of
        None \<Rightarrow> Panic NilDereference
      | Some cmd \<Rightarrow> Done (start_command os cmd p w))"

text \<open>The goroutine \<open>doWait\<close> after \<open>cmd.Wait()\<close> returned \<open>e\<close>.\<close>

definition doWait :: "error option \<Rightarrow> process \<Rightarrow> process \<times> lines" where
  "doWait e p =
     (let p1 = p\<lparr>pr_process := None\<rparr>;
          (p2, out) =
            (if \<not> pr_stopped p1 then
               case e of
                 Some er \<Rightarrow> (p1\<lparr>pr_failed := True, pr_reason := Some er\<rparr>,
                   print_log p1 (''Failed: '' @ error_text er))
               | None \<Rightarrow>
                   if pr_failOnExit p1 then
                     let er = OtherError ''Unexpected termination''
                     in (p1\<lparr>pr_reason := Some er, pr_failed := True\<rparr>,
                         print_log p1 (''Failed: '' @ error_text er))
                   else (p1, [])
             else (p1, []))
      in (p2\<lparr>pr_waiter := pr_waiter p2 - 1\<rparr>, out))"

text \<open>The command of \<open>runCmdWithTimeout\<close> with \<open>PID=...\<close> in its environment, and its time limit.\<close>

definition cmd_with_pid :: "string list \<Rightarrow> int option \<Rightarrow> command \<Rightarrow> command" where
  "cmd_with_pid environ pid c =
     (case pid of
        None \<Rightarrow> c
      | Some n \<Rightarrow>
          c\<lparr>cmd_env := Some ((case cmd_env c of None \<Rightarrow> environ | Some e \<Rightarrow> e) @ [''PID='' @ dec_of_int n])\<rparr>)"

text \<open>
  Waiting for a process under a \<open>time.AfterFunc\<close>: when it has not ended in time, \<open>expire\<close> runs and the
  wait goes on.
\<close>

definition wait_expiring ::
  "'o os_calls \<Rightarrow> int \<Rightarrow> duration \<Rightarrow> ('o \<Rightarrow> lines \<times> 'o) \<Rightarrow> 'o \<Rightarrow> error option \<times> lines \<times> 'o" where
  "wait_expiring os pid d expire w =
     (case os_WaitFor os pid d w of
        (Ended e, w1) \<Rightarrow> (e, [], w1)
      | (StillRunning, w1) \<Rightarrow>
          let (out, w2) = expire w1; (e, w3) = os_Wait os pid w2 in (e, out, w3))"

definition runCmdWithTimeout ::
  "'o os_calls \<Rightarrow> string \<Rightarrow> command \<Rightarrow> duration \<Rightarrow> process \<Rightarrow> 'o \<Rightarrow> error option \<times> lines \<times> 'o" where
  "runCmdWithTimeout os pfx c d p w =
     (let newc = cmd_with_pid (os_Environ os) (pr_process p) c;
          d1 = (if d = 0 then second * 10 else d);
          (newc1, out1, w1) = captured ''stderr'' p newc (StderrPipe os newc w);
          (newc2, out2, w2) = captured ''stdout'' p newc1 (StdoutPipe os newc1 w1)
      in case os_Start os newc2 w2 of
           (Inl e, w3) \<Rightarrow> (Some e, out1 @ out2, w3)
         | (Inr proc, w3) \<Rightarrow>
             let (e, out3, w4) = wait_expiring os proc d1
                   (\<lambda>w. (print_log p (''Timeout waiting for '' @ pfx @ '' command''), snd (os_Kill os proc w))) w3
             in (e, out1 @ out2 @ out3, w4))"

definition shutdown :: "'o os_calls \<Rightarrow> process \<Rightarrow> 'o \<Rightarrow> lines \<times> 'o" where
  "shutdown os p w =
     (case pr_process p of
        None \<Rightarrow> ([], w)
      | Some pid \<Rightarrow>
          if pid \<noteq> -1 then
            case pr_stopCmd p of
              None \<Rightarrow>
                (case os_Terminate os pid w of
                   (None, w1) \<Rightarrow> ([], w1)
                 | (Some e, w1) \<Rightarrow> (print_log p (''Failed sending SIGTERM: '' @ error_text e), w1))
            | Some c \<Rightarrow>
                (case runCmdWithTimeout os ''stop'' c (pr_stopTime p) p w of
                   (None, out, w1) \<Rightarrow> (out, w1)
                 | (Some e, out, w1) \<Rightarrow> (out @ print_log p (''Failed stop cmd: '' @ error_text e), w1))
          else ([], w))"

definition kill :: "'o os_calls \<Rightarrow> process \<Rightarrow> 'o \<Rightarrow> lines \<times> 'o" where
  "kill os p w =
     (case pr_process p of
        None \<Rightarrow> ([], w)
      | Some pid \<Rightarrow>
          (case os_Kill os pid w of
             (None, w1) \<Rightarrow> ([], w1)
           | (Some e, w1) \<Rightarrow> (print_log p (''Failed killing: '' @ error_text e), w1)))"

text \<open>
  \<open>Stop\<close>: the wait on \<open>p.waiter\<close> ends when \<open>doWait\<close> has run; the timer, when there is one, kills
  the process that takes longer.
\<close>

definition process_Stop :: "'o os_calls \<Rightarrow> process \<Rightarrow> 'o \<Rightarrow> process \<times> lines \<times> 'o" where
  "process_Stop os p w =
     (let p1 = p\<lparr>pr_stopped := True\<rparr>
      in case pr_process p1 of
           None \<Rightarrow> (p1\<lparr>pr_process := None\<rparr>, [], w)
         | Some pid \<Rightarrow>
             let (out1, w1) = shutdown os p1 w;
                 (e, out2, w2) =
                   (if pr_stopTime p1 > 0 then
                      wait_expiring os pid (pr_stopTime p1)
                        (\<lambda>w. let (out, w') = kill os p1 w in (print_log p1 ''Graceful shutdown timed out'' @ out, w')) w1
                    else let (e, w') = os_Wait os pid w1 in (e, [], w'));
                 (p2, out3) = doWait e p1
             in (p2\<lparr>pr_process := None\<rparr>, out1 @ out2 @ out3, w2))"

definition process_Check :: "process \<Rightarrow> error option" where
  "process_Check p = (if pr_failed p then pr_reason p else None)"

section \<open>Properties\<close>

definition PropProcessFailOnExit :: property_name where
  "PropProcessFailOnExit = OtherProperty ''_ProcFailOnExit''"

definition PropProcessStopCmd :: property_name where
  "PropProcessStopCmd = OtherProperty ''_ProcStopCmd''"

definition PropProcessStopTime :: property_name where
  "PropProcessStopTime = OtherProperty ''_ProcStopTime''"

definition PropProcessCheckCmd :: property_name where
  "PropProcessCheckCmd = OtherProperty ''_ProcCheckCmd''"

definition PropProcessDirectory :: property_name where
  "PropProcessDirectory = OtherProperty ''_ProcDirectory''"

definition process_SetProperty :: "property_name \<Rightarrow> provval \<Rightarrow> process \<Rightarrow> error option \<times> process" where
  "process_SetProperty n v p =
     (if n = PropLogger then
        case v of
          FromUser (VLogger k) \<Rightarrow> (None, p\<lparr>pr_logger := Some (ToUser k)\<rparr>)
        | ServiceLogger s \<Rightarrow> (None, p\<lparr>pr_logger := Some (ToService s)\<rparr>)
        | _ \<Rightarrow> (Some ErrBadPropType, p)
      else if n = PropProcessFailOnExit then
        case v of FromUser (VBool b) \<Rightarrow> (None, p\<lparr>pr_failOnExit := b\<rparr>) | _ \<Rightarrow> (Some ErrBadPropType, p)
      else if n = PropProcessStopTime then
        case v of FromUser (VDuration d) \<Rightarrow> (None, p\<lparr>pr_stopTime := d\<rparr>) | _ \<Rightarrow> (Some ErrBadPropType, p)
      else if n = PropProcessStopCmd then
        case v of FromUser (VCommand c) \<Rightarrow> (None, p\<lparr>pr_stopCmd := Some c\<rparr>) | _ \<Rightarrow> (Some ErrBadPropType, p)
      else if n = PropProcessDirectory then
        case v of FromUser (VString d) \<Rightarrow> (None, p\<lparr>pr_directory := d\<rparr>) | _ \<Rightarrow> (Some ErrBadPropType, p)
      else (Some ErrBadPropName, p))"

text \<open>A logger as the value of a property: the pointer that \<open>SetProperty\<close> was given.\<close>

definition logger_value :: "out_logger option \<Rightarrow> provval" where
  "logger_value l = (case l of None \<Rightarrow> FromUser VNil | Some (ToUser k) \<Rightarrow> FromUser (VLogger k) |
     Some (ToService s) \<Rightarrow> ServiceLogger s)"

definition process_Property :: "property_name \<Rightarrow> process \<Rightarrow> error + provval" where
  "process_Property n p =
     (if n = PropLogger then Inr (logger_value (pr_logger p))
      else if n = PropProcessFailOnExit then Inr (FromUser (VBool (pr_failOnExit p)))
      else if n = PropProcessStopTime then Inr (FromUser (VDuration (pr_stopTime p)))
      else if n = PropProcessStopCmd then
        Inr (FromUser (case pr_stopCmd p of None \<Rightarrow> VNil | Some c \<Rightarrow> VCommand c))
      else if n = PropProcessDirectory then Inr (FromUser (VString (pr_directory p)))
      else Inl ErrBadPropName)"

section \<open>Processes as providers\<close>

text \<open>
  The \<open>Provider\<close> that a process is: its state is the process, the kernel as the process sees it, and whether
  \<open>Start\<close> has panicked, which ends the program (the manager does not recover).  A service never asks its provider
  for the logger, so \<open>pProperty\<close> does not speak of the pointer to the logger of a service.
\<close>

type_synonym 'o proc = "process \<times> 'o \<times> bool"

definition process_provider :: "'o os_calls \<Rightarrow> 'o proc provider" where
  "process_provider os =
     \<lparr>pName = (\<lambda>(p, _). pr_name p), pDescription = (\<lambda>(p, _). pr_desc p),
      pProvides = (\<lambda>(p, _). pr_provides p), pDepends = (\<lambda>(p, _). pr_depends p),
      pConflicts = (\<lambda>(p, _). pr_conflicts p),
      pStart = (\<lambda>(p, w, k). case process_Start os p w of
          Done (e, p', out, w') \<Rightarrow> (e, (p', w', k), out) | _ \<Rightarrow> (None, (p, w, True), [])),
      pStop = (\<lambda>(p, w, k). let (p', out, w') = process_Stop os p w in ((p', w', k), out)),
      pCheck = (\<lambda>(p, w, k). (process_Check p, (p, w, k), [])),
      pSetProperty = (\<lambda>n v (p, w, k). let (e, p') = process_SetProperty n v p in (e, (p', w, k))),
      pProperty = (\<lambda>n (p, _). case process_Property n p of
          Inr (FromUser v) \<Rightarrow> Inr v | Inr _ \<Rightarrow> Inr VNil | Inl e \<Rightarrow> Inl e)\<rparr>"

text \<open>The program goes on unless a process of the manager has panicked.\<close>

definition crashed :: "'o proc \<Rightarrow> bool" where
  "crashed = (\<lambda>(p, w, k). k)"

definition survived :: "'o proc world \<Rightarrow> 'o proc world outcome" where
  "survived w = (if list_ex (\<lambda>s. crashed (prov (svc w s))) (managed w) then Panic NilDereference else Done w)"

section \<open>Construction\<close>

record manifest =
  mf_Name :: string
  mf_Description :: string
  mf_Command :: "string list"
  mf_Env :: "string list"
  mf_StopCmd :: "string list"
  mf_StopTime :: duration
  mf_FailOnExit :: bool
  mf_CheckCmd :: "string list"
  mf_Restart :: bool
  mf_Provides :: "string list"
  mf_Depends :: "string list"
  mf_Conflicts :: "string list"
  mf_Directory :: string

text \<open>\<open>exec.Command(c[0], c[1:]...)\<close> with its directory, for a list that is not empty.\<close>

definition command_of :: "string \<Rightarrow> string list \<Rightarrow> command option" where
  "command_of d c =
     (case c of
        [] \<Rightarrow> None
      | x # xs \<Rightarrow> Some \<lparr>cmd_path = x, cmd_args = x # xs, cmd_env = None, cmd_dir = d,
          cmd_Stdout = False, cmd_Stderr = False\<rparr>)"

definition zero_process :: process where
  "zero_process =
     \<lparr>pr_name = [], pr_desc = [], pr_provides = [], pr_depends = [], pr_conflicts = [],
      pr_logger = None, pr_reason = None, pr_failed = False, pr_stopped = False, pr_stopTime = 0,
      pr_failOnExit = False, pr_stopCmd = None, pr_checkCmd = None, pr_startCmd = None,
      pr_process = None, pr_directory = [], pr_waiter = 0\<rparr>"

text \<open>The \<open>Process\<close> that \<open>NewProcessFromManifest\<close> hands to \<open>NewService\<close>.\<close>

definition process_of_manifest :: "manifest \<Rightarrow> process" where
  "process_of_manifest m = zero_process
     \<lparr>pr_name := mf_Name m, pr_desc := mf_Description m, pr_directory := mf_Directory m,
      pr_startCmd := command_of (mf_Directory m) (mf_Command m),
      pr_stopCmd := command_of (mf_Directory m) (mf_StopCmd m),
      pr_checkCmd := command_of (mf_Directory m) (mf_CheckCmd m),
      pr_stopTime := mf_StopTime m, pr_depends := mf_Depends m, pr_conflicts := mf_Conflicts m,
      pr_provides := mf_Provides m, pr_failOnExit := mf_FailOnExit m\<rparr>"

definition NewProcessFromManifest ::
  "'o os_calls \<Rightarrow> 'o \<Rightarrow> manifest \<Rightarrow> sid \<Rightarrow> 'o proc world \<Rightarrow> 'o proc world outcome" where
  "NewProcessFromManifest os k m s w =
     (let P = process_provider os
      in bindO (SetProperty P s PropRestart (VBool (mf_Restart m)) (NewService P (process_of_manifest m, k, False) s w))
           (\<lambda>(_, w1). Done w1))"

text \<open>\<open>dec.Decode\<close> has read a manifest or not.\<close>

definition NewProcessFromJson ::
  "'o os_calls \<Rightarrow> 'o \<Rightarrow> error + manifest \<Rightarrow> sid \<Rightarrow> 'o proc world \<Rightarrow> (error option \<times> 'o proc world) outcome" where
  "NewProcessFromJson os k decoded s w =
     (case decoded of
        Inl e \<Rightarrow> Done (Some e, w)
      | Inr m \<Rightarrow> bindO (NewProcessFromManifest os k m s w) (\<lambda>w1. Done (None, w1)))"

text \<open>The \<open>Process\<close> of \<open>NewProcess\<close>; \<open>std\<close> is the logger on the standard error output.\<close>

definition process_of_command :: "out_logger \<Rightarrow> string \<Rightarrow> command \<Rightarrow> process" where
  "process_of_command std name cmd = zero_process
     \<lparr>pr_logger := Some std, pr_stopTime := 10 * second, pr_startCmd := Some cmd, pr_name := name,
      pr_desc := name @ '' process: '' @ cmd_path cmd, pr_directory := cmd_dir cmd\<rparr>"


section \<open>The life of a process\<close>

text \<open>
  The steps between two visits of the lock: the manager starts a process that is not there,
  the process ends by itself, the manager stops it, or somebody sets a property.
\<close>

inductive process_step :: "'o os_calls \<Rightarrow> process \<times> 'o \<Rightarrow> process \<times> 'o \<Rightarrow> bool" for os where
  ps_start: "pr_process p = None \<Longrightarrow> process_Start os p w = Done (e, p', out, w') \<Longrightarrow>
    process_step os (p, w) (p', w')"
| ps_exit: "pr_process p = Some pid \<Longrightarrow> doWait e p = (p', out) \<Longrightarrow> process_step os (p, w) (p', w)"
| ps_stop: "process_Stop os p w = (p', out, w') \<Longrightarrow> process_step os (p, w) (p', w')"
| ps_set: "process_SetProperty n v p = (e, p') \<Longrightarrow> process_step os (p, w) (p', w)"

inductive_cases process_stepE: "process_step os pw pw'"

inductive process_run :: "'o os_calls \<Rightarrow> process \<times> 'o \<Rightarrow> process \<times> 'o \<Rightarrow> bool" for os pw0 where
  pr_begin: "process_run os pw0 pw0"
| pr_step: "process_run os pw0 pw \<Longrightarrow> process_step os pw pw' \<Longrightarrow> process_run os pw0 pw'"

text \<open>One waiting goroutine for a process that is there and none otherwise; a failure has a reason.\<close>

definition process_ok :: "process \<Rightarrow> bool" where
  "process_ok p \<longleftrightarrow> pr_waiter p = (if pr_process p = None then 0 else 1) \<and>
     (pr_failed p \<longrightarrow> pr_reason p \<noteq> None)"

lemma start_command_cases:
  obtains (failed) e w' out where
      "start_command os cmd p w = (Some e, p\<lparr>pr_stopped := False, pr_failed := True, pr_reason := Some e\<rparr>, out, w')"
    | (started) pid w' out where
      "start_command os cmd p w = (None, p\<lparr>pr_stopped := False, pr_failed := False, pr_reason := None,
        pr_process := Some pid, pr_waiter := pr_waiter p + 1\<rparr>, out, w')"
proof -
  let ?p = "p\<lparr>pr_stopped := False, pr_failed := False, pr_reason := None\<rparr>"
  obtain c1 out1 w1 where 1: "(if \<not> cmd_Stdout cmd then captured ''stdout'' ?p cmd (StdoutPipe os cmd w)
      else (cmd, [], w)) = (c1, out1, w1)"
    by (metis prod_cases3)
  obtain c2 out2 w2 where 2: "(if \<not> cmd_Stderr c1 then captured ''stderr'' ?p c1 (StderrPipe os c1 w1)
      else (c1, [], w1)) = (c2, out2, w2)"
    by (metis prod_cases3)
  obtain r w3 where 3: "os_Start os c2 w2 = (r, w3)" by fastforce
  show thesis
  proof (cases r)
    case (Inl e)
    then show thesis using failed 1 2 3 by (simp add: start_command_def Let_def)
  next
    case (Inr pid)
    then show thesis using started 1 2 3 by (simp add: start_command_def Let_def)
  qed
qed

lemma process_Start_iff:
  "process_Start os p w = Done r \<longleftrightarrow> (\<exists>cmd. pr_startCmd p = Some cmd \<and> start_command os cmd p w = r)"
  by (simp add: process_Start_def split: option.split)

lemma process_Start_Check:
  "process_Start os p w = Done (r, p', out, w') \<Longrightarrow> process_Check p' = r"
proof -
  assume "process_Start os p w = Done (r, p', out, w')"
  then obtain cmd where "start_command os cmd p w = (r, p', out, w')" by (auto simp: process_Start_iff)
  then show "process_Check p' = r"
    by (cases rule: start_command_cases [of os cmd p w]) (auto simp: process_Check_def)
qed

lemma doWait_fields:
  "pr_process (fst (doWait e p)) = None" "pr_waiter (fst (doWait e p)) = pr_waiter p - 1"
  "pr_failed (fst (doWait e p)) \<longleftrightarrow> pr_failed p \<or> \<not> pr_stopped p \<and> (e \<noteq> None \<or> pr_failOnExit p)"
  "pr_reason (fst (doWait e p)) =
    (if pr_stopped p then pr_reason p else case e of Some er \<Rightarrow> Some er
     | None \<Rightarrow> if pr_failOnExit p then Some (OtherError ''Unexpected termination'') else pr_reason p)"
  by (auto simp: doWait_def Let_def split: option.split)

lemma process_Stop_fields:
  assumes "process_Stop os p w = (p', out, w')"
  shows "pr_process p' = None" "pr_stopped p' = True" "pr_failed p' = pr_failed p" "pr_reason p' = pr_reason p"
    "pr_waiter p' = (if pr_process p = None then pr_waiter p else pr_waiter p - 1)"
proof -
  have stopped: "pr_stopped (fst (doWait e q)) = pr_stopped q" for e q
    by (auto simp: doWait_def Let_def split: option.split)
  obtain e where "p' = (if pr_process p = None then p\<lparr>pr_stopped := True, pr_process := None\<rparr>
      else (fst (doWait e (p\<lparr>pr_stopped := True\<rparr>)))\<lparr>pr_process := None\<rparr>)"
    using assms by (auto simp: process_Stop_def Let_def case_prod_beta' split: option.splits)
  then show "pr_process p' = None" "pr_stopped p' = True" "pr_failed p' = pr_failed p"
    "pr_reason p' = pr_reason p" "pr_waiter p' = (if pr_process p = None then pr_waiter p else pr_waiter p - 1)"
    by (simp_all add: doWait_fields stopped)
qed

lemma process_SetProperty_fields:
  assumes "process_SetProperty n v p = (e, p')"
  shows "pr_process p' = pr_process p" "pr_waiter p' = pr_waiter p" "pr_failed p' = pr_failed p"
    "pr_reason p' = pr_reason p" "pr_startCmd p' = pr_startCmd p" "pr_checkCmd p' = pr_checkCmd p"
    "pr_stopped p' = pr_stopped p"
  using assms by (auto simp: process_SetProperty_def split: if_splits provval.splits propval.splits)

lemma process_step_ok:
  assumes "process_step os pw pw'" and "process_ok (fst pw)"
  shows "process_ok (fst pw')"
  using assms
proof cases
  case (ps_start p w e p' out w')
  then obtain cmd where "start_command os cmd p w = (e, p', out, w')"
    by (auto simp: process_Start_iff)
  then show ?thesis
    by (cases rule: start_command_cases [of os cmd p w]) (use ps_start(1-3) assms(2) in \<open>auto simp: process_ok_def\<close>)
next
  case (ps_exit p pid e p' out w)
  then have "pr_process p' = None" "pr_waiter p' = pr_waiter p - 1"
    "pr_failed p' \<longrightarrow> pr_reason p' \<noteq> None"
    using doWait_fields [of e p] assms(2) by (auto simp: process_ok_def split: option.splits if_splits)
  then show ?thesis
    using ps_exit(1-3) assms(2) by (simp add: process_ok_def)
next
  case (ps_stop p w p' out w')
  show ?thesis
    using process_Stop_fields [OF ps_stop(3)] ps_stop(1,2) assms(2) by (auto simp: process_ok_def)
next
  case (ps_set n v p e p' w)
  then show ?thesis
    using process_SetProperty_fields [OF ps_set(3)] assms(2) by (simp add: process_ok_def)
qed

lemma process_run_ok:
  assumes "process_run os pw0 pw" and "process_ok (fst pw0)"
  shows "process_ok (fst pw)"
  using assms by (induction rule: process_run.induct) (auto intro: process_step_ok)

lemma new_process_ok: "process_ok (process_of_manifest m)" "process_ok (process_of_command std name cmd)"
  by (simp_all add: process_ok_def process_of_manifest_def process_of_command_def zero_process_def)

section \<open>What the provider reports\<close>

lemma doWait_Check:
  "process_Check (fst (doWait e p)) =
    (if pr_stopped p \<or> e = None \<and> \<not> pr_failOnExit p then process_Check p
     else Some (case e of Some er \<Rightarrow> er | None \<Rightarrow> OtherError ''Unexpected termination''))"
  by (simp add: process_Check_def doWait_fields split: option.split)

lemma process_property_roundtrip:
  "process_SetProperty n v p = (None, p') \<Longrightarrow> process_Property n p' = Inr v"
  by (auto simp: process_SetProperty_def process_Property_def logger_value_def
      split: if_splits provval.splits propval.splits)

text \<open>
  A process that has a command and has not panicked.  It stays so, whatever the manager calls: no method changes the
  command, and only \<open>Start\<close> without one panics.
\<close>

definition ready :: "'o proc \<Rightarrow> bool" where
  "ready = (\<lambda>(p, w, k). pr_startCmd p \<noteq> None \<and> \<not> k)"

lemma start_command_keeps: "pr_startCmd (fst (snd (start_command os cmd p w))) = pr_startCmd p"
  by (cases rule: start_command_cases [of os cmd p w]) simp_all

lemma doWait_startCmd: "pr_startCmd (fst (doWait e p)) = pr_startCmd p"
  by (simp add: doWait_def Let_def split: option.split)

lemma process_Stop_startCmd: "pr_startCmd (fst (process_Stop os p w)) = pr_startCmd p"
  using doWait_startCmd by (simp add: process_Stop_def Let_def case_prod_beta split: option.split)

lemma start_ready:
  assumes "ready (p, w, k)"
  shows "pStart (process_provider os) (p, w, k) =
    (case start_command os (the (pr_startCmd p)) p w of (e, p', out, w') \<Rightarrow> (e, (p', w', k), out))"
  using assms by (auto simp: process_provider_def process_Start_def ready_def)

lemma methods_ready:
  assumes "ready st"
  shows "ready (fst (snd (pStart (process_provider os) st)))" "ready (fst (pStop (process_provider os) st))"
    "ready (fst (snd (pCheck (process_provider os) st)))" "ready (snd (pSetProperty (process_provider os) n v st))"
proof -
  obtain p w k where st: "st = (p, w, k)" by (cases st)
  note keeps = start_command_keeps [of os _ p w] process_Stop_startCmd [of os p w]
    process_SetProperty_fields(5) [of n v p, OF surjective_pairing]
  show "ready (fst (snd (pStart (process_provider os) st)))"
    using assms keeps(1) [of "the (pr_startCmd p)"] unfolding st start_ready [OF assms [unfolded st]]
    by (simp add: ready_def case_prod_beta)
  show "ready (fst (pStop (process_provider os) st))" "ready (fst (snd (pCheck (process_provider os) st)))"
    "ready (snd (pSetProperty (process_provider os) n v st))"
    using assms keeps(2,3) by (simp_all add: st process_provider_def ready_def case_prod_beta)
qed

text \<open>Without a command \<open>Start\<close> panics.\<close>

lemma start_without_command:
  "pr_startCmd p = None \<Longrightarrow> pStart (process_provider os) (p, w, k) = (None, (p, w, True), [])"
  by (simp add: process_provider_def process_Start_def)

text \<open>An error of the provider is an error that \<open>Start\<close> returned.\<close>

lemma start_error: "fst (pStart (process_provider os) (p, w, k)) = Some e \<Longrightarrow> \<exists>r. process_Start os p w = Done (Some e, r)"
  by (auto simp: process_provider_def split: outcome.splits)

end
