(* ===== verification/Flags.thy ===== *)
theory Flags
  imports Prelude "HOL-Library.Sublist"
begin

text \<open>
  The package \<open>flag\<close> of the standard library as the two commands use it: flags with a string or a truth
  value, \<open>-name value\<close>, \<open>-name=value\<close> or \<open>--name\<close>, up to the first argument that is none.  A name that is
  defined twice has the last definition.
\<close>

datatype flag_kind = StringFlag | BoolFlag

datatype flag_value = StringValue string | BoolValue bool

text \<open>What \<open>flag.Parse\<close> does: the values in the order in which they were given and the arguments that
  remain, or the end of the program with an exit status (0 after \<open>-help\<close>, else 2).\<close>

datatype parsed_flags = Parsed "(string \<times> flag_value) list" "string list" | FlagExit int

text \<open>\<open>strconv.ParseBool\<close>.\<close>

definition ParseBool :: "string \<Rightarrow> bool option" where
  "ParseBool s =
     (if s \<in> {''1'', ''t'', ''T'', ''true'', ''TRUE'', ''True''} then Some True
      else if s \<in> {''0'', ''f'', ''F'', ''false'', ''FALSE'', ''False''} then Some False
      else None)"

definition dash :: char where "dash = CHR ''-''"

text \<open>The text of a flag without its dashes; \<open>None\<close> for an argument that is no flag.\<close>

definition flag_body :: "string \<Rightarrow> string option" where
  "flag_body s =
     (if length s < 2 \<or> s ! 0 \<noteq> dash then None
      else if s ! 1 = dash then Some (drop 2 s) else Some (drop 1 s))"

text \<open>The name before the first \<open>=\<close> and the value after it, when there is one.\<close>

fun split_assign :: "string \<Rightarrow> string \<times> string option" where
  "split_assign [] = ([], None)"
| "split_assign (c # cs) =
     (if c = CHR ''='' then ([], Some cs)
      else let (name, v) = split_assign cs in (c # name, v))"

definition add_value :: "string \<times> flag_value \<Rightarrow> parsed_flags \<Rightarrow> parsed_flags" where
  "add_value x r = (case r of Parsed vs rest \<Rightarrow> Parsed (x # vs) rest | FlagExit n \<Rightarrow> FlagExit n)"

fun parse_flags :: "(string \<Rightarrow> flag_kind option) \<Rightarrow> string list \<Rightarrow> parsed_flags" where
  "parse_flags kinds [] = Parsed [] []"
| "parse_flags kinds (s # args) =
     (case flag_body s of
        None \<Rightarrow> Parsed [] (s # args)
      | Some body \<Rightarrow>
          if s = ''--'' then Parsed [] args
          else if body = [] \<or> hd body = dash \<or> hd body = CHR ''='' then FlagExit 2
          else
            let (name, v) = split_assign body in
            case kinds name of
              None \<Rightarrow> FlagExit (if name = ''help'' \<or> name = ''h'' then 0 else 2)
            | Some BoolFlag \<Rightarrow>
                (case v of
                   None \<Rightarrow> add_value (name, BoolValue True) (parse_flags kinds args)
                 | Some b \<Rightarrow>
                     (case ParseBool b of
                        None \<Rightarrow> FlagExit 2
                      | Some t \<Rightarrow> add_value (name, BoolValue t) (parse_flags kinds args)))
            | Some StringFlag \<Rightarrow>
                (case v of
                   Some x \<Rightarrow> add_value (name, StringValue x) (parse_flags kinds args)
                 | None \<Rightarrow>
                     (case args of
                        [] \<Rightarrow> FlagExit 2
                      | x # args' \<Rightarrow> add_value (name, StringValue x) (parse_flags kinds args'))))"

text \<open>The value a variable has after the parse, from its default.\<close>

definition string_flag :: "string \<Rightarrow> string \<Rightarrow> (string \<times> flag_value) list \<Rightarrow> string" where
  "string_flag name orig vs =
     foldl (\<lambda>old (n, v). if n = name then (case v of StringValue x \<Rightarrow> x | _ \<Rightarrow> old) else old) orig vs"

definition bool_flag :: "string \<Rightarrow> bool \<Rightarrow> (string \<times> flag_value) list \<Rightarrow> bool" where
  "bool_flag name orig vs =
     foldl (\<lambda>old (n, v). if n = name then (case v of BoolValue x \<Rightarrow> x | _ \<Rightarrow> old) else old) orig vs"

section \<open>Facts\<close>

lemma flag_body_short: "flag_body s = Some b \<Longrightarrow> 2 \<le> length s"
  by (simp add: flag_body_def split: if_splits)

text \<open>A command line without flags is passed on as it is.\<close>

lemma parse_flags_none: "args = [] \<or> flag_body (hd args) = None \<Longrightarrow> parse_flags kinds args = Parsed [] args"
  by (cases args) auto

text \<open>Only flags that were defined come out, each with a value of its kind.\<close>

definition well_kinded :: "(string \<Rightarrow> flag_kind option) \<Rightarrow> string \<times> flag_value \<Rightarrow> bool" where
  "well_kinded kinds x \<longleftrightarrow>
     (case snd x of StringValue _ \<Rightarrow> kinds (fst x) = Some StringFlag | BoolValue _ \<Rightarrow> kinds (fst x) = Some BoolFlag)"

lemma add_value_Parsed: "add_value x r = Parsed vs rest \<longleftrightarrow> (\<exists>vs'. vs = x # vs' \<and> r = Parsed vs' rest)"
  by (auto simp: add_value_def split: parsed_flags.split)

text \<open>What one flag contributes: the rest of the arguments and its value.\<close>

lemma parse_flags_Cons:
  assumes "parse_flags kinds (s # args) = Parsed vs rest"
  obtains (stop) "vs = []" "rest = s # args \<or> rest = args"
    | (flag) x vs' args' where "vs = x # vs'" "well_kinded kinds x" "args' = args \<or> args \<noteq> [] \<and> args' = tl args"
        "parse_flags kinds args' = Parsed vs' rest"
proof (cases "flag_body s")
  case None
  then show thesis using assms stop by simp
next
  case (Some body)
  obtain name v where nv: "split_assign body = (name, v)" by fastforce
  show thesis
  proof (cases "s = ''--''")
    case True
    then show thesis using assms Some stop by simp
  next
    case False
    then have ok: "\<not> (body = [] \<or> hd body = dash \<or> hd body = CHR ''='')"
      using assms Some by (auto split: if_splits)
    then obtain k where k: "kinds name = Some k"
      using assms Some False nv by (cases "kinds name") (auto split: if_splits)
    show thesis
    proof (cases k)
      case BoolFlag
      show thesis
      proof (cases v)
        case None
        then show thesis
          using assms Some False ok nv k BoolFlag flag [of "(name, BoolValue True)" _ args]
          by (auto simp: add_value_Parsed well_kinded_def)
      next
        case v: (Some b)
        then obtain t where "ParseBool b = Some t"
          using assms Some False ok nv k BoolFlag by (cases "ParseBool b") auto
        then show thesis
          using assms Some False ok nv k BoolFlag v flag [of "(name, BoolValue t)" _ args]
          by (auto simp: add_value_Parsed well_kinded_def)
      qed
    next
      case StringFlag
      show thesis
      proof (cases v)
        case v: (Some x)
        then show thesis
          using assms Some False ok nv k StringFlag flag [of "(name, StringValue x)" _ args]
          by (auto simp: add_value_Parsed well_kinded_def)
      next
        case None
        then obtain x args' where "args = x # args'"
          using assms Some False ok nv k StringFlag by (cases args) auto
        then show thesis
          using assms Some False ok nv k StringFlag None flag [of "(name, StringValue x)" _ args']
          by (auto simp: add_value_Parsed well_kinded_def)
      qed
    qed
  qed
qed

lemma parse_flags_kinds:
  "parse_flags kinds args = Parsed vs rest \<Longrightarrow> (\<forall>x \<in> set vs. well_kinded kinds x) \<and> suffix rest args"
proof (induction args arbitrary: vs rule: length_induct)
  case (1 args)
  show ?case
  proof (cases args)
    case (Cons s rest')
    from 1(2) [unfolded Cons] show ?thesis
    proof (cases rule: parse_flags_Cons)
      case stop
      then show ?thesis by (auto simp: Cons suffix_ConsI)
    next
      case (flag x vs' args')
      have l: "length args' < length args" "suffix args' args"
        using flag(3) by (auto simp: Cons suffix_ConsI suffix_tl intro: suffix_ConsI)
      then show ?thesis using 1(1) flag suffix_order.trans by fastforce
    qed
  qed (use 1(2) in simp)
qed

lemma string_flag_absent: "name \<notin> fst ` set vs \<Longrightarrow> string_flag name d vs = d"
  unfolding string_flag_def by (induction vs arbitrary: d) (auto simp: case_prod_beta)

lemma bool_flag_absent: "name \<notin> fst ` set vs \<Longrightarrow> bool_flag name d vs = d"
  unfolding bool_flag_def by (induction vs arbitrary: d) (auto simp: case_prod_beta)

end
