(* ===== verification/Daemon.thy ===== *)
theory Daemon
  imports Server Process Serials Kept Flags
begin

text \<open>
  The daemon \<open>govisord/main.go\<close> from its arguments to the running services and its end: flags, log file,
  passwords, the listener, the manifests of the directory, the services that are added and enabled,
  and the shutdown on a signal.  The operating system is a parameter, the record \<open>daemon_env\<close>: it opens
  files and directories, decodes CSV and JSON, encrypts passwords and listens; the kernel \<open>os\<close> of \<open>Process\<close> runs the
  commands, and each new process meets it in state \<open>k\<close>.  The services are added and enabled without requests in
  between.
\<close>

section \<open>Paths\<close>

text \<open>\<open>path.Clean\<close> and \<open>path.Join\<close>.\<close>

definition clean_step :: "bool \<Rightarrow> string list \<Rightarrow> string \<Rightarrow> string list" where
  "clean_step rooted acc x =
     (if x = [] \<or> x = ''.'' then acc
      else if x = ''..'' then
        if acc \<noteq> [] \<and> last acc \<noteq> ''..'' then butlast acc
        else if rooted then acc else acc @ [''..'']
      else acc @ [x])"

definition path_Clean :: "string \<Rightarrow> string" where
  "path_Clean s =
     (let rooted = s \<noteq> [] \<and> hd s = CHR ''/'';
          r = join_with (CHR ''/'') (foldl (clean_step rooted) [] (split_at (CHR ''/'') s))
      in if rooted then CHR ''/'' # r else if r = [] then ''.'' else r)"

definition path_Join :: "string list \<Rightarrow> string" where
  "path_Join ws =
     (let ne = filter (\<lambda>w. w \<noteq> []) ws
      in if ne = [] then [] else path_Clean (join_with (CHR ''/'') ne))"

section \<open>Loading and enabling services\<close>

text \<open>A file of the directory of services: it cannot be opened, or what \<open>dec.Decode\<close> makes of it.\<close>

datatype manifest_file = CannotOpen string | Opened "error + manifest"

text \<open>\<open>log.Printf\<close> on the standard logger of package \<open>log\<close>.\<close>

definition std_logf :: "string \<Rightarrow> 'p world \<Rightarrow> 'p world" where
  "std_logf msg w = w\<lparr>ext := ext w @ [PackageLog msg]\<rparr>"

text \<open>One file of the directory; \<open>s\<close> is the service allocated for it.\<close>

definition load_manifest ::
  "'o os_calls \<Rightarrow> 'o \<Rightarrow> sid \<times> string \<times> manifest_file \<Rightarrow> 'o proc world \<Rightarrow> 'o proc world outcome" where
  "load_manifest os k entry w =
     (case entry of (s, fname, f) \<Rightarrow>
       (case f of
          CannotOpen e \<Rightarrow> Done (std_logf (''Failed to open manifest '' @ fname @ '': '' @ e) w)
        | Opened mf \<Rightarrow>
            bindO (NewProcessFromJson os k mf s w) (\<lambda>(e, w1).
            case e of
              Some er \<Rightarrow> Done (std_logf (''Failed to load manifest '' @ fname @ '': '' @ error_text er) w1)
            | None \<Rightarrow> bindO (AddService s w1) (\<lambda>(_, w2). Done w2))))"

definition enable_one :: "'o os_calls \<Rightarrow> sid \<Rightarrow> 'o proc world \<Rightarrow> 'o proc world outcome" where
  "enable_one os s w = bindO (Enable (process_provider os) s w) (\<lambda>(_, w1). survived w1)"

definition daemon_start ::
  "'o os_calls \<Rightarrow> 'o \<Rightarrow> bool \<Rightarrow> (sid \<times> string \<times> manifest_file) list \<Rightarrow> 'o proc world \<Rightarrow> 'o proc world outcome" where
  "daemon_start os k enable files w =
     bindO (foldO (load_manifest os k) files w) (\<lambda>w1.
     let w2 = StartMonitoring w1 in
     if enable then let ((svcs, _, _), w3) = Services w2 in foldO (enable_one os) svcs w3
     else Done w2)"

section \<open>From the arguments to the services\<close>

record daemon_options =
  do_certFile :: string
  do_keyFile :: string
  do_addr :: string
  do_dir :: string
  do_name :: string
  do_enable :: bool
  do_passFile :: string
  do_genpass :: string
  do_logFile :: string

definition daemon_flags :: "string \<Rightarrow> flag_kind option" where
  "daemon_flags = map_of
     [(''certfile'', StringFlag), (''keyfile'', StringFlag), (''addr'', StringFlag), (''dir'', StringFlag),
      (''name'', StringFlag), (''enable'', BoolFlag), (''passfile'', StringFlag), (''passwd'', StringFlag),
      (''logfile'', StringFlag)]"

definition daemon_settings :: "(string \<times> flag_value) list \<Rightarrow> daemon_options" where
  "daemon_settings vs =
     \<lparr>do_certFile = string_flag ''certfile'' [] vs, do_keyFile = string_flag ''keyfile'' [] vs,
      do_addr = string_flag ''addr'' ''http://127.0.0.1:8321'' vs, do_dir = string_flag ''dir'' ''.'' vs,
      do_name = string_flag ''name'' ''govisord'' vs, do_enable = bool_flag ''enable'' True vs,
      do_passFile = string_flag ''passfile'' [] vs, do_genpass = string_flag ''passwd'' [] vs,
      do_logFile = string_flag ''logfile'' [] vs\<rparr>"

text \<open>
  What the daemon asks of the system: to open the log file (the error), to encrypt a password, whether a file exists, the
  records of a password file (or why it cannot be opened), to listen with or without TLS (the error of the first
  100 milliseconds), the files of a directory, each with the service that will be allocated for it,
  and to open one.
\<close>

datatype services_dir = CannotOpenDir string | CannotScan string | Files "(sid \<times> string) list"

record listener =
  ln_tls :: bool
  ln_addr :: string
  ln_certFile :: string
  ln_keyFile :: string

record daemon_env =
  ev_OpenFile :: "string \<Rightarrow> string option"
  ev_Generate :: "string \<Rightarrow> string + string"
  ev_Stat :: "string \<Rightarrow> bool"
  ev_Passwd :: "string \<Rightarrow> string + (string + string \<times> string) list"
  ev_Listen :: "listener \<Rightarrow> string option"
  ev_Readdirnames :: "string \<Rightarrow> services_dir"
  ev_Open :: "string \<Rightarrow> manifest_file"

text \<open>\<open>die\<close>: on the log, when there is a log file, and on the standard output; then the program ends.\<close>

definition die :: "daemon_options \<Rightarrow> string \<Rightarrow> 'p world \<Rightarrow> 'p world" where
  "die opt msg w =
     (let w1 = (if do_logFile opt \<noteq> [] then std_logf msg w else w)
      in w1\<lparr>ext := ext w1 @ [Printed (msg @ [newline])]\<rparr>)"

text \<open>\<open>Inl\<close> is the end of the program.  The logger on the log file is the application's logger 0.\<close>

definition open_logfile :: "daemon_env \<Rightarrow> daemon_options \<Rightarrow> 'p world \<Rightarrow> 'p world + 'p world" where
  "open_logfile ev opt w =
     (if do_logFile opt = [] then Inr w
      else case ev_OpenFile ev (do_logFile opt) of
             Some e \<Rightarrow> Inl (die opt (''Failed to open log file: '' @ e) w)
           | None \<Rightarrow> Inr (SetLogger 0 w))"

definition generate_password ::
  "daemon_env \<Rightarrow> daemon_options \<Rightarrow> auth \<Rightarrow> 'p world \<Rightarrow> 'p world + auth \<times> 'p world" where
  "generate_password ev opt h w =
     (if do_genpass opt = [] then Inr (h, w)
      else
        let h1 = h\<lparr>au_auth := True\<rparr>;
            rec = split2 colon (do_genpass opt)
        in if length rec \<noteq> 2 then Inl (die opt ''Missing user:password'' w)
           else case ev_Generate ev (rec ! 1) of
                  Inl e \<Rightarrow> Inl (die opt (''bcrypt: '' @ e) w)
                | Inr enc \<Rightarrow>
                    Inr (h1\<lparr>au_passwd := AList.update (rec ! 0) enc (au_passwd h1)\<rparr>,
                         std_logf (''Encrypted password is '' @ [CHR 39] @ enc @ [CHR 39]) w))"

text \<open>\<open>loadPasswdFile\<close> with the file it opens.\<close>

definition loadPasswdFile :: "daemon_env \<Rightarrow> string \<Rightarrow> auth \<Rightarrow> string option \<times> auth" where
  "loadPasswdFile ev name h =
     (case ev_Passwd ev name of Inl e \<Rightarrow> (Some e, h) | Inr recs \<Rightarrow> load_passwd recs h)"

definition load_passwords ::
  "daemon_env \<Rightarrow> daemon_options \<Rightarrow> auth \<Rightarrow> 'p world \<Rightarrow> 'p world + auth \<times> 'p world" where
  "load_passwords ev opt h w =
     (let load = (\<lambda>file. case loadPasswdFile ev file h of
            (Some e, h1) \<Rightarrow> Inl (die opt (''Unable to load passwd file: '' @ e) w)
          | (None, h1) \<Rightarrow> Inr (h1, w));
          std = path_Join [do_dir opt, ''passwd'']
      in if do_passFile opt \<noteq> [] then load (do_passFile opt)
         else if ev_Stat ev std then load std
         else Inr (h, w))"

text \<open>How the daemon listens: with TLS or without, and on which address.\<close>

definition has_prefix :: "string \<Rightarrow> string \<Rightarrow> bool" where
  "has_prefix p s \<longleftrightarrow> take (length p) s = p"

definition listener_of :: "daemon_options \<Rightarrow> listener" where
  "listener_of opt =
     (let cert = (if do_certFile opt = [] then path_Join [do_dir opt, ''cert.pem''] else do_certFile opt);
          key = (if do_keyFile opt = [] then path_Join [do_dir opt, ''key.pem''] else do_keyFile opt);
          addr = do_addr opt
      in if has_prefix ''https://'' addr then
           \<lparr>ln_tls = True, ln_addr = drop (length ''https://'') addr, ln_certFile = cert, ln_keyFile = key\<rparr>
         else if has_prefix ''http://'' addr then
           \<lparr>ln_tls = False, ln_addr = drop (length ''http://'') addr, ln_certFile = cert, ln_keyFile = key\<rparr>
         else \<lparr>ln_tls = False, ln_addr = addr, ln_certFile = cert, ln_keyFile = key\<rparr>)"

definition scan_services ::
  "'o os_calls \<Rightarrow> 'o \<Rightarrow> daemon_env \<Rightarrow> daemon_options \<Rightarrow> 'o proc world \<Rightarrow> ('o proc world + 'o proc world) outcome" where
  "scan_services os k ev opt w =
     (let svcDir = path_Join [do_dir opt, ''services'']
      in case ev_Readdirnames ev svcDir of
           CannotOpenDir e \<Rightarrow> Done (Inl (die opt (''Failed to open services directory '' @ svcDir @ '': '' @ e) w))
         | CannotScan e \<Rightarrow> Done (Inl (die opt (''Failed to scan scan services: '' @ e) w))
         | Files fs \<Rightarrow>
             bindO (daemon_start os k (do_enable opt)
                 (map (\<lambda>(s, f). let fname = path_Join [svcDir, f] in (s, fname, ev_Open ev fname)) fs) w)
               (\<lambda>w1. Done (Inr w1)))"

text \<open>
  \<open>main\<close> until it waits for a signal, with the world of the manager that it allocates first: the
  program has ended (with a status, or in \<open>die\<close>) or serves requests behind its passwords.
\<close>

datatype 'o daemon_state = FlagsRejected int | Died "'o proc world" | Running_daemon listener auth "'o proc world"

definition daemon_main ::
  "'o os_calls \<Rightarrow> 'o \<Rightarrow> daemon_env \<Rightarrow> string list \<Rightarrow> 'o proc world \<Rightarrow> 'o daemon_state outcome" where
  "daemon_main os k ev args w =
     (case parse_flags daemon_flags args of
        FlagExit n \<Rightarrow> Done (FlagsRejected n)
      | Parsed vs _ \<Rightarrow>
          let opt = daemon_settings vs;
              h = \<lparr>au_auth = False, au_passwd = [], au_name = do_name opt\<rparr>;
              ln = listener_of opt
          in case open_logfile ev opt w of
               Inl w1 \<Rightarrow> Done (Died w1)
             | Inr w1 \<Rightarrow>
          (case generate_password ev opt h w1 of
             Inl w2 \<Rightarrow> Done (Died w2)
           | Inr (h1, w2) \<Rightarrow>
          (case load_passwords ev opt h1 w2 of
             Inl w3 \<Rightarrow> Done (Died w3)
           | Inr (h2, w3) \<Rightarrow>
          (case ev_Listen ev ln of
             Some e \<Rightarrow> Done (Died (die opt (''HTTP/HTTPS failed: '' @ e) w3))
           | None \<Rightarrow>
               bindO (scan_services os k ev opt w3) (\<lambda>r.
               case r of
                 Inl w4 \<Rightarrow> Done (Died w4)
               | Inr w4 \<Rightarrow> Done (Running_daemon ln h2 w4))))))"

text \<open>A signal: the manager is shut down and the program ends with status 1.\<close>

definition daemon_signal :: "'o os_calls \<Rightarrow> 'o proc world \<Rightarrow> (int \<times> 'o proc world) outcome" where
  "daemon_signal os w = bindO (Shutdown (process_provider os) w) (\<lambda>w1. Done (1, w1))"

section \<open>Processes that are ready\<close>

text \<open>Every process has a command, and none has panicked.  The manager keeps this, whatever it is asked.\<close>

definition all_ready :: "'o proc world \<Rightarrow> bool" where
  "all_ready w \<longleftrightarrow> (\<forall>u. ready (prov (svc w u)))"

interpretation processes: kept "process_provider os" ready all_ready for os :: "'o os_calls"
proof unfold_locales
  fix w w' :: "'o proc world" and s :: sid and p :: "'o proc" and i :: int
  assume w: "all_ready w"
  show "drifts w w' \<Longrightarrow> all_ready w'" using w by (simp add: all_ready_def drifts_def core_fields)
  show "record_start s w = Done w' \<Longrightarrow> all_ready (upd s (\<lambda>S. S\<lparr>starts := starts S + 1\<rparr>) w')"
    using w by (auto simp: all_ready_def record_start_def Let_def split: if_splits)
  show "all_ready (upd s (\<lambda>S. S\<lparr>prov := p\<rparr>) w)" if "answers (process_provider os) (prov (svc w s)) p \<or> ready p"
  proof -
    have "ready p" using that methods_ready [of "prov (svc w s)"] w by (auto simp: answers_def all_ready_def)
    then show ?thesis using w by (simp add: all_ready_def)
  qed
  show "all_ready (upd s (\<lambda>S. S\<lparr>starts := 0\<rparr>) w)"
    "all_ready (upd s (\<lambda>S. S\<lparr>starts := 0, startTimes := if 0 < i then replicate (nat i) zero_time else [], rateLimit := i\<rparr>) w)"
    "ready p \<Longrightarrow> all_ready (upd s (\<lambda>_. service_defaults (process_provider os) p) w)"
    using w by (simp_all add: all_ready_def service_defaults_def)
qed

lemma all_ready_survived: "all_ready w \<Longrightarrow> survived w = Done w"
  by (auto simp: all_ready_def survived_def ready_def crashed_def list_ex_iff case_prod_beta)

text \<open>With such processes, no sequence of operations ends in a panic of one.\<close>

lemma processes_never_panic:
  assumes "reachable (process_provider os) A w0 w" and "all_ready w0" and "\<And>a. A a \<Longrightarrow> provided ready a"
  shows "survived w = Done w"
  by (rule all_ready_survived [OF processes.I_reachable [OF assms]])

section \<open>Loading\<close>

lemma still_std_logf: "still w (std_logf msg w)"
  by (rule still_same_svc) (simp_all add: std_logf_def)

lemma load_manifest_spec:
  assumes "inv w" and "fst x \<notin> set (managed w)"
  shows "returns (load_manifest os k x w) (\<lambda>w'. inv w' \<and>
    set (managed w) \<subseteq> set (managed w') \<and> set (managed w') \<subseteq> insert (fst x) (set (managed w)))"
proof -
  obtain s fname f where x: "x = (s, fname, f)" by (cases x) auto
  have log: "inv (std_logf msg w)" "managed (std_logf msg w) = managed w" for msg
    by (rule still_inv [OF still_std_logf assms(1)]) (simp add: std_logf_def)
  show ?thesis
  proof (cases "\<exists>m. f = Opened (Inr m)")
    case True
    then obtain m where m: "f = Opened (Inr m)" by blast
    let ?v = "NewService (process_provider os) (process_of_manifest m, k, False) s w"
    have v: "inv ?v" "managed ?v = managed w"
      using NewService_inv [OF assms(1), of s] assms(2) by (simp_all add: x NewService_world)
    have "returns (SetProperty (process_provider os) s PropRestart (VBool (mf_Restart m)) ?v)
        (\<lambda>(e, w'). inv w' \<and> managed w' = managed w)"
      by (rule returns_mono [OF SetProperty_spec [OF v(1)]]) (auto simp: valid_limit_def v(2))
    then have new: "returns (NewProcessFromManifest os k m s w) (\<lambda>w'. inv w' \<and> managed w' = managed w)"
      by (simp add: NewProcessFromManifest_def Let_def case_prod_beta')
    have add: "returns (bindO (AddService s w1) (\<lambda>(_, w2). Done w2)) (\<lambda>w'. inv w' \<and>
        set (managed w) \<subseteq> set (managed w') \<and> set (managed w') \<subseteq> insert s (set (managed w)))"
      if "inv w1 \<and> managed w1 = managed w" for w1 :: "'a proc world"
      using AddService_spec [of w1 s] that
      by (simp add: case_prod_beta) (erule returns_mono, auto split: if_splits)
    show ?thesis
      using returns_mono [OF new add] by (simp add: x m load_manifest_def NewProcessFromJson_def)
  next
    case False
    then show ?thesis
      by (cases f) (auto simp: x load_manifest_def NewProcessFromJson_def log assms(1) split: sum.splits)
  qed
qed

lemma load_manifests_spec:
  assumes "inv w" and "distinct (map fst files)" and "fst ` set files \<inter> set (managed w) = {}"
  shows "returns (foldO (load_manifest os k) files w) inv"
proof -
  define I where "I fs w \<longleftrightarrow> inv w \<and> distinct (map fst fs) \<and> fst ` set fs \<inter> set (managed w) = {}"
    for fs :: "(sid \<times> string \<times> manifest_file) list" and w :: "'a proc world"
  have step: "returns (load_manifest os k x w) (I ys)" if "I (x # ys) w" for x ys w
  proof -
    have w: "inv w" "fst x \<notin> set (managed w)" using that by (simp_all add: I_def)
    have d: "distinct (map fst ys)" "fst x \<notin> fst ` set ys" "fst ` set ys \<inter> set (managed w) = {}"
      using that by (simp_all add: I_def)
    have "I ys w'" if w': "inv w' \<and> set (managed w) \<subseteq> set (managed w') \<and>
        set (managed w') \<subseteq> insert (fst x) (set (managed w))" for w'
    proof -
      have "fst ` set ys \<inter> insert (fst x) (set (managed w)) = {}" using d by simp
      then have "fst ` set ys \<inter> set (managed w') = {}" using w' by (meson disjoint_iff subset_iff)
      then show ?thesis using w' d(1) by (simp add: I_def)
    qed
    then show ?thesis by (rule returns_mono [OF load_manifest_spec [OF w]])
  qed
  have "returns (foldO (load_manifest os k) files w) (I [])"
    by (rule returns_foldO) (simp add: I_def assms, rule step)
  then show ?thesis by (rule returns_mono) (simp add: I_def)
qed

section \<open>Enabling\<close>

text \<open>Enabled, or kept out by something that is.\<close>

definition settled :: "'p world \<Rightarrow> sid \<Rightarrow> bool" where
  "settled w s \<longleftrightarrow> enabled (svc w s) \<or> (\<exists>c \<in> set (incompat (svc w s)). enabled (svc w c))"

lemma enable_one_spec:
  assumes "inv w" and "s \<in> set (managed w)" and "all_ready w"
  shows "returns (enable_one os s w) (\<lambda>w'. inv w' \<and> all_ready w' \<and> managed w' = managed w \<and> settled w' s \<and>
    (\<forall>u. settled w u \<longrightarrow> settled w' u))"
proof -
  have "inv w' \<and> managed w' = managed w \<and> settled w' s \<and> (\<forall>u. settled w u \<longrightarrow> settled w' u)"
    if "keeps w w'" "enable_frame (process_provider os) s w w'"
      "if \<not> enabled (svc w s) \<and> (\<exists>c \<in> set (incompat (svc w s)). enabled (svc w c))
       then e = Some ErrConflict \<and> (\<forall>u. flags_of (svc w' u) = flags_of (svc w u))
       else e = None \<and> enabled (svc w' s) \<and> Q" for e and w' :: "'a proc world" and Q
  proof -
    have f: "inv w'" "frame w w'" using that(1) by (simp_all add: keeps_def)
    have en: "enabled (svc w u) \<longrightarrow> enabled (svc w' u)" for u
      using that(2,3) by (cases "u = s") (auto simp: enable_frame_def flags_of_def split: if_splits)
    then have mono: "settled w u \<longrightarrow> settled w' u" for u
      using frame_links(3) [OF f(2), of u] by (auto simp: settled_def)
    have "settled w s \<or> enabled (svc w' s)"
      using that(3) by (auto simp: settled_def split: if_splits)
    then have "settled w' s" using mono by (auto simp: settled_def)
    then show ?thesis using f mono frame_managed [OF f(2)] by blast
  qed
  note settle = this
  obtain e w' where "Enable (process_provider os) s w = Done (e, w')" "keeps w w'" "enable_frame (process_provider os) s w w'"
      "if \<not> enabled (svc w s) \<and> (\<exists>c \<in> set (incompat (svc w s)). enabled (svc w c))
       then e = Some ErrConflict \<and> (\<forall>u. flags_of (svc w' u) = flags_of (svc w u))
       else e = None \<and> enabled (svc w' s) \<and> (\<not> enabled (svc w s) \<and> satisfied w s \<longrightarrow>
         running (svc w' s) \<or> failed (svc w' s))"
    using Enable_spec [OF assms(1,2), of "process_provider os"] by (force simp only: returns_iff split_paired_all prod.case)
  moreover from this(1) have "all_ready w'" using yields_DoneD [OF processes.R_Enable [OF assms(3)]] by fastforce
  ultimately show ?thesis using settle [of w' e] all_ready_survived [of w'] by (simp add: enable_one_def)
qed

lemma enable_all_spec:
  assumes "inv w" and "set ss \<subseteq> set (managed w)" and "all_ready w"
  shows "returns (foldO (enable_one os) ss w) (\<lambda>w'. inv w' \<and> all_ready w' \<and> managed w' = managed w \<and>
    (\<forall>s \<in> set ss. settled w' s))"
proof -
  define I where "I rest w' \<longleftrightarrow> inv w' \<and> all_ready w' \<and> managed w' = managed w \<and> set rest \<subseteq> set (managed w) \<and>
    (\<forall>s \<in> set ss - set rest. settled w' s)" for rest and w' :: "'a proc world"
  have step: "returns (enable_one os x v) (I ys)" if "I (x # ys) v" for x ys v
  proof -
    have "inv v" "x \<in> set (managed v)" "all_ready v" using that by (simp_all add: I_def)
    then show ?thesis
      by (rule returns_mono [OF enable_one_spec]) (use that in \<open>auto simp: I_def\<close>)
  qed
  have "returns (foldO (enable_one os) ss w) (I [])"
    by (rule returns_foldO) (simp add: I_def assms, rule step)
  then show ?thesis by (rule returns_mono) (simp add: I_def)
qed

text \<open>Every manifest that can be read names a command.\<close>

definition with_commands :: "(sid \<times> string \<times> manifest_file) list \<Rightarrow> bool" where
  "with_commands files \<longleftrightarrow> (\<forall>(s, n, f) \<in> set files. \<forall>m. f = Opened (Inr m) \<longrightarrow> mf_Command m \<noteq> [])"

lemma load_manifests_ready:
  assumes "all_ready w" and "with_commands files"
  shows "yields (foldO (load_manifest os k) files w) all_ready"
  using assms
proof (induction files arbitrary: w)
  case (Cons x files)
  obtain s fname f where x: "x = (s, fname, f)" by (cases x)
  have "yields (NewProcessFromManifest os k m s w) all_ready" if "mf_Command m \<noteq> []" for m
  proof -
    have "ready (process_of_manifest m, k, False)"
      using that by (simp add: ready_def process_of_manifest_def command_of_def split: list.split)
    then show ?thesis
      unfolding NewProcessFromManifest_def Let_def
      by (intro yields_pair [OF processes.R_SetProperty [OF processes.R_NewService [OF Cons.prems(1)]]]) simp_all
  qed
  moreover have "yields (bindO (AddService s y) (\<lambda>(_, z). Done z)) all_ready" if "all_ready y" for y
    by (rule yields_pair [OF processes.R_AddService [OF that]]) simp
  ultimately have new: "yields (bindO (NewProcessFromManifest os k m s w) (\<lambda>y. bindO (AddService s y) (\<lambda>(_, z). Done z))) all_ready"
    if "mf_Command m \<noteq> []" for m
    using that by (intro yields_next [where R = all_ready]) blast+
  have log: "all_ready (std_logf msg w)" for msg using Cons.prems(1) by (simp add: all_ready_def std_logf_def)
  have "yields (load_manifest os k x w) all_ready"
    using Cons.prems(2) new log by (auto simp: x with_commands_def load_manifest_def NewProcessFromJson_def split: manifest_file.split sum.split)
  then show ?case
    using Cons.IH Cons.prems(2) by (auto intro: yields_mono simp: with_commands_def)
qed simp

lemma daemon_start_spec:
  assumes "inv w" and "distinct (map fst files)" and "fst ` set files \<inter> set (managed w) = {}"
    and "all_ready w" and "with_commands files"
  shows "returns (daemon_start os k enable files w) (\<lambda>w'. inv w' \<and> all_ready w' \<and>
    (enable \<longrightarrow> (\<forall>s \<in> set (managed w'). settled w' s)))"
proof -
  have "returns (if enable then let ((svcs, _, _), w3) = Services (StartMonitoring w1) in foldO (enable_one os) svcs w3
      else Done (StartMonitoring w1)) (\<lambda>w'. inv w' \<and> all_ready w' \<and> (enable \<longrightarrow> (\<forall>s \<in> set (managed w'). settled w' s)))"
    if "inv w1 \<and> all_ready w1" for w1 :: "'a proc world"
  proof -
    let ?w2 = "StartMonitoring w1"
    have w2: "inv ?w2" using still_inv [OF monitoring_still(1)] that by blast
    have r2: "all_ready ?w2" "all_ready (snd (Services ?w2))"
      using that processes.I_exec [of OpStartMonitoring w1] processes.I_exec [of OpServices ?w2] by simp_all
    have w3: "inv (snd (Services ?w2))" "managed (snd (Services ?w2)) = managed ?w2"
      "set (fst (fst (Services ?w2))) = set (managed ?w2)"
      using still_inv [OF still_range_keys w2] inv_parts(1) [OF w2]
      by (simp_all add: Services_def case_prod_beta base_ok_def)
    have "returns (foldO (enable_one os) (fst (fst (Services ?w2))) (snd (Services ?w2)))
        (\<lambda>w'. inv w' \<and> all_ready w' \<and> (\<forall>s \<in> set (managed w'). settled w' s))"
      by (rule returns_mono [OF enable_all_spec]) (simp_all add: w3 r2)
    then show ?thesis using w2 r2(1) by (simp add: case_prod_beta Let_def)
  qed
  moreover have "returns (foldO (load_manifest os k) files w) (\<lambda>w1. inv w1 \<and> all_ready w1)"
    using load_manifests_spec [OF assms(1-3), of os k] load_manifests_ready [OF assms(4,5), of os k] by (auto simp: returns_iff)
  ultimately have "returns (bindO (foldO (load_manifest os k) files w) (\<lambda>w1. if enable
      then let ((svcs, _, _), w3) = Services (StartMonitoring w1) in foldO (enable_one os) svcs w3
      else Done (StartMonitoring w1))) (\<lambda>w'. inv w' \<and> all_ready w' \<and> (enable \<longrightarrow> (\<forall>s \<in> set (managed w'). settled w' s)))"
    by (auto simp: returns_iff)
  then
  show ?thesis by (simp add: daemon_start_def Let_def)
qed

text \<open>In terms of names: a service that is not enabled conflicts with one that is.\<close>

lemma settled_names:
  assumes "inv w" and "s \<in> set (managed w)" and "settled w s"
  shows "enabled (svc w s) \<or>
    (\<exists>t \<in> set (managed w). t \<noteq> s \<and> conflicting (svc w s) (svc w t) \<and> enabled (svc w t))"
  using assms(3) in_links(2) [OF inv_parts(2) [OF assms(1)] assms(2)] by (auto simp: settled_def conf_of_def)

section \<open>The whole start\<close>

text \<open>What a step of \<open>main\<close> before the services leaves alone.\<close>

definition prepared :: "'p world \<Rightarrow> 'p world \<Rightarrow> bool" where
  "prepared w w' \<longleftrightarrow> still w w' \<and> svc w' = svc w \<and> m_name (mgr w') = m_name (mgr w)"

lemma prepared_refl [simp]: "prepared w w"
  by (simp add: prepared_def)

lemma prepared_trans: "prepared u v \<Longrightarrow> prepared v w \<Longrightarrow> prepared u w"
  by (auto simp: prepared_def intro: still_trans)

lemma prepared_logs [simp]: "prepared w (std_logf msg w)" "prepared w (SetLogger l w)"
  using name_fixed.R_same [of "SetLogger l w" w]
  by (simp_all add: prepared_def still_std_logf SetLogger_still) (simp add: std_logf_def)

lemma open_logfile_prepared: "open_logfile ev opt w = Inr w' \<Longrightarrow> prepared w w'"
  by (auto simp: open_logfile_def split: if_splits option.splits)

lemma generate_password_prepared:
  "generate_password ev opt h w = Inr (h', w') \<Longrightarrow>
   prepared w w' \<and> (do_genpass opt \<noteq> [] \<or> au_auth h \<longrightarrow> au_auth h')"
  by (auto simp: generate_password_def Let_def split: if_splits sum.splits)

lemma load_passwd_auth: "load_passwd recs h = (None, h') \<Longrightarrow> au_auth h'"
  by (induction recs h rule: load_passwd.induct) auto

lemma load_passwords_prepared:
  "load_passwords ev opt h w = Inr (h', w') \<Longrightarrow>
   prepared w w' \<and> (do_passFile opt \<noteq> [] \<or> ev_Stat ev (path_Join [do_dir opt, ''passwd'']) \<or> au_auth h \<longrightarrow> au_auth h')"
  by (auto simp: load_passwords_def loadPasswdFile_def Let_def dest: load_passwd_auth
      split: if_splits sum.splits prod.splits option.splits)

text \<open>Starting the services keeps the name of the manager.\<close>

lemma daemon_start_name: "yields (daemon_start os k enable files w) (\<lambda>w'. m_name (mgr w') = m_name (mgr w))"
proof -
  let ?I = "\<lambda>x :: 'a proc world. m_name (mgr x) = m_name (mgr w)"
  have step: "?I y" if "?I x" "exec (process_provider os) a x = Done y" for a x y
    using name_fixed.R_every_exec [of "process_provider os" a x] that by simp
  have load: "yields (load_manifest os k f x) ?I" if x: "?I x" for f x
  proof -
    obtain s fname mf where f: "f = (s, fname, mf)" by (cases f)
    have add: "yields (bindO (AddService s y) (\<lambda>(_, z). Done z)) ?I" if "?I y" for y :: "'a proc world"
      using name_fixed.R_every_exec [of "process_provider os" "OpAdd s" y] that by (auto elim: yields_mono)
    have "yields (NewProcessFromManifest os k m s x) ?I" for m
      unfolding NewProcessFromManifest_def Let_def
      by (rule yields_pair [OF name_fixed.R_SetProperty]) (use x name_fixed.R_NewService in auto)
    then have "yields (bindO (NewProcessFromManifest os k m s x) (\<lambda>y. bindO (AddService s y) (\<lambda>(_, z). Done z))) ?I" for m
      by (rule yields_next) (rule add)
    then show ?thesis
      using x by (auto simp: f load_manifest_def NewProcessFromJson_def std_logf_def split: manifest_file.split sum.split)
  qed
  have enable: "yields (enable_one os s x) ?I" if "?I x" for s x
    unfolding enable_one_def
    by (rule yields_pair [where R = ?I])
      (use name_fixed.R_every_exec [of "process_provider os" "OpEnable s" x] that in \<open>auto simp: survived_def elim: yields_mono\<close>)
  have "?I (StartMonitoring x)" "?I (snd (Services (StartMonitoring x)))" if "?I x" for x
    using step [OF that, of OpStartMonitoring] step [OF step [OF that, of OpStartMonitoring], of _ OpServices] by simp_all
  then show ?thesis
    unfolding daemon_start_def Let_def case_prod_beta
    by (intro yields_next [OF yields_foldO [where I = ?I, OF load]] yields_if yields_foldO [where I = ?I, OF enable]) simp_all
qed

text \<open>Each file of a directory gets a service of its own.\<close>

definition fresh_files :: "daemon_env \<Rightarrow> bool" where
  "fresh_files ev \<longleftrightarrow> (\<forall>d fs. ev_Readdirnames ev d = Files fs \<longrightarrow> distinct (map fst fs))"

lemma daemon_main_spec:
  assumes "inv w" and "managed w = []" and "fresh_files ev" and "all_ready w"
    and cmds: "\<forall>f m. ev_Open ev f = Opened (Inr m) \<longrightarrow> mf_Command m \<noteq> []"
  shows "returns (daemon_main os k ev args w) (\<lambda>r. \<forall>ln h w'. r = Running_daemon ln h w' \<longrightarrow>
    (\<exists>vs rest. parse_flags daemon_flags args = Parsed vs rest \<and> inv w' \<and> all_ready w' \<and> m_name (mgr w') = m_name (mgr w) \<and>
      ln = listener_of (daemon_settings vs) \<and>
      (do_genpass (daemon_settings vs) \<noteq> [] \<or> do_passFile (daemon_settings vs) \<noteq> [] \<longrightarrow> au_auth h) \<and>
      (do_enable (daemon_settings vs) \<longrightarrow> (\<forall>s \<in> set (managed w'). settled w' s))))"
proof (cases "parse_flags daemon_flags args")
  case (Parsed vs rest)
  define opt where "opt = daemon_settings vs"
  let ?h = "\<lparr>au_auth = False, au_passwd = [], au_name = do_name opt\<rparr>"
  note [simp] = Parsed daemon_main_def opt_def [symmetric] Let_def
  show ?thesis
  proof (cases "open_logfile ev opt w")
    case w1: (Inr w1)
    note [simp] = w1
    show ?thesis
    proof (cases "generate_password ev opt ?h w1")
      case (Inr x)
      then obtain h2 w2 where w2 [simp]: "generate_password ev opt ?h w1 = Inr (h2, w2)" by (cases x) auto
      show ?thesis
      proof (cases "load_passwords ev opt h2 w2")
        case (Inr y)
        then obtain h3 w3 where w3 [simp]: "load_passwords ev opt h2 w2 = Inr (h3, w3)" by (cases y) auto
        have p: "prepared w w3"
          using open_logfile_prepared [OF w1] generate_password_prepared [OF w2] load_passwords_prepared [OF w3]
          by (blast intro: prepared_trans)
        have auth: "do_genpass opt \<noteq> [] \<or> do_passFile opt \<noteq> [] \<longrightarrow> au_auth h3"
          using generate_password_prepared [OF w2] load_passwords_prepared [OF w3] by blast
        have i: "inv w3" "managed w3 = []" "m_name (mgr w3) = m_name (mgr w)" "all_ready w3"
          using p assms(4) still_inv [OF _ assms(1)] frame_managed [OF still_frame, of w w3] assms(2)
          by (auto simp: prepared_def all_ready_def)
        show ?thesis
        proof (cases "ev_Readdirnames ev (path_Join [do_dir opt, ''services''])")
          case (Files fs)
          let ?files = "map (\<lambda>(s, f). let fname = path_Join [path_Join [do_dir opt, ''services''], f]
            in (s, fname, ev_Open ev fname)) fs"
          have "map fst ?files = map fst fs" by (simp add: case_prod_beta Let_def)
          moreover have "with_commands ?files" using cmds by (auto simp: with_commands_def Let_def)
          ultimately have "returns (daemon_start os k (do_enable opt) ?files w3) (\<lambda>w'. inv w' \<and> all_ready w' \<and>
              (do_enable opt \<longrightarrow> (\<forall>s \<in> set (managed w'). settled w' s)))"
            by (intro daemon_start_spec [OF i(1) _ _ i(4)]) (use assms(3) Files in \<open>auto simp: fresh_files_def i(2) case_prod_beta comp_def Let_def\<close>)
          moreover have "yields (daemon_start os k (do_enable opt) ?files w3) (\<lambda>w'. m_name (mgr w') = m_name (mgr w))"
            using daemon_start_name [of os k "do_enable opt" ?files w3] i(3) by simp
          ultimately show ?thesis
            using auth by (auto simp: scan_services_def Files returns_iff split: option.split)
        qed (simp_all add: scan_services_def split: option.split)
      qed simp
    qed simp
  qed simp
qed (simp add: daemon_main_def)

end
