(* ===== verification/Bars.thy ===== *)
theory Bars
  imports GoStrings
begin

text \<open>
  The bars around every panel of the terminal interface (\<open>titlebar.go\<close>, \<open>statusbar.go\<close>, \<open>keybar.go\<close> and
  \<open>panel.go\<close>).  A bar of the library \<open>tcell/views\<close> is what was set on it: its style, the styles registered
  for marks, and its three texts.  The panels work with the record \<open>bars\<close>, which says what the bars
  show; the last section relates the two.
\<close>

section \<open>What the bars show\<close>

text \<open>\<open>statusbar.go\<close>: the four styles of the bar, and the four kinds of lines of the main panel.\<close>

datatype look = Normal | Good | Warn | Error

text \<open>The bars around a panel.\<close>

record bars =
  b_title :: string
  b_status :: string
  b_look :: look
  b_keys :: "string list"

text \<open>\<open>Panel.Init\<close>: the centre of the title is a space, the status is empty and normal.\<close>

definition init_bars :: bars where
  "init_bars = \<lparr>b_title = '' '', b_status = [], b_look = Normal, b_keys = []\<rparr>"

section \<open>The key bar\<close>

text \<open>
  \<open>SetKeys\<close> writes the words with style marks for \<open>SimpleStyledTextBar\<close>: \<open>%A\<close> after an opening and
  \<open>%N\<close> before a closing bracket, and a doubled percent sign for a plain one.
\<close>

fun key_runes :: "bool \<Rightarrow> string \<Rightarrow> string" where
  "key_runes esc [] = []"
| "key_runes esc (r # rs) =
     (if esc then
        if r = CHR '']'' then ''%N'' @ r # key_runes False rs
        else if r = CHR ''%'' then CHR ''%'' # r # key_runes True rs
        else r # key_runes True rs
      else
        if r = CHR ''['' then r # ''%A'' @ key_runes True rs
        else if r = CHR ''%'' then r # CHR ''%'' # key_runes False rs
        else r # key_runes False rs)"

definition SetKeys :: "string list \<Rightarrow> string" where
  "SetKeys words =
     concat (map (\<lambda>(i, w). (if i \<noteq> 0 \<and> w \<noteq> [] then '' '' else []) @ key_runes False w) (enumerate 0 words))"

text \<open>What a text with marks shows: a doubled percent sign is one, any other mark is invisible.\<close>

fun without_marks :: "string \<Rightarrow> string" where
  "without_marks [] = []"
| "without_marks [c] = [c]"
| "without_marks (c # d # cs) =
     (if c = CHR ''%'' then (if d = CHR ''%'' then CHR ''%'' # without_marks cs else without_marks cs)
      else c # without_marks (d # cs))"

lemma without_marks_cons [simp]: "c \<noteq> CHR ''%'' \<Longrightarrow> without_marks (c # cs) = c # without_marks cs"
  by (cases cs) simp_all

lemma without_marks_runes: "without_marks (key_runes esc w @ rest) = w @ without_marks rest"
  by (induction esc w rule: key_runes.induct) simp_all

lemma key_bar_shows_the_words:
  "without_marks (SetKeys words) =
    concat (map (\<lambda>(i, w). (if i \<noteq> 0 \<and> w \<noteq> [] then '' '' else []) @ w) (enumerate 0 words))"
proof -
  have "without_marks (concat (map (\<lambda>(i, w). (if i \<noteq> (0 :: nat) \<and> w \<noteq> [] then '' '' else []) @ key_runes False w) iws) @ []) =
      concat (map (\<lambda>(i, w). (if i \<noteq> 0 \<and> w \<noteq> [] then '' '' else []) @ w) iws)" for iws
    by (induction iws) (auto simp: without_marks_runes)
  then show ?thesis by (simp add: SetKeys_def)
qed

section \<open>Styles and bars\<close>

datatype color =
    ColorDefault | ColorBlack | ColorSilver | ColorWhite | ColorGreen | ColorYellow | ColorMaroon | ColorBlue | ColorNavy

record style =
  st_foreground :: color
  st_background :: color
  st_bold :: bool

text \<open>\<open>tcell.StyleDefault.Foreground(fg).Background(bg)\<close>.\<close>

definition style_of :: "color \<Rightarrow> color \<Rightarrow> style" where
  "style_of fg bg = \<lparr>st_foreground = fg, st_background = bg, st_bold = False\<rparr>"

record text_bar =
  tx_style :: style
  tx_leftStyles :: "char \<rightharpoonup> style"
  tx_centerStyles :: "char \<rightharpoonup> style"
  tx_rightStyles :: "char \<rightharpoonup> style"
  tx_left :: string
  tx_center :: string
  tx_right :: string

definition SimpleStyledTextBar :: text_bar where
  "SimpleStyledTextBar =
     \<lparr>tx_style = style_of ColorDefault ColorDefault, tx_leftStyles = Map.empty, tx_centerStyles = Map.empty,
      tx_rightStyles = Map.empty, tx_left = [], tx_center = [], tx_right = []\<rparr>"

definition NewTitleBar :: text_bar where
  "NewTitleBar =
     (let normal = style_of ColorBlack ColorSilver;
          alternate = style_of ColorBlue ColorSilver;
          styles = [CHR ''N'' \<mapsto> normal, CHR ''A'' \<mapsto> alternate]
      in SimpleStyledTextBar
        \<lparr>tx_style := normal, tx_leftStyles := styles, tx_centerStyles := styles, tx_rightStyles := styles\<rparr>)"

definition NewKeyBar :: text_bar where
  "NewKeyBar =
     (let normal = style_of ColorBlack ColorSilver;
          alternate = (style_of ColorBlue ColorSilver)\<lparr>st_bold := True\<rparr>
      in SimpleStyledTextBar
        \<lparr>tx_style := normal, tx_leftStyles := [CHR ''N'' \<mapsto> normal, CHR ''A'' \<mapsto> alternate]\<rparr>)"

text \<open>The status bar: the colours of \<open>look\<close>, and the text that is written again with every style.\<close>

definition StatusBarStyle :: "look \<Rightarrow> style" where
  "StatusBarStyle lk =
     (case lk of
        Normal \<Rightarrow> style_of ColorBlack ColorSilver
      | Good \<Rightarrow> (style_of ColorWhite ColorGreen)\<lparr>st_bold := True\<rparr>
      | Warn \<Rightarrow> style_of ColorBlack ColorYellow
      | Error \<Rightarrow> (style_of ColorWhite ColorMaroon)\<lparr>st_bold := True\<rparr>)"

record status_bar =
  sb_status :: string
  sb_bar :: text_bar

definition StatusBar_SetStyle :: "style \<Rightarrow> status_bar \<Rightarrow> status_bar" where
  "StatusBar_SetStyle st sb =
     sb\<lparr>sb_bar := (sb_bar sb)\<lparr>tx_style := st, tx_leftStyles := (tx_leftStyles (sb_bar sb))(CHR ''N'' \<mapsto> st),
       tx_left := sb_status sb\<rparr>\<rparr>"

text \<open>\<open>SetGood\<close>, \<open>SetNormal\<close>, \<open>SetWarn\<close> and \<open>SetError\<close>.\<close>

definition StatusBar_SetLook :: "look \<Rightarrow> status_bar \<Rightarrow> status_bar" where
  "StatusBar_SetLook lk = StatusBar_SetStyle (StatusBarStyle lk)"

definition StatusBar_SetText :: "string \<Rightarrow> status_bar \<Rightarrow> status_bar" where
  "StatusBar_SetText status sb = sb\<lparr>sb_status := status, sb_bar := (sb_bar sb)\<lparr>tx_left := status\<rparr>\<rparr>"

definition NewStatusBar :: status_bar where
  "NewStatusBar = StatusBar_SetLook Normal \<lparr>sb_status = [], sb_bar = SimpleStyledTextBar\<rparr>"

section \<open>Panels\<close>

record panel =
  pn_tb :: text_bar
  pn_sb :: status_bar
  pn_kb :: text_bar

definition GetAppName :: string where
  "GetAppName = ''Govisor v1.3''"

definition Panel_Init :: panel where
  "Panel_Init =
     \<lparr>pn_tb = NewTitleBar\<lparr>tx_right := GetAppName, tx_center := '' ''\<rparr>, pn_sb = NewStatusBar, pn_kb = NewKeyBar\<rparr>"

definition Panel_SetTitle :: "string \<Rightarrow> panel \<Rightarrow> panel" where
  "Panel_SetTitle title p = p\<lparr>pn_tb := (pn_tb p)\<lparr>tx_center := title\<rparr>\<rparr>"

definition Panel_SetKeys :: "string list \<Rightarrow> panel \<Rightarrow> panel" where
  "Panel_SetKeys words p = p\<lparr>pn_kb := (pn_kb p)\<lparr>tx_left := SetKeys words\<rparr>\<rparr>"

definition Panel_SetStatus :: "string \<Rightarrow> panel \<Rightarrow> panel" where
  "Panel_SetStatus status p = p\<lparr>pn_sb := StatusBar_SetText status (pn_sb p)\<rparr>"

definition Panel_SetLook :: "look \<Rightarrow> panel \<Rightarrow> panel" where
  "Panel_SetLook lk p = p\<lparr>pn_sb := StatusBar_SetLook lk (pn_sb p)\<rparr>"

section \<open>The bars of a panel are what \<open>bars\<close> says\<close>

text \<open>The panel whose bars show \<open>b\<close>.\<close>

definition panel_of :: "bars \<Rightarrow> panel" where
  "panel_of b = Panel_SetKeys (b_keys b) (Panel_SetStatus (b_status b) (Panel_SetLook (b_look b)
     (Panel_SetTitle (b_title b) Panel_Init)))"

lemma panel_of_init: "panel_of init_bars = Panel_Init"
  by (simp add: panel_of_def init_bars_def Panel_Init_def Panel_SetKeys_def Panel_SetStatus_def Panel_SetLook_def
      Panel_SetTitle_def StatusBar_SetText_def StatusBar_SetLook_def StatusBar_SetStyle_def NewStatusBar_def
      NewKeyBar_def SetKeys_def SimpleStyledTextBar_def Let_def)

lemma panel_of_updates:
  "Panel_SetTitle t (panel_of b) = panel_of (b\<lparr>b_title := t\<rparr>)"
  "Panel_SetKeys ws (panel_of b) = panel_of (b\<lparr>b_keys := ws\<rparr>)"
  "Panel_SetStatus st (panel_of b) = panel_of (b\<lparr>b_status := st\<rparr>)"
  "Panel_SetLook lk (panel_of b) = panel_of (b\<lparr>b_look := lk\<rparr>)"
  by (simp_all add: panel_of_def Panel_SetKeys_def Panel_SetStatus_def Panel_SetLook_def Panel_SetTitle_def
      StatusBar_SetText_def StatusBar_SetLook_def StatusBar_SetStyle_def Panel_Init_def NewStatusBar_def)

text \<open>What is seen of a panel: its texts, without marks, and the colour of the status.\<close>

lemma panel_of_shows:
  "tx_center (pn_tb (panel_of b)) = b_title b" "tx_left (sb_bar (pn_sb (panel_of b))) = b_status b"
  "tx_style (sb_bar (pn_sb (panel_of b))) = StatusBarStyle (b_look b)"
  "without_marks (tx_left (pn_kb (panel_of b))) =
    concat (map (\<lambda>(i, w). (if i \<noteq> 0 \<and> w \<noteq> [] then '' '' else []) @ w) (enumerate 0 (b_keys b)))"
  by (simp_all add: panel_of_def Panel_SetKeys_def Panel_SetStatus_def Panel_SetLook_def Panel_SetTitle_def
      StatusBar_SetText_def StatusBar_SetLook_def StatusBar_SetStyle_def key_bar_shows_the_words)

end
