(* ===== verification/Panels.thy ===== *)
theory Panels
  imports RestClient Bars
begin

text \<open>
  The panels of the terminal interface (\<open>govisor/ui\<close>) except the main one: the panels with the details and with the log
  of a service (\<open>ipanel.go\<close>, \<open>lpanel.go\<close>), the help (\<open>hpanel.go\<close>) and the login form
  (\<open>apanel.go\<close>).  The widgets of the library \<open>tcell/views\<close> are left out: a handler gives the call
  it makes on the application, or \<open>None\<close> when it passes the event on to \<open>views.Panel\<close>; an
  update gives the texts and styles it sets.
\<close>

section \<open>Events and calls\<close>

datatype key =
    KeyEsc | KeyF1 | KeyEnter | KeyTab | KeyBacktab | KeyCtrlC | KeyCtrlL | KeyCtrlU | KeyCtrlW
  | KeyBackspace | KeyBackspace2 | KeyRune char | OtherKey nat

datatype event = EventKey key | OtherEvent

datatype app_call =
    CallQuit | CallRefresh | CallShowHelp | CallShowMain | CallShowAuth
  | CallShowInfo string | CallShowLog string | CallEnable string | CallDisable string
  | CallClear string | CallRestart string | CallLogin string string

text \<open>A pointer to a service entry, with the entry it points to.\<close>

type_synonym item = "nat \<times> service_entry"

abbreviation info_of :: "item \<Rightarrow> service_entry" where "info_of i \<equiv> snd i"

text \<open>
  The errors that \<open>GetItem\<close> returns: the one of the application (a pointer), or a new
  "Service not found" each time.
\<close>

datatype item_error = AppError nat client_error | NotFound

fun same_error :: "item_error option \<Rightarrow> item_error option \<Rightarrow> bool" where
  "same_error None None = True"
| "same_error (Some (AppError p _)) (Some (AppError q _)) = (p = q)"
| "same_error _ _ = False"

definition item_error_text :: "item_error \<Rightarrow> string" where
  "item_error_text e =
     (case e of
        AppError _ (RestFailure er) \<Rightarrow> rest_error_text er
      | AppError _ (NetFailure m) \<Rightarrow> m
      | NotFound \<Rightarrow> ''Service not found'')"

text \<open>The colour that the log and details panels choose for a service.\<close>

definition service_look :: "service_entry \<Rightarrow> look" where
  "service_look s =
     (if \<not> se_Enabled s then Normal
      else if se_Failed s then Error
      else if se_Running s then Good
      else Warn)"

text \<open>The keys offered for a service.\<close>

definition service_keys :: "service_entry \<Rightarrow> string list" where
  "service_keys s =
     (if \<not> se_Enabled s then [''[E] Enable'']
      else [''[D] Disable''] @ (if se_Failed s then [''[C] Clear''] else []) @ [''[R] Restart''])"

section \<open>Details of a service\<close>

record info_panel =
  ip_bars :: bars
  ip_lines :: "string list option"     \<comment> \<open>\<open>None\<close> for \<open>SetLines(nil)\<close>\<close>
  ip_info :: "item option"
  ip_name :: string
  ip_err :: "item_error option"

definition NewInfoPanel :: info_panel where
  "NewInfoPanel =
     \<lparr>ip_bars = init_bars\<lparr>b_keys := [''[Q] Quit'', ''[H] Help'']\<rparr>, ip_lines = None, ip_info = None,
      ip_name = [], ip_err = None\<rparr>"

definition info_SetName :: "string \<Rightarrow> info_panel \<Rightarrow> info_panel" where
  "info_SetName name p = p\<lparr>ip_name := name\<rparr>"

text \<open>The lines of the details; \<open>show_time\<close> is the format of \<open>%v\<close> for a time.\<close>

definition info_words :: "string \<Rightarrow> string list \<Rightarrow> string" where
  "info_words label ws = pad_left 13 label @ concat (map (\<lambda>p. CHR '' '' # p) ws)"

definition info_lines :: "(time \<Rightarrow> string) \<Rightarrow> service_entry \<Rightarrow> string list" where
  "info_lines show_time s =
     [pad_left 13 ''Name:'' @ '' '' @ se_Name s, pad_left 13 ''Description:'' @ '' '' @ se_Description s,
      pad_left 13 ''Status:'' @ '' '' @ entry_status s, pad_left 13 ''Since:'' @ '' '' @ show_time (se_TimeStamp s),
      pad_left 13 ''Detail:'' @ '' '' @ se_Status s, info_words ''Provides:'' (se_Provides s),
      info_words ''Depends:'' (se_Depends s), info_words ''Conflicts:'' (se_Conflicts s)]"

text \<open>\<open>update\<close> with what \<open>GetItem\<close> returned: nothing happens when pointer and error are the same.\<close>

definition info_update ::
  "(time \<Rightarrow> string) \<Rightarrow> item option \<times> item_error option \<Rightarrow> info_panel \<Rightarrow> info_panel" where
  "info_update show_time got p =
     (let (s, e) = got in
      if map_option fst (ip_info p) = map_option fst s \<and> same_error (ip_err p) e then p
      else
        let p1 = p\<lparr>ip_info := s, ip_err := e\<rparr>;
            words = [''[ESC] Main'', ''[H] Help''];
            title = ''Details for '' @ ip_name p
        in case s of
             None \<Rightarrow>
               (case e of
                  Some er \<Rightarrow> p1\<lparr>ip_lines := None, ip_bars := \<lparr>b_title = title,
                    b_status = ''No data: '' @ item_error_text er, b_look = Error, b_keys = words\<rparr>\<rparr>
                | None \<Rightarrow> p1\<lparr>ip_lines := None, ip_bars := \<lparr>b_title = title, b_status = ''Loading...'',
                    b_look = Normal, b_keys = words\<rparr>\<rparr>)
           | Some (_, i) \<Rightarrow>
               p1\<lparr>ip_lines := Some (info_lines show_time i), ip_bars := \<lparr>b_title = title, b_status = [],
                  b_look = service_look i, b_keys = words @ [''[L] Log''] @ service_keys i\<rparr>\<rparr>)"

text \<open>The keys that the details and log panels share.\<close>

definition service_key :: "item option \<Rightarrow> char \<Rightarrow> app_call option" where
  "service_key info r =
     (case info of
        None \<Rightarrow> None
      | Some (_, i) \<Rightarrow>
          if r \<in> {CHR ''R'', CHR ''r''} then Some (CallRestart (se_Name i))
          else if r \<in> {CHR ''E'', CHR ''e''} \<and> \<not> se_Enabled i then Some (CallEnable (se_Name i))
          else if r \<in> {CHR ''D'', CHR ''d''} \<and> se_Enabled i then Some (CallDisable (se_Name i))
          else if r \<in> {CHR ''C'', CHR ''c''} \<and> se_Failed i then Some (CallClear (se_Name i))
          else None)"

definition info_HandleEvent :: "event \<Rightarrow> info_panel \<Rightarrow> app_call option" where
  "info_HandleEvent ev p =
     (case ev of
        EventKey KeyEsc \<Rightarrow> Some CallShowMain
      | EventKey KeyF1 \<Rightarrow> Some CallShowHelp
      | EventKey (KeyRune r) \<Rightarrow>
          if r \<in> {CHR ''Q'', CHR ''q''} then Some CallShowMain
          else if r \<in> {CHR ''H'', CHR ''h''} then Some CallShowHelp
          else if r \<in> {CHR ''L'', CHR ''l''} then map_option (\<lambda>i. CallShowLog (se_Name (info_of i))) (ip_info p)
          else service_key (ip_info p) r
      | _ \<Rightarrow> None)"

section \<open>The log\<close>

record log_panel =
  lp_bars :: bars
  lp_lines :: "string list option"
  lp_info :: "item option"
  lp_name :: string
  lp_err :: "item_error option"        \<comment> \<open>never set\<close>

definition log_SetName :: "string \<Rightarrow> log_panel \<Rightarrow> log_panel" where
  "log_SetName name p = p\<lparr>lp_bars := (lp_bars p)\<lparr>b_title := ''Loading''\<rparr>, lp_lines := None, lp_name := name\<rparr>"

text \<open>
  \<open>update\<close> with what \<open>GetItem\<close> and \<open>GetLog\<close> returned; \<open>stamp\<close> is the format of a time.  The error
  is only shown when \<open>p.err\<close> is set, which it never is.
\<close>

definition log_update ::
  "(time \<Rightarrow> string) \<Rightarrow> item option \<times> item_error option \<Rightarrow> log_info option \<times> item_error option \<Rightarrow>
   log_panel \<Rightarrow> log_panel" where
  "log_update stamp got got_log p =
     (let (svcinfo, e1) = got;
          (loginfo, e2) = got_log;
          words = [''[ESC] Main'', ''[H] Help''];
          title = (if lp_name p = [] then ''Consolidated Log'' else ''Log for '' @ lp_name p);
          p1 = p\<lparr>lp_info := svcinfo, lp_bars := (lp_bars p)\<lparr>b_title := title\<rparr>\<rparr>
      in case (if svcinfo = None \<and> lp_name p \<noteq> [] then None else loginfo) of
           None \<Rightarrow>
             let e = (if e2 = None then e1 else e2);
                 (st, lk) = (if lp_err p \<noteq> None
                   then (''No data: '' @ (case e of None \<Rightarrow> ''<nil>'' | Some er \<Rightarrow> item_error_text er), Error)
                   else (''Loading ...'', Normal))
             in p1\<lparr>lp_lines := Some [[]], lp_bars := (lp_bars p1)\<lparr>b_status := st, b_look := lk, b_keys := words\<rparr>\<rparr>
         | Some l \<Rightarrow>
             p1\<lparr>lp_lines := Some (map (\<lambda>r. stamp (le_Time r) @ '' '' @ le_Text r) (li_Records l)),
                lp_bars := (lp_bars p1)
                  \<lparr>b_status := [],
                   b_look := (case svcinfo of None \<Rightarrow> b_look (lp_bars p1) | Some (_, i) \<Rightarrow> service_look i),
                   b_keys := words @ (case svcinfo of None \<Rightarrow> [] | Some (_, i) \<Rightarrow> [''[I] Info''] @ service_keys i)\<rparr>\<rparr>)"

definition NewLogPanel :: "(time \<Rightarrow> string) \<Rightarrow> log_panel" where
  "NewLogPanel stamp =
     log_update stamp (None, Some NotFound) (None, None)
       \<lparr>lp_bars = init_bars\<lparr>b_keys := [''[Q] Quit'', ''[H] Help'']\<rparr>, lp_lines = None, lp_info = None,
        lp_name = [], lp_err = None\<rparr>"

definition log_HandleEvent :: "event \<Rightarrow> log_panel \<Rightarrow> app_call option" where
  "log_HandleEvent ev p =
     (case ev of
        EventKey KeyEsc \<Rightarrow> Some CallShowMain
      | EventKey KeyF1 \<Rightarrow> Some CallShowHelp
      | EventKey (KeyRune r) \<Rightarrow>
          if r \<in> {CHR ''Q'', CHR ''q''} then Some CallShowMain
          else if r \<in> {CHR ''H'', CHR ''h''} then Some CallShowHelp
          else if r \<in> {CHR ''I'', CHR ''i''} then map_option (\<lambda>i. CallShowInfo (se_Name (info_of i))) (lp_info p)
          else service_key (lp_info p) r
      | _ \<Rightarrow> None)"

section \<open>Help\<close>

definition help_HandleEvent :: "event \<Rightarrow> app_call option" where
  "help_HandleEvent ev =
     (case ev of
        EventKey KeyEsc \<Rightarrow> Some CallShowMain
      | EventKey (KeyRune r) \<Rightarrow> if r \<in> {CHR ''Q'', CHR ''q''} then Some CallShowMain else None
      | _ \<Rightarrow> None)"

text \<open>The text of the help, set by \<open>Init\<close>.\<close>

definition help_lines :: "string list" where
  "help_lines =
     [''Supported keys (not all keys available in all contexts)'', [],
      ''  <ESC>          : return to main screen'', ''  <CTRL-C>       : quit'',
      ''  <CTRL-L>       : refresh the screeen'', ''  <H>            : show this help'',
      ''  <UP>,   <DOWN> : navigation'', ''  <PGUP>, <PGDN>'', ''  <HOME>, <END>'',
      ''  <E>            : enable selected service'', ''  <D>            : disable selected service'',
      ''  <I>            : view detailed information for service'', ''  <R>            : restart selected service'',
      ''  <C>            : clear faults on selected service'', ''  <L>            : view log for selected service'', [],
      ''This program is distributed under the Apache 2.0 License'', ''Copyright 2016 The Govisor Authors'']"

record help_panel =
  hp_text :: "string list"
  hp_bars :: bars

definition NewHelpPanel :: help_panel where
  "NewHelpPanel = \<lparr>hp_text = help_lines, hp_bars = init_bars\<rparr>"

definition help_update :: "help_panel \<Rightarrow> help_panel" where
  "help_update h = h\<lparr>hp_bars := (hp_bars h)\<lparr>b_keys := [''[ESC] Main''], b_title := ''Help''\<rparr>\<rparr>"

section \<open>The login form\<close>

text \<open>The two fields with their texts and styles, and the columns they stand in, from left to right and
  from top to bottom; a spacer fills what is left.\<close>

record auth_panel =
  ap_bars :: bars
  ap_ufield :: string
  ap_ustyle :: style
  ap_pfield :: string
  ap_pstyle :: style
  ap_passactive :: bool
  ap_username :: string
  ap_password :: string

datatype widget = Spacer | Text string | UserField | PasswordField | Column "widget list"

definition auth_layout :: "widget list" where
  "auth_layout =
     [Spacer, Column [Spacer, Text ''Username: '', Text ''Password: '', Spacer],
      Column [Spacer, UserField, PasswordField, Spacer], Spacer]"

definition NewAuthPanel :: "string \<Rightarrow> auth_panel" where
  "NewAuthPanel server =
     (let st = style_of ColorSilver ColorBlack
      in \<lparr>ap_bars = \<lparr>b_title = server, b_status = ''Authentication Required'', b_look = Normal, b_keys = [''[ESC] Quit'']\<rparr>,
          ap_ufield = replicate 16 (CHR '' ''), ap_ustyle = st, ap_pfield = replicate 16 (CHR '' ''), ap_pstyle = st,
          ap_passactive = False, ap_username = [], ap_password = []\<rparr>)"

definition ResetFields :: "auth_panel \<Rightarrow> auth_panel" where
  "ResetFields p = p\<lparr>ap_passactive := False, ap_username := [], ap_password := []\<rparr>"

text \<open>An edit of the field that has the focus.\<close>

definition edit_field :: "(string \<Rightarrow> string) \<Rightarrow> auth_panel \<Rightarrow> auth_panel" where
  "edit_field f p =
     (if ap_passactive p then p\<lparr>ap_password := f (ap_password p)\<rparr> else p\<lparr>ap_username := f (ap_username p)\<rparr>)"

text \<open>The result (\<open>None\<close>: what \<open>views.Panel\<close> says), the calls made, and the panel afterwards.\<close>

definition auth_HandleEvent :: "event \<Rightarrow> auth_panel \<Rightarrow> bool option \<times> app_call list \<times> auth_panel" where
  "auth_HandleEvent ev p =
     (case ev of
        OtherEvent \<Rightarrow> (None, [], p)
      | EventKey k \<Rightarrow>
          if k = KeyEsc then (Some True, [CallQuit], p)
          else if k = KeyTab \<or> k = KeyEnter then
            if ap_passactive p then (Some True, [CallLogin (ap_username p) (ap_password p), CallShowMain], p)
            else (Some True, [], p\<lparr>ap_passactive := True\<rparr>)
          else if k = KeyBacktab then (Some True, [], if ap_passactive p then p\<lparr>ap_passactive := False\<rparr> else p)
          else if k = KeyCtrlU \<or> k = KeyCtrlW then (Some True, [], edit_field (\<lambda>_. []) p)
          else if k = KeyBackspace \<or> k = KeyBackspace2 then (Some True, [], edit_field butlast p)
          else case k of
                 KeyRune r \<Rightarrow> (Some True, [], edit_field (\<lambda>s. if length s < 256 then s @ [r] else s) p)
               | _ \<Rightarrow> (Some False, [], p))"

text \<open>A field is 16 runes wide; a longer text shows its end behind \<open><\<close>.\<close>

definition fit_field :: "string \<Rightarrow> string" where
  "fit_field s =
     (let t = (if length s > 16 then (drop (length s - 16) s)[0 := CHR ''<''] else s)
      in t @ replicate (16 - length t) (CHR '' ''))"

definition auth_fields :: "auth_panel \<Rightarrow> string \<times> string" where
  "auth_fields p =
     (let userprompt = ap_username p; passprompt = map (\<lambda>_. CHR ''*'') (ap_password p);
          (u, w) = (if \<not> ap_passactive p then (userprompt @ ''_'', passprompt) else (userprompt, passprompt @ ''_''))
      in (fit_field u, fit_field w))"

text \<open>\<open>update\<close>: the field that has the focus is white on blue.\<close>

definition auth_update :: "auth_panel \<Rightarrow> auth_panel" where
  "auth_update p =
     (let (u, w) = auth_fields p;
          focus = style_of ColorWhite ColorNavy;
          idle = style_of ColorSilver ColorBlack
      in p\<lparr>ap_bars := (ap_bars p)\<lparr>b_look := Error\<rparr>, ap_ufield := u, ap_pfield := w,
           ap_pstyle := (if ap_passactive p then focus else idle),
           ap_ustyle := (if ap_passactive p then idle else focus)\<rparr>)"

lemma length_fit_field: "length (fit_field s) = 16"
  by (simp add: fit_field_def Let_def)

lemma set_fit_field: "set (fit_field s) \<subseteq> insert (CHR ''<'') (insert (CHR '' '') (set s))"
  using set_drop_subset [of "length s - 16" s] set_update_subset_insert [of "drop (length s - 16) s" 0 "CHR ''<''"]
  by (auto simp: fit_field_def Let_def split: if_splits)

end
