(* ===== verification/MainPanel.thy ===== *)
theory MainPanel
  imports Panels
begin

text \<open>
  The main panel (\<open>govisor/ui/mpanel.go\<close>): the list of services with its counts and colours, the
  cursor and the selected service, the keys, and the model that the list widget \<open>views.CellView\<close>
  draws from and moves the cursor with.  An index out of range is a panic.
\<close>

section \<open>State\<close>

record main_panel =
  mp_selected :: "item option"
  mp_ndisabled :: nat
  mp_nfailed :: nat
  mp_nrunning :: nat
  mp_nstopped :: nat
  mp_width :: int
  mp_height :: int
  mp_curx :: int
  mp_cury :: int
  mp_lines :: "string list"
  mp_styles :: "look list"
  mp_items :: "item list"
  mp_bars :: bars

definition NewMainPanel :: "string \<Rightarrow> main_panel" where
  "NewMainPanel server =
     \<lparr>mp_selected = None, mp_ndisabled = 0, mp_nfailed = 0, mp_nrunning = 0, mp_nstopped = 0,
      mp_width = 0, mp_height = 0, mp_curx = 0, mp_cury = 0, mp_lines = [], mp_styles = [], mp_items = [],
      mp_bars = init_bars\<lparr>b_title := server, b_keys := [''[Q] Quit'']\<rparr>\<rparr>"

definition index_item :: "item list \<Rightarrow> int \<Rightarrow> item outcome" where
  "index_item xs i = (if 0 \<le> i \<and> i < int (length xs) then Done (xs ! nat i) else Panic IndexOutOfRange)"

section \<open>The cursor\<close>

definition clamp_cursor :: "main_panel \<Rightarrow> main_panel" where
  "clamp_cursor p =
     (let p1 = (if mp_curx p > mp_width p - 1 then p\<lparr>mp_curx := mp_width p - 1\<rparr> else p);
          p2 = (if mp_cury p1 > mp_height p1 - 1 then p1\<lparr>mp_cury := mp_height p1 - 1\<rparr> else p1);
          p3 = (if mp_curx p2 < 0 then p2\<lparr>mp_curx := 0\<rparr> else p2)
      in if mp_cury p3 < 0 then p3\<lparr>mp_cury := 0\<rparr> else p3)"

definition updateCursor :: "bool \<Rightarrow> main_panel \<Rightarrow> main_panel outcome" where
  "updateCursor selected p =
     (let p1 = clamp_cursor p in
      if selected \<and> mp_height p1 > 0 then
        let p2 = (if mp_selected p1 = None then p1\<lparr>mp_curx := 0, mp_cury := 0\<rparr> else p1)
        in bindO (index_item (mp_items p2) (mp_cury p2)) (\<lambda>i. Done (p2\<lparr>mp_selected := Some i\<rparr>))
      else Done (p1\<lparr>mp_selected := None\<rparr>))"

definition unselect :: "main_panel \<Rightarrow> main_panel outcome" where
  "unselect p = updateCursor False (p\<lparr>mp_cury := 0, mp_curx := 0\<rparr>)"

definition MoveCursor :: "int \<Rightarrow> int \<Rightarrow> main_panel \<Rightarrow> main_panel outcome" where
  "MoveCursor offx offy p =
     updateCursor True (p\<lparr>mp_curx := mp_curx p + offx, mp_cury := mp_cury p + offy\<rparr>)"

definition SetCursor :: "int \<Rightarrow> int \<Rightarrow> main_panel \<Rightarrow> main_panel outcome" where
  "SetCursor x y p = updateCursor True (p\<lparr>mp_curx := x, mp_cury := y\<rparr>)"

definition GetCursor :: "main_panel \<Rightarrow> int \<times> int" where
  "GetCursor p = (mp_curx p, mp_cury p)"

text \<open>
  The character at a place of the list, its style, and whether it is shown in reverse because
  the line is the selected one (the same pointer).
\<close>

definition GetCell :: "int \<Rightarrow> int \<Rightarrow> main_panel \<Rightarrow> (char \<times> look \<times> bool) outcome" where
  "GetCell x y p =
     (if y < 0 \<or> y \<ge> int (length (mp_lines p)) then Done (CHR 0x00, Normal, False)
      else
        let l = mp_lines p ! nat y;
            ch = (if x \<ge> 0 \<and> x < int (length l) then l ! nat x else CHR '' '')
        in if nat y < length (mp_styles p) then
             bindO (index_item (mp_items p) y) (\<lambda>i.
             Done (ch, mp_styles p ! nat y, map_option fst (mp_selected p) = Some (fst i)))
           else Panic IndexOutOfRange)"

definition GetBounds :: "main_panel \<Rightarrow> int \<times> int" where
  "GetBounds p = (foldl (\<lambda>x l. if x < int (length l) then int (length l) else x) 0 (mp_lines p),
     int (length (mp_lines p)))"

text \<open>
  The order that the panel declares for itself.  It is the one of \<open>govisor/util\<close>, by which the list it is given is sorted.
\<close>

definition panel_Less :: "service_entry \<Rightarrow> service_entry \<Rightarrow> bool" where
  "panel_Less a b =
     (if se_Failed a \<noteq> se_Failed b then se_Failed a
      else if se_Enabled a \<noteq> se_Enabled b then se_Enabled a
      else se_Name a < se_Name b)"

lemma panel_Less_is_Less: "panel_Less = Less"
  by (rule ext)+ (simp add: panel_Less_def Less_def)

section \<open>Updates\<close>

text \<open>The selected service is looked up by its name among the new items.\<close>

fun reselect :: "string \<Rightarrow> item list \<Rightarrow> int \<Rightarrow> main_panel \<Rightarrow> main_panel" where
  "reselect name [] cury p = p"
| "reselect name (i # is) cury p =
     reselect name is (cury + 1)
       (if se_Name (info_of i) = name then p\<lparr>mp_selected := Some i, mp_cury := cury\<rparr> else p)"

definition keep_selection :: "main_panel \<Rightarrow> main_panel" where
  "keep_selection p =
     (case mp_selected p of
        None \<Rightarrow> p
      | Some sel \<Rightarrow> reselect (se_Name (info_of sel)) (mp_items p) 0 (p\<lparr>mp_selected := None\<rparr>))"

text \<open>The line of a service at the time \<open>t\<close>, and its colour.\<close>

definition main_line :: "time \<Rightarrow> service_entry \<Rightarrow> string" where
  "main_line t s =
     (let d = t - se_TimeStamp s; d = d - d smod second
      in pad_right 20 (se_Name s) @ '' '' @ pad_right 10 (entry_status s) @ '' '' @
         pad_left 10 (FormatDuration d) @ ''   '' @ pad_right 10 (se_Status s))"

definition main_look :: "service_entry \<Rightarrow> look" where
  "main_look s =
     (if \<not> se_Enabled s then Normal
      else if se_Failed s then Error
      else if \<not> se_Running s then Warn
      else Good)"

text \<open>
  \<open>StyleNormal\<close>, \<open>StyleGood\<close>, \<open>StyleWarn\<close> and \<open>StyleError\<close> of the lines: green, yellow and maroon tell
  the looks apart.
\<close>

definition LineStyle :: "look \<Rightarrow> style" where
  "LineStyle lk =
     style_of (case lk of Normal \<Rightarrow> ColorSilver | Good \<Rightarrow> ColorGreen | Warn \<Rightarrow> ColorYellow | Error \<Rightarrow> ColorMaroon) ColorBlack"

lemma LineStyle_inj: "LineStyle l1 = LineStyle l2 \<longleftrightarrow> l1 = l2"
  by (cases l1; cases l2) (simp_all add: LineStyle_def style_of_def)

definition count_item :: "look \<Rightarrow> main_panel \<Rightarrow> main_panel" where
  "count_item lk p =
     (case lk of
        Normal \<Rightarrow> p\<lparr>mp_ndisabled := mp_ndisabled p + 1\<rparr>
      | Error \<Rightarrow> p\<lparr>mp_nfailed := mp_nfailed p + 1\<rparr>
      | Warn \<Rightarrow> p\<lparr>mp_nstopped := mp_nstopped p + 1\<rparr>
      | Good \<Rightarrow> p\<lparr>mp_nrunning := mp_nrunning p + 1\<rparr>)"

text \<open>The loop over the items: one more line, style and count each.\<close>

fun add_lines :: "item list \<Rightarrow> clock \<Rightarrow> main_panel \<Rightarrow> main_panel" where
  "add_lines [] c p = p"
| "add_lines (i # is) c p =
     (let line = main_line (reading c) (info_of i);
          lk = main_look (info_of i);
          p1 = (if int (length line) > mp_width p then p\<lparr>mp_width := int (length line)\<rparr> else p);
          p2 = p1\<lparr>mp_height := mp_height p1 + 1, mp_lines := mp_lines p1 @ [line]\<rparr>;
          p3 = count_item lk p2
      in add_lines is (next_reading c) (p3\<lparr>mp_styles := mp_styles p3 @ [lk]\<rparr>))"

definition overall_look :: "main_panel \<Rightarrow> look" where
  "overall_look p =
     (if mp_nfailed p > 0 then Error
      else if mp_nstopped p > 0 then Warn
      else if mp_nrunning p > 0 then Good
      else Normal)"

definition show_count :: "nat \<Rightarrow> string" where
  "show_count n = pad_left 6 (dec_of_int (int n))"

definition main_status :: "main_panel \<Rightarrow> string" where
  "main_status p =
     show_count (length (mp_items p)) @ '' Services '' @ show_count (mp_nfailed p) @ '' Faulted '' @
     show_count (mp_nrunning p) @ '' Running '' @ show_count (mp_nstopped p) @ '' Standby '' @
     show_count (mp_ndisabled p) @ '' Disabled''"

definition main_keys :: "item option \<Rightarrow> string list" where
  "main_keys sel =
     [''[Q] Quit'', ''[H] Help''] @
     (case sel of
        None \<Rightarrow> [''[L] Log'']
      | Some (_, i) \<Rightarrow> [''[I] Info'', ''[L] Log''] @ service_keys i)"

text \<open>\<open>update\<close> with what \<open>GetItems\<close> returned: the panel, and whether it asks for a login.\<close>

definition main_update :: "clock \<Rightarrow> item list \<Rightarrow> client_error option \<Rightarrow> main_panel \<Rightarrow> app_call list \<times> main_panel" where
  "main_update c items err p =
     (let p1 = keep_selection (p\<lparr>mp_items := items\<rparr>)
      in case err of
           Some e \<Rightarrow>
             (case e of
                RestFailure er \<Rightarrow>
                  if re_Code er = 401 then ([CallShowAuth], p1)
                  else ([], p1\<lparr>mp_lines := [], mp_styles := [], mp_bars := (mp_bars p1)
                    \<lparr>b_look := Error, b_status := ''Cannot load items: '' @ rest_error_text er\<rparr>\<rparr>)
              | NetFailure m \<Rightarrow>
                  ([], p1\<lparr>mp_lines := [], mp_styles := [], mp_bars := (mp_bars p1)
                    \<lparr>b_look := Error, b_status := ''Cannot load items: '' @ m\<rparr>\<rparr>))
         | None \<Rightarrow>
             let p2 = p1\<lparr>mp_ndisabled := 0, mp_nfailed := 0, mp_nstopped := 0, mp_nrunning := 0,
                        mp_height := 0, mp_width := 0, mp_lines := [], mp_styles := []\<rparr>;
                 p3 = add_lines items c p2
             in ([], p3\<lparr>mp_bars := (mp_bars p3)\<lparr>b_status := main_status p3, b_look := overall_look p3,
                   b_keys := main_keys (mp_selected p3)\<rparr>\<rparr>))"

section \<open>Keys\<close>

text \<open>The call a key makes on the application; \<open>None\<close> when the event goes on to \<open>views.Panel\<close>.\<close>

definition main_key :: "event \<Rightarrow> main_panel \<Rightarrow> app_call option" where
  "main_key ev p =
     (let sel = map_option info_of (mp_selected p) in
      case ev of
        EventKey KeyF1 \<Rightarrow> Some CallShowHelp
      | EventKey KeyEnter \<Rightarrow> map_option (\<lambda>i. CallShowInfo (se_Name i)) sel
      | EventKey (KeyRune r) \<Rightarrow>
          if r \<in> {CHR ''Q'', CHR ''q''} then Some CallQuit
          else if r \<in> {CHR ''H'', CHR ''h''} then Some CallShowHelp
          else if r \<in> {CHR ''I'', CHR ''i''} then map_option (\<lambda>i. CallShowInfo (se_Name i)) sel
          else if r \<in> {CHR ''L'', CHR ''l''} then
            Some (CallShowLog (case sel of None \<Rightarrow> [] | Some i \<Rightarrow> se_Name i))
          else (case sel of
                  None \<Rightarrow> None
                | Some i \<Rightarrow>
                    if r \<in> {CHR ''E'', CHR ''e''} \<and> \<not> se_Enabled i then Some (CallEnable (se_Name i))
                    else if r \<in> {CHR ''D'', CHR ''d''} \<and> se_Enabled i then Some (CallDisable (se_Name i))
                    else if r \<in> {CHR ''C'', CHR ''c''} \<and> se_Failed i then Some (CallClear (se_Name i))
                    else if r \<in> {CHR ''R'', CHR ''r''} then Some (CallRestart (se_Name i))
                    else None)
      | _ \<Rightarrow> None)"

text \<open>The calls made when the panel uses up the event, and the panel afterwards.\<close>

definition main_HandleEvent :: "event \<Rightarrow> main_panel \<Rightarrow> (app_call list option \<times> main_panel) outcome" where
  "main_HandleEvent ev p =
     (if ev = EventKey KeyEsc then bindO (unselect p) (\<lambda>p1. Done (Some [], p1))
      else Done (map_option (\<lambda>a. [a]) (main_key ev p), p))"

section \<open>The list is in step with the items\<close>

definition main_ok :: "main_panel \<Rightarrow> bool" where
  "main_ok p \<longleftrightarrow> length (mp_lines p) = length (mp_items p) \<and> length (mp_styles p) = length (mp_items p) \<and>
     mp_height p = int (length (mp_items p)) \<and> (\<forall>i. mp_selected p = Some i \<longrightarrow> i \<in> set (mp_items p))"

lemma clamp_cursor_frame [simp]:
  "mp_items (clamp_cursor p) = mp_items p" "mp_lines (clamp_cursor p) = mp_lines p"
  "mp_styles (clamp_cursor p) = mp_styles p" "mp_height (clamp_cursor p) = mp_height p"
  "mp_selected (clamp_cursor p) = mp_selected p" "mp_ndisabled (clamp_cursor p) = mp_ndisabled p"
  "mp_nfailed (clamp_cursor p) = mp_nfailed p" "mp_nrunning (clamp_cursor p) = mp_nrunning p"
  "mp_nstopped (clamp_cursor p) = mp_nstopped p"
  by (simp_all add: clamp_cursor_def Let_def)

lemma clamp_cursor_range:
  "0 \<le> mp_cury (clamp_cursor p)" "0 < mp_height p \<Longrightarrow> mp_cury (clamp_cursor p) < mp_height p"
  by (simp_all add: clamp_cursor_def Let_def)

text \<open>What the cursor does not touch.\<close>

definition same_list :: "main_panel \<Rightarrow> main_panel \<Rightarrow> bool" where
  "same_list p q \<longleftrightarrow> mp_items q = mp_items p \<and> mp_lines q = mp_lines p \<and> mp_styles q = mp_styles p \<and>
     mp_height q = mp_height p \<and> mp_ndisabled q = mp_ndisabled p \<and> mp_nfailed q = mp_nfailed p \<and>
     mp_nrunning q = mp_nrunning p \<and> mp_nstopped q = mp_nstopped p"

lemma updateCursor_spec:
  assumes "mp_height p = int (length (mp_items p))"
  shows "returns (updateCursor selected p) (\<lambda>q. same_list p q \<and>
    (\<forall>i. mp_selected q = Some i \<longrightarrow> i \<in> set (mp_items q)) \<and>
    (mp_selected q \<noteq> None \<longleftrightarrow> selected \<and> mp_items p \<noteq> []))"
proof (cases "selected \<and> mp_height p > 0")
  case True
  let ?q = "if mp_selected p = None then (clamp_cursor p)\<lparr>mp_curx := 0, mp_cury := 0\<rparr> else clamp_cursor p"
  have "0 \<le> mp_cury ?q" "mp_cury ?q < int (length (mp_items p))"
    using True clamp_cursor_range [of p] assms by auto
  then obtain i where i: "index_item (mp_items p) (mp_cury ?q) = Done i" "i \<in> set (mp_items p)"
    by (auto simp: index_item_def)
  have "updateCursor selected p = Done (?q\<lparr>mp_selected := Some i\<rparr>)"
    using True i(1) by (auto simp: updateCursor_def Let_def)
  then show ?thesis
    using True i(2) assms by (auto simp: same_list_def)
next
  case False
  then show ?thesis
    using assms by (auto simp: updateCursor_def Let_def same_list_def)
qed

lemma reselect_frame:
  "reselect name is k p = p\<lparr>mp_selected := mp_selected (reselect name is k p), mp_cury := mp_cury (reselect name is k p)\<rparr>"
proof (induction "is" arbitrary: k p)
  case (Cons i "is")
  show ?case
    using Cons.IH [of "k + 1" "if se_Name (info_of i) = name then p\<lparr>mp_selected := Some i, mp_cury := k\<rparr> else p"]
    by (auto split: if_splits)
qed simp

lemma reselect_selected:
  "mp_selected (reselect name is k p) = Some i \<Longrightarrow> mp_selected p = Some i \<or> i \<in> set is \<and> se_Name (info_of i) = name"
  by (induction "is" arbitrary: k p) (fastforce split: if_splits)+

lemma reselect_keeps: "mp_selected p \<noteq> None \<Longrightarrow> mp_selected (reselect name is k p) \<noteq> None"
  by (induction "is" arbitrary: k p) auto

lemma reselect_finds:
  "\<exists>i \<in> set is. se_Name (info_of i) = name \<Longrightarrow> mp_selected (reselect name is k p) \<noteq> None"
proof (induction "is" arbitrary: k p)
  case (Cons i "is")
  show ?case
  proof (cases "se_Name (info_of i) = name")
    case True
    then show ?thesis using reselect_keeps [of "p\<lparr>mp_selected := Some i, mp_cury := k\<rparr>"] by simp
  next
    case False
    then show ?thesis using Cons by simp
  qed
qed simp

lemma keep_selection_frame:
  "keep_selection p = p\<lparr>mp_selected := mp_selected (keep_selection p), mp_cury := mp_cury (keep_selection p)\<rparr>"
proof (cases "mp_selected p")
  case None
  then show ?thesis by (simp add: keep_selection_def)
next
  case (Some sel)
  then show ?thesis
    using reselect_frame [of "se_Name (info_of sel)" "mp_items p" 0 "p\<lparr>mp_selected := None\<rparr>"]
    by (simp add: keep_selection_def)
qed

lemma keep_selection_selected:
  "mp_selected (keep_selection p) = Some i \<Longrightarrow> i \<in> set (mp_items p) \<and>
    (\<exists>sel. mp_selected p = Some sel \<and> se_Name (info_of i) = se_Name (info_of sel))"
  by (auto simp: keep_selection_def split: option.splits dest: reselect_selected)

lemma count_item_frame [simp]:
  "mp_items (count_item lk p) = mp_items p" "mp_lines (count_item lk p) = mp_lines p"
  "mp_styles (count_item lk p) = mp_styles p" "mp_height (count_item lk p) = mp_height p"
  "mp_selected (count_item lk p) = mp_selected p"
  by (simp_all add: count_item_def split: look.split)

lemma add_lines_frame:
  "mp_items (add_lines is c p) = mp_items p" "mp_selected (add_lines is c p) = mp_selected p"
  "length (mp_lines (add_lines is c p)) = length (mp_lines p) + length is"
  "mp_styles (add_lines is c p) = mp_styles p @ map (\<lambda>i. main_look (info_of i)) is"
  "mp_height (add_lines is c p) = mp_height p + int (length is)"
  by (induction "is" c p rule: add_lines.induct) (simp_all add: Let_def)

abbreviation with_look :: "look \<Rightarrow> item list \<Rightarrow> nat" where
  "with_look lk is \<equiv> length (filter (\<lambda>i. main_look (info_of i) = lk) is)"

lemma add_lines_counts:
  "mp_ndisabled (add_lines is c p) = mp_ndisabled p + with_look Normal is"
  "mp_nfailed (add_lines is c p) = mp_nfailed p + with_look Error is"
  "mp_nstopped (add_lines is c p) = mp_nstopped p + with_look Warn is"
  "mp_nrunning (add_lines is c p) = mp_nrunning p + with_look Good is"
  by (induction "is" c p rule: add_lines.induct) (simp_all add: Let_def count_item_def split: look.split)

text \<open>After an update without an error.\<close>

definition counts_ok :: "main_panel \<Rightarrow> bool" where
  "counts_ok p \<longleftrightarrow> mp_ndisabled p = with_look Normal (mp_items p) \<and> mp_nfailed p = with_look Error (mp_items p) \<and>
     mp_nstopped p = with_look Warn (mp_items p) \<and> mp_nrunning p = with_look Good (mp_items p) \<and>
     mp_styles p = map (\<lambda>i. main_look (info_of i)) (mp_items p)"

lemma main_update_ok:
  "main_ok (snd (main_update c items None p)) \<and> counts_ok (snd (main_update c items None p))"
proof -
  let ?p1 = "keep_selection (p\<lparr>mp_items := items\<rparr>)"
  have i: "mp_items ?p1 = items" by (subst keep_selection_frame) simp
  have "\<forall>i. mp_selected ?p1 = Some i \<longrightarrow> i \<in> set items"
    using keep_selection_selected [of "p\<lparr>mp_items := items\<rparr>"] by simp
  then show ?thesis
    by (simp add: main_update_def Let_def main_ok_def counts_ok_def add_lines_frame add_lines_counts i)
qed

text \<open>An update keeps the selection if an item of its name is there, and drops it otherwise.\<close>

lemma main_update_selected:
  "case mp_selected (snd (main_update c items None p)) of
     None \<Rightarrow> \<not> (\<exists>sel i. mp_selected p = Some sel \<and> i \<in> set items \<and> se_Name (info_of i) = se_Name (info_of sel))
   | Some i \<Rightarrow> i \<in> set items \<and> (\<exists>sel. mp_selected p = Some sel \<and> se_Name (info_of i) = se_Name (info_of sel))"
proof -
  let ?p1 = "keep_selection (p\<lparr>mp_items := items\<rparr>)"
  have "mp_selected (snd (main_update c items None p)) = mp_selected ?p1"
    by (simp add: main_update_def Let_def add_lines_frame)
  moreover have "mp_selected ?p1 = None \<Longrightarrow> False" if "mp_selected p = Some sel" "i \<in> set items" "se_Name (info_of i) = se_Name (info_of sel)"
    for sel i
  proof -
    have "\<exists>i \<in> set items. se_Name (info_of i) = se_Name (info_of sel)" using that(2,3) by blast
    from reselect_finds [OF this] show "mp_selected ?p1 = None \<Longrightarrow> False" using that(1) by (simp add: keep_selection_def)
  qed
  ultimately show ?thesis
    using keep_selection_selected [of "p\<lparr>mp_items := items\<rparr>"]
    by (cases "mp_selected ?p1") (simp only: option.case, blast, simp)
qed

text \<open>The panel over time, as long as the items can be loaded.\<close>

inductive main_run :: "main_panel \<Rightarrow> bool" where
  run_new: "main_run (NewMainPanel server)"
| run_update: "main_run p \<Longrightarrow> main_run (snd (main_update c items None p))"
| run_move: "main_run p \<Longrightarrow> MoveCursor x y p = Done q \<Longrightarrow> main_run q"
| run_set: "main_run p \<Longrightarrow> SetCursor x y p = Done q \<Longrightarrow> main_run q"
| run_event: "main_run p \<Longrightarrow> main_HandleEvent ev p = Done (a, q) \<Longrightarrow> main_run q"

lemma same_list_ok:
  "same_list p q \<Longrightarrow> main_ok p \<and> counts_ok p \<Longrightarrow> (\<forall>i. mp_selected q = Some i \<longrightarrow> i \<in> set (mp_items q)) \<Longrightarrow>
    main_ok q \<and> counts_ok q"
  by (simp add: same_list_def main_ok_def counts_ok_def)

lemma updateCursor_ok:
  assumes "updateCursor selected (p\<lparr>mp_curx := x, mp_cury := y\<rparr>) = Done q" and "main_ok p \<and> counts_ok p"
  shows "main_ok q \<and> counts_ok q"
proof -
  let ?p = "p\<lparr>mp_curx := x, mp_cury := y\<rparr>"
  have p: "main_ok ?p \<and> counts_ok ?p" using assms(2) by (simp add: main_ok_def counts_ok_def)
  have "returns (updateCursor selected ?p) (\<lambda>q. same_list ?p q \<and>
      (\<forall>i. mp_selected q = Some i \<longrightarrow> i \<in> set (mp_items q)) \<and> (mp_selected q \<noteq> None \<longleftrightarrow> selected \<and> mp_items ?p \<noteq> []))"
    using p by (intro updateCursor_spec) (simp add: main_ok_def)
  from returns_DoneD [OF this assms(1)] show ?thesis
    using same_list_ok [OF _ p, of q] by blast
qed

lemma main_run_ok: "main_run p \<Longrightarrow> main_ok p \<and> counts_ok p"
proof (induction rule: main_run.induct)
  case (run_new server)
  show ?case by (simp add: main_ok_def counts_ok_def NewMainPanel_def)
next
  case (run_update p c items)
  show ?case by (rule main_update_ok)
next
  case (run_move p x y q)
  then show ?case using updateCursor_ok [where selected = True and p = p] by (simp add: MoveCursor_def)
next
  case (run_set p x y q)
  then show ?case using updateCursor_ok [where selected = True and p = p] by (simp add: SetCursor_def)
next
  case (run_event p ev a q)
  show ?case
  proof (cases "ev = EventKey KeyEsc")
    case True
    have eq: "p\<lparr>mp_cury := 0, mp_curx := 0\<rparr> = p\<lparr>mp_curx := 0, mp_cury := 0\<rparr>" by simp
    obtain r where "unselect p = Done r" "q = r"
      using run_event(2) True by (cases "unselect p") (auto simp: main_HandleEvent_def)
    then show ?thesis using updateCursor_ok [where selected = False and p = p and x = 0 and y = 0] run_event.IH by (simp add: unselect_def eq)
  next
    case False
    then show ?thesis using run_event by (simp add: main_HandleEvent_def)
  qed
qed

lemma GetCell_ok:
  assumes "main_ok p"
  shows "\<exists>ch lk. GetCell x y p = Done (ch, lk, if 0 \<le> y \<and> y < int (length (mp_items p))
    then map_option fst (mp_selected p) = Some (fst (mp_items p ! nat y)) else False)"
  using assms by (auto simp: GetCell_def main_ok_def index_item_def Let_def)

lemma MoveCursor_ok:
  assumes "main_ok p"
  shows "\<exists>q. MoveCursor x y p = Done q" "\<exists>q. SetCursor x y p = Done q" "\<exists>q. unselect p = Done q"
  using updateCursor_spec [of "p\<lparr>mp_curx := mp_curx p + x, mp_cury := mp_cury p + y\<rparr>" True]
    updateCursor_spec [of "p\<lparr>mp_curx := x, mp_cury := y\<rparr>" True]
    updateCursor_spec [of "p\<lparr>mp_cury := 0, mp_curx := 0\<rparr>" False] assms
  by (auto simp: MoveCursor_def SetCursor_def unselect_def main_ok_def returns_iff)

end
