(* ===== verification/Command.thy ===== *)
theory Command
  imports RestClient Flags
begin

text \<open>
  The command line client \<open>govisor/main.go\<close> from its arguments to what it prints and how it ends: flags, the
  certificates it trusts, the user, and the subcommands.  The terminal interface (\<open>doUI\<close>, which never
  returns an error) is one of the ends; files and the address parser are the record \<open>client_env\<close>.
  \<open>clk\<close> is the sequence of readings of the clock, \<open>stamp\<close> and \<open>show_duration\<close> the formats of package \<open>time\<close>.
\<close>

section \<open>Output\<close>

datatype command_exit = Output "string list" | UsageExit | FatalExit string | UserInterface

text \<open>\<open>showStatus\<close> at the time \<open>t\<close>.\<close>

definition whole_seconds :: "duration \<Rightarrow> duration" where
  "whole_seconds d = d - d smod second"

definition showStatus :: "time \<Rightarrow> service_entry \<Rightarrow> string" where
  "showStatus t s =
     pad_right 20 (se_Name s) @ '' '' @ pad_right 10 (entry_status s) @ ''  '' @
     pad_left 10 (FormatDuration (whole_seconds (t - se_TimeStamp s))) @ ''    '' @ se_Status s"

definition error_message :: "client_error \<Rightarrow> string" where
  "error_message e = (case e of RestFailure er \<Rightarrow> rest_error_text er | NetFailure m \<Rightarrow> m)"

text \<open>\<open>fatal\<close>: a message that starts with the digit 4 loses its first four characters.\<close>

definition fatal_text :: "string \<Rightarrow> client_error \<Rightarrow> string" where
  "fatal_text f e =
     (let msg = error_message e
      in f @ '': '' @ (if length msg > 4 \<and> msg ! 0 = CHR ''4'' then drop 4 msg else msg))"

definition show_words :: "string \<Rightarrow> string list \<Rightarrow> string" where
  "show_words label ws = label @ concat (map (\<lambda>p. CHR '' '' # p) ws)"

definition show_info :: "(duration \<Rightarrow> string) \<Rightarrow> time \<Rightarrow> service_entry \<Rightarrow> string list" where
  "show_info show_duration t s =
     [''Name:      '' @ se_Name s, ''Desc:      '' @ se_Description s, ''Status:    '' @ entry_status s,
      ''Since:     '' @ show_duration (t - se_TimeStamp s), ''Detail:    '' @ se_Status s,
      show_words ''Provides: '' (se_Provides s), show_words ''Depends:   '' (se_Depends s),
      show_words ''Conflicts: '' (se_Conflicts s)]"

definition show_record :: "(time \<Rightarrow> string) \<Rightarrow> log_entry \<Rightarrow> string" where
  "show_record stamp r = stamp (le_Time r) @ '' '' @ le_Text r"

section \<open>The subcommands\<close>

text \<open>The loop of \<open>status\<close>: the entries, or the error at which the program ends.\<close>

fun fetch_infos ::
  "('b, 'n) transport \<Rightarrow> 'b decoders \<Rightarrow> (client \<Rightarrow> client) \<Rightarrow> string list \<Rightarrow> service_info option list \<Rightarrow>
   client \<Rightarrow> 'n \<Rightarrow> (client_error + service_info option list) \<times> client \<times> 'n" where
  "fetch_infos T D others [] acc c n = (Inr acc, c, n)"
| "fetch_infos T D others (name # names) acc c n =
     (case GetService T D others name c n of
        (Inl e, c1, n1) \<Rightarrow> (Inl e, c1, n1)
      | (Inr i, c1, n1) \<Rightarrow> fetch_infos T D others names (acc @ [i]) c1 n1)"

text \<open>Sorting and printing follow every pointer, so a nil one ends the program with a panic.\<close>

definition show_infos :: "clock \<Rightarrow> service_info option list \<Rightarrow> command_exit outcome" where
  "show_infos clk infos =
     (if None \<in> set infos then Panic NilDereference
      else
        let es = SortServices (map (\<lambda>i. si_Entry (the i)) infos)
        in Done (Output (map (\<lambda>(k, s). showStatus (clk k) s) (enumerate 0 es))))"

definition status_command ::
  "('b, 'n) transport \<Rightarrow> 'b decoders \<Rightarrow> (client \<Rightarrow> client) \<Rightarrow> clock \<Rightarrow> string list \<Rightarrow>
   client \<Rightarrow> 'n \<Rightarrow> command_exit outcome \<times> client \<times> 'n" where
  "status_command T D others clk args c n =
     (case (if args = [] then client_Services T D others c n else (Inr args, c, n)) of
        (Inl e, c1, n1) \<Rightarrow> (Done (FatalExit (fatal_text ''Error'' e)), c1, n1)
      | (Inr names, c1, n1) \<Rightarrow>
          if names = [] then (Done (Output []), c1, n1)
          else
            (case fetch_infos T D others names [] c1 n1 of
               (Inl e, c2, n2) \<Rightarrow> (Done (FatalExit (fatal_text ''Error'' e)), c2, n2)
             | (Inr infos, c2, n2) \<Rightarrow> (show_infos clk infos, c2, n2)))"

text \<open>The four subcommands that post an action for one service.\<close>

definition post_command ::
  "(string \<Rightarrow> 'n \<Rightarrow> client_error option \<times> 'n) \<Rightarrow> string list \<Rightarrow> client \<Rightarrow> 'n \<Rightarrow>
   command_exit outcome \<times> client \<times> 'n" where
  "post_command act args c n =
     (case args of
        [name] \<Rightarrow>
          (case act name n of
             (Some e, n1) \<Rightarrow> (Done (FatalExit (fatal_text ''Error'' e)), c, n1)
           | (None, n1) \<Rightarrow> (Done (Output []), c, n1))
      | _ \<Rightarrow> (Done UsageExit, c, n))"

definition log_command ::
  "('b, 'n) transport \<Rightarrow> 'b decoders \<Rightarrow> (client \<Rightarrow> client) \<Rightarrow> (time \<Rightarrow> string) \<Rightarrow> string list \<Rightarrow>
   client \<Rightarrow> 'n \<Rightarrow> command_exit outcome \<times> client \<times> 'n" where
  "log_command T D others stamp args c n =
     (let (r, c1, n1) =
        (case args of
           [] \<Rightarrow> client_GetLog T D others [] c n
         | [name] \<Rightarrow> client_GetLog T D others name c n
         | _ \<Rightarrow> (Inr (Some \<lparr>li_Records = [], li_etag = []\<rparr>), c, n))
      in case r of
           Inl e \<Rightarrow> (Done (FatalExit (fatal_text ''Error'' e)), c1, n1)
         | Inr None \<Rightarrow> (Panic NilDereference, c1, n1)
         | Inr (Some i) \<Rightarrow> (Done (Output (map (show_record stamp) (li_Records i))), c1, n1))"

definition run_command ::
  "('b, 'n) transport \<Rightarrow> 'b decoders \<Rightarrow> (client \<Rightarrow> client) \<Rightarrow> clock \<Rightarrow> (time \<Rightarrow> string) \<Rightarrow>
   (duration \<Rightarrow> string) \<Rightarrow> string list \<Rightarrow> client \<Rightarrow> 'n \<Rightarrow> command_exit outcome \<times> client \<times> 'n" where
  "run_command T D others clk stamp show_duration args c n =
     (case args of
        [] \<Rightarrow> (Done UserInterface, c, n)
      | cmd # rest \<Rightarrow>
          if cmd = ''services'' then
            if rest \<noteq> [] then (Done UsageExit, c, n)
            else case client_Services T D others c n of
                   (Inl e, c1, n1) \<Rightarrow> (Done (FatalExit (fatal_text ''Error'' e)), c1, n1)
                 | (Inr s, c1, n1) \<Rightarrow> (Done (Output (sort s)), c1, n1)
          else if cmd = ''enable'' then post_command (client_EnableService T D c) rest c n
          else if cmd = ''disable'' then post_command (client_DisableService T D c) rest c n
          else if cmd = ''restart'' then post_command (client_RestartService T D c) rest c n
          else if cmd = ''clear'' then post_command (client_ClearService T D c) rest c n
          else if cmd = ''log'' then log_command T D others stamp rest c n
          else if cmd = ''info'' then
            (case rest of
               [name] \<Rightarrow>
                 (case GetService T D others name c n of
                    (Inl e, c1, n1) \<Rightarrow> (Done (FatalExit (fatal_text ''Failed'' e)), c1, n1)
                  | (Inr None, c1, n1) \<Rightarrow> (Panic NilDereference, c1, n1)
                  | (Inr (Some i), c1, n1) \<Rightarrow>
                      (Done (Output (show_info show_duration (reading clk) (si_Entry i))), c1, n1))
             | _ \<Rightarrow> (Done UsageExit, c, n))
          else if cmd = ''status'' then status_command T D others clk rest c n
          else if cmd = ''ui'' then (Done UserInterface, c, n)
          else (Done (Output []), c, n))"

section \<open>From the arguments to the subcommand\<close>

record client_options =
  co_addr :: string
  co_user :: string
  co_pass :: string
  co_cafile :: string
  co_capath :: string
  co_logfile :: string
  co_insecure :: bool

definition client_flags :: "string \<Rightarrow> flag_kind option" where
  "client_flags = map_of
     [(''addr'', StringFlag), (''user'', StringFlag), (''pass'', StringFlag), (''cacert'', StringFlag),
      (''capath'', StringFlag), (''debuglog'', StringFlag), (''insecure'', BoolFlag)]"

definition client_settings :: "(string \<times> flag_value) list \<Rightarrow> client_options" where
  "client_settings vs =
     \<lparr>co_addr = string_flag ''addr'' ''http://127.0.0.1:8321'' vs, co_user = string_flag ''user'' [] vs,
      co_pass = string_flag ''pass'' [] vs, co_cafile = string_flag ''cacert'' [] vs,
      co_capath = string_flag ''capath'' [] vs, co_logfile = string_flag ''debuglog'' [] vs,
      co_insecure = bool_flag ''insecure'' False vs\<rparr>"

text \<open>
  What the client asks of the system: to create the debug log, to read a file, the visits of \<open>filepath.Walk\<close> to a directory (an error, or whether
  the path is a directory), and the host of an address.
\<close>

record client_env =
  ce_Create :: "string \<Rightarrow> bool"
  ce_ReadFile :: "string \<Rightarrow> string + string"
  ce_Walk :: "string \<Rightarrow> (string \<times> (string + bool)) list"
  ce_Parse :: "string \<Rightarrow> string + string"

text \<open>A pool of certificates is the list of texts that were added to it.\<close>

definition loadCertFile :: "client_env \<Rightarrow> string \<Rightarrow> string list \<Rightarrow> string option \<times> string list" where
  "loadCertFile ev fname roots =
     (case ce_ReadFile ev fname of
        Inr data \<Rightarrow> (None, roots @ [data])
      | Inl e \<Rightarrow> (Some e, roots))"

fun visit_certs :: "client_env \<Rightarrow> (string \<times> (string + bool)) list \<Rightarrow> string list \<Rightarrow> string option \<times> string list" where
  "visit_certs ev [] roots = (None, roots)"
| "visit_certs ev ((path, Inl e) # rest) roots = (Some e, roots)"
| "visit_certs ev ((path, Inr is_dir) # rest) roots =
     (if \<not> is_dir then
        (case loadCertFile ev path roots of
           (Some e, roots1) \<Rightarrow> (Some e, roots1)
         | (None, roots1) \<Rightarrow> visit_certs ev rest roots1)
      else visit_certs ev rest roots)"

definition loadCertPath :: "client_env \<Rightarrow> string \<Rightarrow> string list \<Rightarrow> string option \<times> string list" where
  "loadCertPath ev dirname roots = visit_certs ev (ce_Walk ev dirname) roots"

text \<open>The pool of the client, \<open>None\<close> for that of the system; or the message with which the program ends.\<close>

definition load_roots :: "client_env \<Rightarrow> client_options \<Rightarrow> string + string list option" where
  "load_roots ev opt =
     (if co_cafile opt = [] \<and> co_capath opt = [] then Inr None
      else case (if co_cafile opt \<noteq> [] then loadCertFile ev (co_cafile opt) [] else (None, [])) of
             (Some e, _) \<Rightarrow> Inl (fatal_text ''Unable to load cert file'' (NetFailure e))
           | (None, roots) \<Rightarrow>
               (case (if co_capath opt \<noteq> [] then loadCertPath ev (co_capath opt) roots else (None, roots)) of
                  (Some e, _) \<Rightarrow> Inl (fatal_text ''Unable to load cert path'' (NetFailure e))
                | (None, roots1) \<Rightarrow> Inr (Some roots1)))"

record tls_config =
  tls_RootCAs :: "string list option"
  tls_ServerName :: string
  tls_InsecureSkipVerify :: bool

definition make_client :: "client_options \<Rightarrow> client" where
  "make_client opt =
     (let client = NewClient (co_addr opt)
      in if co_user opt \<noteq> [] \<or> co_pass opt \<noteq> [] then SetAuth (co_user opt) (co_pass opt) client else client)"

text \<open>The debug log, without which the client works as well.\<close>

definition has_debug_log :: "client_env \<Rightarrow> client_options \<Rightarrow> bool" where
  "has_debug_log ev opt \<longleftrightarrow> (if co_logfile opt \<noteq> [] then ce_Create ev (co_logfile opt) else False)"

text \<open>
  \<open>main\<close>: the network depends on the TLS configuration.  The terminal interface is told whether there is a
  debug log.
\<close>

datatype client_end = RejectedFlags int | CommandEnd command_exit | StartUI bool

definition client_main ::
  "client_env \<Rightarrow> (tls_config \<Rightarrow> ('b, 'n) transport) \<Rightarrow> 'b decoders \<Rightarrow> (client \<Rightarrow> client) \<Rightarrow> clock \<Rightarrow> (time \<Rightarrow> string) \<Rightarrow>
   (duration \<Rightarrow> string) \<Rightarrow> string list \<Rightarrow> 'n \<Rightarrow> client_end outcome \<times> 'n" where
  "client_main ev net D others clk stamp show_duration args n =
     (case parse_flags client_flags args of
        FlagExit k \<Rightarrow> (Done (RejectedFlags k), n)
      | Parsed vs rest \<Rightarrow>
          let opt = client_settings vs in
          (case load_roots ev opt of
             Inl msg \<Rightarrow> (Done (CommandEnd (FatalExit msg)), n)
           | Inr roots \<Rightarrow>
               (case ce_Parse ev (co_addr opt) of
                  Inl e \<Rightarrow> (Done (CommandEnd (FatalExit (fatal_text ''Bad address'' (NetFailure e)))), n)
                | Inr host \<Rightarrow>
                    let tcfg = \<lparr>tls_RootCAs = roots, tls_ServerName = host, tls_InsecureSkipVerify = co_insecure opt\<rparr>;
                        (r, c, n1) = run_command (net tcfg) D others clk stamp show_duration rest (make_client opt) n
                    in (bindO r (\<lambda>x. Done (if x = UserInterface then StartUI (has_debug_log ev opt) else CommandEnd x)), n1))))"

section \<open>Lemmas\<close>

lemma fetch_infos_length:
  "fetch_infos T D others names acc c n = (Inr infos, c', n') \<Longrightarrow> length infos = length acc + length names"
  by (induction T D others names acc c n rule: fetch_infos.induct) (auto split: prod.splits sum.splits)

text \<open>\<open>GetService\<close> never asks for a condition, so a server that sends ETags gives a new entry.\<close>

lemma GetService_fresh:
  assumes "GetService T D others name c n = (Inr i, c', n')"
    and "\<And>a n'. T (poll_call c (client_url c name) [] 0) n = (Inr a, n') \<Longrightarrow> ha_StatusCode a \<noteq> 304 \<and> ha_Etag a \<noteq> []"
  shows "\<exists>info. i = Some info \<and> rc_services c' name = Some info"
  using assms by (auto simp: GetService_def pollService_def poll_def Let_def
      split: prod.splits sum.splits option.splits if_splits net_error.splits)

end
