(* ===== verification/App.thy ===== *)
theory App
  imports MainPanel Command
begin

text \<open>
  The application of the terminal interface (\<open>govisor/ui/app.go\<close>): the panels and the one that is
  shown, the items and the log that goroutines fetch from the server and post to it, and the
  events.  Functions given to \<open>PostFunc\<close> run one after the other on the application's goroutine, some
  time later; the panels that were asked for and are not shown yet wait in \<open>a_posted\<close>.
\<close>

section \<open>State\<close>

datatype screen = ScreenMain | ScreenInfo | ScreenLog | ScreenHelp | ScreenAuth

record app =
  a_view :: "nat option"                            \<comment> \<open>the view it was given, \<open>None\<close> for nil\<close>
  a_views :: "screen \<Rightarrow> nat option"               \<comment> \<open>the view of each panel\<close>
  a_panel :: screen
  a_posted :: "screen list"
  a_main :: main_panel
  a_info :: info_panel
  a_log :: log_panel
  a_help :: help_panel
  a_auth :: auth_panel
  a_items :: "item list"
  a_err :: "(nat \<times> client_error) option"         \<comment> \<open>the pointer and the error\<close>
  a_logName :: string
  a_logInfo :: "log_info option"
  a_logErr :: "(nat \<times> client_error) option"
  a_logCtx :: nat                                   \<comment> \<open>the context that is not cancelled\<close>

definition NewApp :: "(time \<Rightarrow> string) \<Rightarrow> string \<Rightarrow> app" where
  "NewApp stamp url =
     \<lparr>a_view = None, a_views = (\<lambda>_. None), a_panel = ScreenMain, a_posted = [], a_main = NewMainPanel url, a_info = NewInfoPanel, a_log = NewLogPanel stamp,
      a_help = NewHelpPanel, a_auth = NewAuthPanel url,
      a_items = [], a_err = None, a_logName = [], a_logInfo = None, a_logErr = None, a_logCtx = 0\<rparr>"

section \<open>What the panels ask\<close>

definition GetItems :: "app \<Rightarrow> item list \<times> client_error option" where
  "GetItems a = (a_items a, map_option snd (a_err a))"

definition GetItem :: "string \<Rightarrow> app \<Rightarrow> item option \<times> item_error option" where
  "GetItem name a =
     (case a_err a of
        Some (p, e) \<Rightarrow> (None, Some (AppError p e))
      | None \<Rightarrow>
          (case find (\<lambda>i. se_Name (info_of i) = name) (a_items a) of
             Some i \<Rightarrow> (Some i, None)
           | None \<Rightarrow> (None, Some NotFound)))"

definition app_GetLog :: "string \<Rightarrow> app \<Rightarrow> log_info option \<times> item_error option" where
  "app_GetLog name a =
     (if a_logName a = name then (a_logInfo a, map_option (\<lambda>(p, e). AppError p e) (a_logErr a))
      else (None, None))"

section \<open>Calls\<close>

text \<open>\<open>SetView\<close>: the shown panel draws into the view of the application.\<close>

definition app_SetView :: "nat option \<Rightarrow> app \<Rightarrow> app" where
  "app_SetView v a = a\<lparr>a_view := v, a_views := (a_views a)(a_panel a := v)\<rparr>"

text \<open>\<open>show\<close> posts the change of the panel; \<open>show_posted\<close> is the function posted, for one that is waiting.\<close>

definition app_show :: "screen \<Rightarrow> app \<Rightarrow> app" where
  "app_show s a = a\<lparr>a_posted := a_posted a @ [s]\<rparr>"

definition show_posted :: "screen \<Rightarrow> app \<Rightarrow> app" where
  "show_posted s a =
     (let a1 = (if s \<noteq> a_panel a
                then a\<lparr>a_views := (a_views a)(a_panel a := None), a_panel := s\<rparr> else a)
      in a1\<lparr>a_views := (a_views a1)(a_panel a1 := a_view a1), a_posted := remove1 s (a_posted a1)\<rparr>)"

definition ShowInfo :: "string \<Rightarrow> app \<Rightarrow> app" where
  "ShowInfo name a = app_show ScreenInfo (a\<lparr>a_info := info_SetName name (a_info a)\<rparr>)"

text \<open>The context of the log shown before is cancelled, that is, it is no longer \<open>a_logCtx\<close>.\<close>

definition ShowLog :: "string \<Rightarrow> app \<Rightarrow> app" where
  "ShowLog name a = app_show ScreenLog
     (a\<lparr>a_logInfo := None, a_logName := name, a_logCtx := a_logCtx a + 1, a_log := log_SetName name (a_log a)\<rparr>)"

definition ShowAuth :: "app \<Rightarrow> app" where
  "ShowAuth a = app_show ScreenAuth (a\<lparr>a_auth := ResetFields (a_auth a)\<rparr>)"

text \<open>
  What a call does to the application.  \<open>Quit\<close> and \<open>Refresh\<close> go to the library; what a call does to
  the client is below.
\<close>

definition do_call :: "app_call \<Rightarrow> app \<Rightarrow> app" where
  "do_call c a =
     (case c of
        CallShowHelp \<Rightarrow> app_show ScreenHelp a
      | CallShowInfo name \<Rightarrow> ShowInfo name a
      | CallShowLog name \<Rightarrow> ShowLog name a
      | CallShowMain \<Rightarrow> app_show ScreenMain a
      | CallShowAuth \<Rightarrow> ShowAuth a
      | CallLogin user pass \<Rightarrow> a\<lparr>a_items := [], a_err := None\<rparr>
      | _ \<Rightarrow> a)"

text \<open>What a call does to the client and the server; the error of a request is not looked at.\<close>

definition client_call ::
  "('b, 'n) transport \<Rightarrow> 'b decoders \<Rightarrow> app_call \<Rightarrow> client \<Rightarrow> 'n \<Rightarrow> client \<times> 'n" where
  "client_call T D call c n =
     (case call of
        CallEnable name \<Rightarrow> (c, snd (client_EnableService T D c name n))
      | CallDisable name \<Rightarrow> (c, snd (client_DisableService T D c name n))
      | CallClear name \<Rightarrow> (c, snd (client_ClearService T D c name n))
      | CallRestart name \<Rightarrow> (c, snd (client_RestartService T D c name n))
      | CallLogin user pass \<Rightarrow> (SetAuth user pass c, n)
      | _ \<Rightarrow> (c, n))"

text \<open>\<open>Run\<close> asks for the main panel before the loop of the library begins.\<close>

definition app_Run :: "app \<Rightarrow> app" where
  "app_Run a = app_show ScreenMain a"

text \<open>
  \<open>SetLogger\<close> and \<open>Logf\<close>: the lines they add to the debug log, if there is one; and \<open>doUI\<close> of
  \<open>govisor/ui.go\<close> up to the loop of the library, with the lines of the debug log.
\<close>

definition app_SetLogger :: "bool \<Rightarrow> string list" where
  "app_SetLogger logger = (if logger then [''Start logger''] else [])"

definition app_Logf :: "bool \<Rightarrow> string \<Rightarrow> string list" where
  "app_Logf logger msg = (if logger then [msg] else [])"

definition doUI :: "(time \<Rightarrow> string) \<Rightarrow> string \<Rightarrow> bool \<Rightarrow> app \<times> string list" where
  "doUI stamp url logger =
     (let app = NewApp stamp url
      in (app_Run app, app_SetLogger logger @ app_Logf logger ''Starting up user interface'' @
           app_Logf logger ''Starting app loop''))"

text \<open>What goroutines post: the items, and the log if it is still the one asked for.\<close>

definition post_items :: "item list \<Rightarrow> (nat \<times> client_error) option \<Rightarrow> app \<Rightarrow> app" where
  "post_items items e a = a\<lparr>a_items := items, a_err := e\<rparr>"

definition post_log :: "string \<Rightarrow> log_info option \<Rightarrow> (nat \<times> client_error) option \<Rightarrow> app \<Rightarrow> app" where
  "post_log name info e a = (if a_logName a = name then a\<lparr>a_logInfo := info, a_logErr := e\<rparr> else a)"

section \<open>Drawing and events\<close>

text \<open>\<open>Draw\<close>: the panel that is shown updates itself.\<close>

definition app_Draw :: "(time \<Rightarrow> string) \<Rightarrow> (time \<Rightarrow> string) \<Rightarrow> clock \<Rightarrow> app \<Rightarrow> app" where
  "app_Draw show_time stamp c a =
     (case a_panel a of
        ScreenMain \<Rightarrow>
          let (items, err) = GetItems a; (calls, p) = main_update c items err (a_main a)
          in fold do_call calls (a\<lparr>a_main := p\<rparr>)
      | ScreenInfo \<Rightarrow> a\<lparr>a_info := info_update show_time (GetItem (ip_name (a_info a)) a) (a_info a)\<rparr>
      | ScreenLog \<Rightarrow>
          a\<lparr>a_log := log_update stamp (GetItem (lp_name (a_log a)) a) (app_GetLog (lp_name (a_log a)) a) (a_log a)\<rparr>
      | ScreenHelp \<Rightarrow> a\<lparr>a_help := help_update (a_help a)\<rparr>
      | ScreenAuth \<Rightarrow> a\<lparr>a_auth := auth_update (a_auth a)\<rparr>)"

text \<open>The result (\<open>None\<close>: what the library says), the calls, and the application afterwards.\<close>

definition panel_event :: "event \<Rightarrow> app \<Rightarrow> (bool option \<times> app_call list \<times> app) outcome" where
  "panel_event ev a =
     (case a_panel a of
        ScreenMain \<Rightarrow>
          bindO (main_HandleEvent ev (a_main a)) (\<lambda>(r, p).
          Done (map_option (\<lambda>_. True) r, (case r of None \<Rightarrow> [] | Some cs \<Rightarrow> cs), a\<lparr>a_main := p\<rparr>))
      | ScreenInfo \<Rightarrow>
          (case info_HandleEvent ev (a_info a) of None \<Rightarrow> Done (None, [], a) | Some c \<Rightarrow> Done (Some True, [c], a))
      | ScreenLog \<Rightarrow>
          (case log_HandleEvent ev (a_log a) of None \<Rightarrow> Done (None, [], a) | Some c \<Rightarrow> Done (Some True, [c], a))
      | ScreenHelp \<Rightarrow>
          (case help_HandleEvent ev of None \<Rightarrow> Done (None, [], a) | Some c \<Rightarrow> Done (Some True, [c], a))
      | ScreenAuth \<Rightarrow>
          (case auth_HandleEvent ev (a_auth a) of (r, cs, p) \<Rightarrow> Done (r, cs, a\<lparr>a_auth := p\<rparr>)))"

definition app_HandleEvent :: "event \<Rightarrow> app \<Rightarrow> (bool option \<times> app_call list \<times> app) outcome" where
  "app_HandleEvent ev a =
     (if ev = EventKey KeyCtrlC then Done (Some True, [CallQuit], a)
      else if ev = EventKey KeyCtrlL then Done (Some True, [CallRefresh], a)
      else bindO (panel_event ev a) (\<lambda>(r, cs, a1). Done (r, cs, fold do_call cs a1)))"

section \<open>The goroutine that keeps the items current\<close>

fun get_each ::
  "('b, 'n) transport \<Rightarrow> 'b decoders \<Rightarrow> (client \<Rightarrow> client) \<Rightarrow> string list \<Rightarrow> service_info option list \<Rightarrow>
   client \<Rightarrow> 'n \<Rightarrow> service_info option list \<times> client \<times> 'n" where
  "get_each T D others [] acc c n = (acc, c, n)"
| "get_each T D others (name # names) acc c n =
     (case GetService T D others name c n of
        (Inl e, c1, n1) \<Rightarrow> get_each T D others names acc c1 n1
      | (Inr i, c1, n1) \<Rightarrow> get_each T D others names (acc @ [i]) c1 n1)"

text \<open>\<open>SortServices\<close> on pointers: two or more of them are compared, and a nil one is a panic.\<close>

fun insert_info :: "service_info \<Rightarrow> service_info list \<Rightarrow> service_info list" where
  "insert_info a [] = [a]"
| "insert_info a (b # bs) =
     (if Less (si_Entry b) (si_Entry a) then b # insert_info a bs else a # b # bs)"

definition sort_pointers :: "service_info option list \<Rightarrow> service_info option list outcome" where
  "sort_pointers is =
     (if length is < 2 then Done is
      else if None \<in> set is then Panic NilDereference
      else Done (map Some (foldr insert_info (map the is) [])))"

definition getItems ::
  "('b, 'n) transport \<Rightarrow> 'b decoders \<Rightarrow> (client \<Rightarrow> client) \<Rightarrow> client \<Rightarrow> 'n \<Rightarrow>
   (client_error + service_info option list) outcome \<times> client \<times> 'n" where
  "getItems T D others c n =
     (case client_Services T D others c n of
        (Inl e, c1, n1) \<Rightarrow> (Done (Inl e), c1, n1)
      | (Inr names, c1, n1) \<Rightarrow>
          (case get_each T D others names [] c1 n1 of
             (is, c2, n2) \<Rightarrow> (bindO (sort_pointers is) (\<lambda>is. Done (Inr is)), c2, n2)))"

text \<open>
  One round of \<open>refresh\<close>: what is posted, the ETag for the next round, and whether the goroutine
  waits (for two seconds or a login) before it.
\<close>

definition refresh_round ::
  "('b, 'n) transport \<Rightarrow> 'b decoders \<Rightarrow> (client \<Rightarrow> client) \<Rightarrow> string \<Rightarrow> client \<Rightarrow> 'n \<Rightarrow>
   (client_error + service_info option list) outcome \<times> string \<times> bool \<times> client \<times> 'n" where
  "refresh_round T D others etag c n =
     (case getItems T D others c n of
        (posted, c1, n1) \<Rightarrow>
          (case client_Watch T D others etag c1 n1 of
             (Inl e, c2, n2) \<Rightarrow> (posted, [], True, c2, n2)
           | (Inr tag, c2, n2) \<Rightarrow> (posted, tag, False, c2, n2)))"

section \<open>The goroutine that keeps the log current\<close>

text \<open>
  \<open>refreshLog\<close>: first the log as it is; then, after each posting (with \<open>post_log\<close>), the end if the
  context was cancelled, or the next log or error to post, and whether the goroutine waits (for
  two seconds, a login or the end of the context) before it posts it.
\<close>

definition log_reply :: "client_error + log_info option \<Rightarrow> log_info option \<times> client_error option" where
  "log_reply r = (case r of Inl e \<Rightarrow> (None, Some e) | Inr i \<Rightarrow> (i, None))"

definition refreshLog_start ::
  "('b, 'n) transport \<Rightarrow> 'b decoders \<Rightarrow> (client \<Rightarrow> client) \<Rightarrow> string \<Rightarrow> client \<Rightarrow> 'n \<Rightarrow>
   (log_info option \<times> client_error option) \<times> client \<times> 'n" where
  "refreshLog_start T D others name c n =
     (case client_GetLog T D others name c n of (r, c1, n1) \<Rightarrow> (log_reply r, c1, n1))"

definition refreshLog_round ::
  "('b, 'n) transport \<Rightarrow> 'b decoders \<Rightarrow> (client \<Rightarrow> client) \<Rightarrow> string \<Rightarrow> bool \<Rightarrow> log_info option \<Rightarrow>
   client \<Rightarrow> 'n \<Rightarrow> ((log_info option \<times> client_error option) \<times> bool \<times> client \<times> 'n) option" where
  "refreshLog_round T D others name cancelled info c n =
     (if cancelled then None
      else
        case client_WatchLog T D others name info c n of
          (r, c1, n1) \<Rightarrow> Some (log_reply r, snd (log_reply r) \<noteq> None, c1, n1))"

section \<open>Keys that are offered work\<close>

text \<open>The key that a word of the key bar names.\<close>

definition key_event :: "string \<Rightarrow> event" where
  "key_event w = EventKey (if w \<in> {''[ESC] Main'', ''[ESC] Quit''} then KeyEsc else KeyRune (w ! 1))"

definition shown_keys :: "app \<Rightarrow> string list" where
  "shown_keys a =
     (case a_panel a of
        ScreenMain \<Rightarrow> b_keys (mp_bars (a_main a))
      | ScreenInfo \<Rightarrow> b_keys (ip_bars (a_info a))
      | ScreenLog \<Rightarrow> b_keys (lp_bars (a_log a))
      | ScreenHelp \<Rightarrow> b_keys (hp_bars (a_help a))
      | ScreenAuth \<Rightarrow> b_keys (ap_bars (a_auth a)))"

definition info_keys :: "item option \<Rightarrow> string list" where
  "info_keys info = [''[ESC] Main'', ''[H] Help''] @ (case info of None \<Rightarrow> [] | Some (_, i) \<Rightarrow> [''[L] Log''] @ service_keys i)"

definition info_keys_ok :: "info_panel \<Rightarrow> bool" where
  "info_keys_ok p \<longleftrightarrow> (b_keys (ip_bars p) = [''[Q] Quit'', ''[H] Help''] \<and> ip_info p = None \<and> ip_err p = None) \<or>
     b_keys (ip_bars p) = info_keys (ip_info p)"

lemma info_update_keys: "info_keys_ok p \<Longrightarrow> info_keys_ok (info_update show_time got p)"
  by (auto simp: info_keys_ok_def info_update_def info_keys_def Let_def split: prod.split option.split)

lemma key_events:
  "key_event ''[ESC] Main'' = EventKey KeyEsc" "key_event ''[H] Help'' = EventKey (KeyRune (CHR ''H''))"
  "key_event ''[Q] Quit'' = EventKey (KeyRune (CHR ''Q''))" "key_event ''[L] Log'' = EventKey (KeyRune (CHR ''L''))"
  "key_event ''[I] Info'' = EventKey (KeyRune (CHR ''I''))" "key_event ''[E] Enable'' = EventKey (KeyRune (CHR ''E''))"
  "key_event ''[D] Disable'' = EventKey (KeyRune (CHR ''D''))" "key_event ''[C] Clear'' = EventKey (KeyRune (CHR ''C''))"
  "key_event ''[R] Restart'' = EventKey (KeyRune (CHR ''R''))"
  by (simp_all add: key_event_def)

lemma in_service_keys:
  "w \<in> set (service_keys i) \<longleftrightarrow> (if se_Enabled i
     then w = ''[D] Disable'' \<or> w = ''[C] Clear'' \<and> se_Failed i \<or> w = ''[R] Restart''
     else w = ''[E] Enable'')"
  unfolding service_keys_def by (cases "se_Enabled i"; cases "se_Failed i"; simp only: simp_thms if_True if_False
      set_append list.set insert_iff empty_iff Un_iff)

lemma in_main_keys:
  "w \<in> set (main_keys sel) \<longleftrightarrow> w = ''[Q] Quit'' \<or> w = ''[H] Help'' \<or> w = ''[L] Log'' \<or>
     (\<exists>n i. sel = Some (n, i) \<and> (w = ''[I] Info'' \<or> w \<in> set (service_keys i)))"
proof (cases sel)
  case None
  then show ?thesis
    by (simp only: main_keys_def option.case set_append list.set insert_iff empty_iff Un_iff option.distinct simp_thms
        disj_assoc)
next
  case (Some x)
  obtain n i where "x = (n, i)" by (cases x)
  with Some show ?thesis
    by (simp only: main_keys_def option.case prod.case set_append list.set insert_iff empty_iff Un_iff
        option.inject prod.inject) blast
qed

lemma in_info_keys:
  "w \<in> set (info_keys sel) \<longleftrightarrow> w = ''[ESC] Main'' \<or> w = ''[H] Help'' \<or>
     (\<exists>n i. sel = Some (n, i) \<and> (w = ''[L] Log'' \<or> w \<in> set (service_keys i)))"
proof (cases sel)
  case None
  then show ?thesis
    by (simp only: info_keys_def option.case set_append list.set insert_iff empty_iff Un_iff option.distinct simp_thms
        disj_assoc)
next
  case (Some x)
  obtain n i where "x = (n, i)" by (cases x)
  with Some show ?thesis
    by (simp only: info_keys_def option.case prod.case set_append list.set insert_iff empty_iff Un_iff
        option.inject prod.inject) blast
qed

text \<open>A word that \<open>service_keys\<close> offers names one of four keys, and the state allows it.\<close>

lemma service_keys_cases:
  assumes "w \<in> set (service_keys i)"
  obtains "key_event w = EventKey (KeyRune (CHR ''E''))" "\<not> se_Enabled i"
    | "key_event w = EventKey (KeyRune (CHR ''D''))" "se_Enabled i"
    | "key_event w = EventKey (KeyRune (CHR ''C''))" "se_Failed i"
    | "key_event w = EventKey (KeyRune (CHR ''R''))"
  using assms that key_events(6-9) unfolding in_service_keys by (metis (no_types))

lemma info_keys_handled:
  assumes "info_keys_ok p" and "w \<in> set (b_keys (ip_bars p))"
  shows "info_HandleEvent (key_event w) p \<noteq> None"
proof -
  have "w = ''[Q] Quit'' \<or> w = ''[H] Help'' \<or> w = ''[ESC] Main'' \<or>
      (\<exists>n i. ip_info p = Some (n, i) \<and> (w = ''[L] Log'' \<or> w \<in> set (service_keys i)))"
    using assms(1) unfolding info_keys_ok_def
  proof (elim disjE conjE)
    assume "b_keys (ip_bars p) = [''[Q] Quit'', ''[H] Help'']"
    with assms(2) show ?thesis by (simp only: list.set insert_iff empty_iff) blast
  next
    assume "b_keys (ip_bars p) = info_keys (ip_info p)"
    with assms(2) show ?thesis by (simp only: in_info_keys) blast
  qed
  moreover have "info_HandleEvent (key_event w) p \<noteq> None"
    if "ip_info p = Some (n, i)" "w \<in> set (service_keys i)" for n i
    by (rule service_keys_cases [OF that(2)])
      (simp_all add: that(1) info_HandleEvent_def service_key_def)
  ultimately show ?thesis
    by (elim disjE exE conjE) (simp_all add: key_events info_HandleEvent_def)
qed

lemma log_keys_handled:
  assumes "w \<in> set (b_keys (lp_bars (log_update stamp got got_log p)))"
  shows "log_HandleEvent (key_event w) (log_update stamp got got_log p) \<noteq> None"
proof -
  let ?q = "log_update stamp got got_log p"
  have "w = ''[H] Help'' \<or> w = ''[ESC] Main'' \<or>
      (\<exists>n i. lp_info ?q = Some (n, i) \<and> (w = ''[I] Info'' \<or> w \<in> set (service_keys i)))"
    using assms by (auto simp: log_update_def Let_def split: prod.splits option.splits)
  moreover have "log_HandleEvent (key_event w) ?q \<noteq> None"
    if "lp_info ?q = Some (n, i)" "w \<in> set (service_keys i)" for n i
    by (rule service_keys_cases [OF that(2)])
      (simp_all add: that(1) log_HandleEvent_def service_key_def)
  ultimately show ?thesis
    by (elim disjE exE conjE) (simp_all add: key_events log_HandleEvent_def)
qed

lemma main_keys_handled:
  assumes "w \<in> set (main_keys (mp_selected p))"
  shows "main_key (key_event w) p \<noteq> None \<and> key_event w \<noteq> EventKey KeyEsc"
proof -
  have "w = ''[Q] Quit'' \<or> w = ''[H] Help'' \<or> w = ''[L] Log'' \<or>
      (\<exists>n i. mp_selected p = Some (n, i) \<and> (w = ''[I] Info'' \<or> w \<in> set (service_keys i)))"
    using assms by (simp only: in_main_keys)
  moreover have "main_key (key_event w) p \<noteq> None \<and> key_event w \<noteq> EventKey KeyEsc"
    if "mp_selected p = Some (n, i)" "w \<in> set (service_keys i)" for n i
    by (rule service_keys_cases [OF that(2)]) (simp_all add: that(1) main_key_def)
  ultimately show ?thesis
    by (elim disjE exE conjE) (simp_all add: key_events main_key_def Let_def)
qed

lemma main_update_keys:
  "b_keys (mp_bars (snd (main_update c items None p))) = main_keys (mp_selected (snd (main_update c items None p)))"
  by (simp add: main_update_def Let_def)

text \<open>The application over time.\<close>

inductive app_run :: "(time \<Rightarrow> string) \<Rightarrow> (time \<Rightarrow> string) \<Rightarrow> app \<Rightarrow> bool" for show_time stamp where
  app_new: "app_run show_time stamp (fst (doUI stamp url logger))"
| app_event: "app_run show_time stamp a \<Longrightarrow> app_HandleEvent ev a = Done (r, cs, a') \<Longrightarrow> app_run show_time stamp a'"
| app_draw: "app_run show_time stamp a \<Longrightarrow> app_run show_time stamp (app_Draw show_time stamp c a)"
| app_view: "app_run show_time stamp a \<Longrightarrow> app_run show_time stamp (app_SetView v a)"
| app_posted: "app_run show_time stamp a \<Longrightarrow> s \<in> set (a_posted a) \<Longrightarrow> app_run show_time stamp (show_posted s a)"
| app_items: "app_run show_time stamp a \<Longrightarrow> app_run show_time stamp (post_items items e a)"
| app_log: "app_run show_time stamp a \<Longrightarrow> app_run show_time stamp (post_log name info e a)"

text \<open>
  What is true at the start and kept by the steps of the panels, by their calls and by what is posted is true
  whenever the application waits.
\<close>

lemma app_run_invariant [consumes 1, case_names new main details log helped auth typed call view posted items log_posted]:
  assumes "app_run show_time stamp a"
    and new: "\<And>url logger. P (fst (doUI stamp url logger))"
    and main: "\<And>a p. P a \<Longrightarrow> P (a\<lparr>a_main := p\<rparr>)"
    and details: "\<And>a got. P a \<Longrightarrow> P (a\<lparr>a_info := info_update show_time got (a_info a)\<rparr>)"
    and log: "\<And>a got got_log. P a \<Longrightarrow> P (a\<lparr>a_log := log_update stamp got got_log (a_log a)\<rparr>)"
    and helped: "\<And>a. P a \<Longrightarrow> P (a\<lparr>a_help := help_update (a_help a)\<rparr>)"
    and auth: "\<And>a. P a \<Longrightarrow> P (a\<lparr>a_auth := auth_update (a_auth a)\<rparr>)"
    and typed: "\<And>a ev. P a \<Longrightarrow> P (a\<lparr>a_auth := snd (snd (auth_HandleEvent ev (a_auth a)))\<rparr>)"
    and call: "\<And>a c. P a \<Longrightarrow> P (do_call c a)"
    and view: "\<And>a v. P a \<Longrightarrow> P (app_SetView v a)"
    and posted: "\<And>a s. P a \<Longrightarrow> P (show_posted s a)"
    and items: "\<And>a items e. P a \<Longrightarrow> P (post_items items e a)"
    and log_posted: "\<And>a name i e. P a \<Longrightarrow> P (post_log name i e a)"
  shows "P a"
proof -
  have calls: "P a \<Longrightarrow> P (fold do_call cs a)" for cs a
    by (induction cs arbitrary: a) (simp_all add: call)
  have event: "P a'" if "P a" "panel_event ev a = Done (r, cs, a')" for a ev r cs a'
    using that(2) main [OF that(1)] typed [OF that(1), of ev] that(1)
    by (cases "a_panel a"; cases "main_HandleEvent ev (a_main a)")
      (auto simp: panel_event_def split: option.splits prod.splits)
  from assms(1) show ?thesis
  proof (induction rule: app_run.induct)
    case (app_event a ev r cs a')
    then show ?case
      using event [OF app_event.IH] by (cases "panel_event ev a") (auto simp: app_HandleEvent_def calls split: if_splits)
  next
    case (app_draw a c)
    then show ?case
      by (auto simp: app_Draw_def calls main details log helped auth split: screen.split prod.split)
  qed (simp_all add: new view posted items log_posted)
qed

lemma do_call_info:
  "b_keys (ip_bars (a_info (do_call c a))) = b_keys (ip_bars (a_info a))"
  "ip_info (a_info (do_call c a)) = ip_info (a_info a)"
  "ip_err (a_info (do_call c a)) = ip_err (a_info a)"
  by (simp_all add: do_call_def app_show_def ShowInfo_def ShowLog_def ShowAuth_def info_SetName_def split: app_call.split)

lemma do_calls_keys: "info_keys_ok (a_info (fold do_call cs a)) \<longleftrightarrow> info_keys_ok (a_info a)"
  by (induction cs arbitrary: a) (simp_all add: info_keys_ok_def do_call_info)

lemmas new_app_defs = doUI_def app_Run_def app_show_def NewApp_def Let_def

lemmas posted_defs = post_items_def post_log_def show_posted_def app_SetView_def Let_def

lemma app_run_info_keys: "app_run show_time stamp a \<Longrightarrow> info_keys_ok (a_info a)"
proof (induction rule: app_run_invariant)
  case (new url logger)
  show ?case by (simp add: new_app_defs NewInfoPanel_def info_keys_ok_def)
next
  case (call a c)
  then show ?case using do_calls_keys [of "[c]" a] by simp
qed (simp_all add: info_update_keys posted_defs)

text \<open>The login form offers one key.\<close>

lemma auth_events_keys: "ap_bars (snd (snd (auth_HandleEvent ev p))) = ap_bars p"
  by (cases ev) (auto simp: auth_HandleEvent_def edit_field_def split: key.split)

lemma app_run_auth_keys: "app_run show_time stamp a \<Longrightarrow> b_keys (ap_bars (a_auth a)) = [''[ESC] Quit'']"
proof (induction rule: app_run_invariant)
  case (call a c)
  then show ?case
    by (simp add: do_call_def app_show_def ShowInfo_def ShowLog_def ShowAuth_def ResetFields_def split: app_call.split)
qed (simp_all add: new_app_defs NewAuthPanel_def auth_events_keys auth_update_def case_prod_beta posted_defs)

text \<open>What is typed is bounded, and what stands in the fields on the screen does not give the password away.\<close>

definition form_ok :: "auth_panel \<Rightarrow> bool" where
  "form_ok p \<longleftrightarrow> length (ap_username p) \<le> 256 \<and> length (ap_password p) \<le> 256 \<and>
     length (ap_ufield p) = 16 \<and> length (ap_pfield p) = 16 \<and>
     set (ap_pfield p) \<subseteq> {CHR ''*'', CHR ''_'', CHR ''<'', CHR '' ''}"

lemma edit_field_ok: "form_ok p \<Longrightarrow> (\<And>s. length s \<le> 256 \<Longrightarrow> length (f s) \<le> 256) \<Longrightarrow> form_ok (edit_field f p)"
  by (simp add: edit_field_def form_ok_def)

lemma auth_event_ok: "form_ok p \<Longrightarrow> form_ok (snd (snd (auth_HandleEvent ev p)))"
  using edit_field_ok [of p "\<lambda>_. []"] edit_field_ok [of p butlast]
    edit_field_ok [of p "\<lambda>s. if length s < 256 then s @ [r] else s" for r]
  by (cases ev) (simp_all add: auth_HandleEvent_def form_ok_def split: key.split)

lemma auth_update_ok: "form_ok p \<Longrightarrow> form_ok (auth_update p)"
  using set_fit_field [of "map (\<lambda>_. CHR ''*'') (ap_password p)"] set_fit_field [of "map (\<lambda>_. CHR ''*'') (ap_password p) @ ''_''"]
  by (auto simp: form_ok_def auth_update_def auth_fields_def Let_def length_fit_field)

lemma app_run_form_ok: "app_run show_time stamp a \<Longrightarrow> form_ok (a_auth a)"
proof (induction rule: app_run_invariant)
  case (new url logger)
  show ?case by (simp add: new_app_defs NewAuthPanel_def form_ok_def)
next
  case (call a c)
  then show ?case
    by (simp add: do_call_def app_show_def ShowInfo_def ShowLog_def ShowAuth_def ResetFields_def form_ok_def split: app_call.split)
qed (simp_all add: auth_event_ok auth_update_ok posted_defs)

text \<open>Only the panel that is shown has a view.\<close>

lemma app_run_views: "app_run show_time stamp a \<Longrightarrow> a_views a = (\<lambda>s. if s = a_panel a then a_view a else None)"
proof (induction rule: app_run_invariant)
  case (call a c)
  have "a_views (do_call c a) = a_views a \<and> a_panel (do_call c a) = a_panel a \<and> a_view (do_call c a) = a_view a"
    by (simp add: do_call_def app_show_def ShowInfo_def ShowLog_def ShowAuth_def split: app_call.split)
  then show ?case using call by (simp cong: if_cong)
qed (auto simp: new_app_defs posted_defs)

end
