(* ===== verification/Defects.thy ===== *)
theory Defects
  imports Serials Outcomes Daemon App Sample
begin

text \<open>
  Behaviour that the code has and does not seem to mean, each with the lemma that shows it on the model.  The
  defects that concern a whole operation are among the properties of the root theory (the rate limit, the answer
  to a conflict, the list of the main panel, the life of the monitor); here are the local ones.
\<close>

section \<open>Services and their manager\<close>

text \<open>
  \<open>setManager\<close> leaves its loop over \<open>Depends\<close> at the first dependency that a service matches.  If whoever
  meets the second dependency of a service meets the first as well, the service never runs, although a
  service that meets both may be running.
\<close>

lemma second_dependency_is_never_met:
  assumes "inv w" and "depends (svc w s) = [d1, d2]" and "d1 \<noteq> d2"
    and "\<And>p. p \<in> set (managed w) \<Longrightarrow> Matches (svc w p) d2 \<Longrightarrow> Matches (svc w p) d1"
  shows "\<not> running (svc w s)"
proof
  assume run: "running (svc w s)"
  then have s: "s \<in> set (managed w)" "satisfied w s" using inv_parts(5,7) [OF assms(1)] by auto
  then obtain p where p: "p \<in> set (managed w)" "registered_dep (svc w s) (svc w p) = Some d2"
    using satisfied_graph [OF inv_parts(2) [OF assms(1)] s(1)] assms(2) by (auto simp: dep_of_def)
  then show False using assms(2-4) by (auto simp: registered_dep_def split: if_splits)
qed

text \<open>A second logger for the same manager: what \<open>setManager\<close> adds, \<open>delManager\<close> leaves.\<close>

lemma deleted_service_keeps_its_loggers: "s_mlog (svc (delManager s w) u) = s_mlog (svc w u)"
proof -
  have "s_mlog (without_links S) = s_mlog S" for S :: "'a service" by (simp add: without_links_def)
  then have *: "only_links v v' \<Longrightarrow> s_mlog (svc v' u) = s_mlog (svc v u)" for v v' :: "'a world"
    by (metis only_links_def)
  show ?thesis
  proof (cases "has_mgr (svc w s)")
    case True
    then show ?thesis
      using * [OF only_links_unlinked [of "w\<lparr>mgr := (mgr w)\<lparr>services := delete_key s (services (mgr w))\<rparr>\<rparr>" s]]
      by (auto simp: delManager_unlinked upd_def stamp_now_def tick_def)
  qed (simp add: delManager_none)
qed

text \<open>\<open>Clear\<close> of a log changes its identifier, and wakes nobody who waits for a change.\<close>

lemma cleared_log_wakes_nobody:
  assumes "log_id l \<noteq> word_of_int (reading c)" and "k \<in> set (map fst (log_cvs l))" and "\<not> signalled k (log_cvs l)"
  shows "\<not> announces (log_view l) (log_view (fst (log_Clear l c)))"
  using assms by (auto simp: announces_def log_view_def log_Clear_def)

section \<open>Processes and manifests\<close>

text \<open>The environment of a manifest is read and not used; one without a command panics when it is started.\<close>

lemma manifest_environment_is_ignored: "process_of_manifest (m\<lparr>mf_Env := e\<rparr>) = process_of_manifest m"
  by (simp add: process_of_manifest_def)

lemma manifest_without_command_panics:
  "mf_Command m = [] \<Longrightarrow> process_Start os (process_of_manifest m) w = Panic NilDereference"
  by (simp add: process_Start_def process_of_manifest_def command_of_def)

text \<open>So the daemon ends in a panic when it enables such a service and nothing keeps the service from starting.\<close>

lemma enabling_without_command_panics:
  assumes "inv w" and "s \<in> set (managed w)" and "\<not> enabled (svc w s)" and "satisfied w s"
    and "\<And>c. c \<in> set (incompat (svc w s)) \<Longrightarrow> \<not> enabled (svc w c)"
    and "prov (svc w s) = (p, k, b)" and "pr_startCmd p = None"
  shows "enable_one os s w = Panic NilDereference"
proof -
  let ?P = "process_provider os"
  have s: "has_mgr (svc w s)" "s \<notin> set (incompat (svc w s))"
    using base_ok_has_mgr [OF inv_parts(1) [OF assms(1)] assms(2)] in_links(2) [OF inv_parts(2) [OF assms(1)] assms(2)] by auto
  obtain e w' where w': "Enable ?P s w = Done (e, w')" "keeps w w'"
    using Enable_spec [OF assms(1,2), of ?P] by (force simp only: returns_iff split_paired_all prod.case)
  have "tried ?P ((svc w s)\<lparr>enabled := True, starts := 0\<rparr>) (svc w' s)"
    using yields_DoneD [OF Enable_outcome [OF assms(1) s(1) assms(3-5) s(2)] w'(1)] by simp
  then have "crashed (prov (svc w' s))"
    using start_without_command [OF assms(7), of os k b] by (simp add: tried_def assms(6) crashed_def)
  moreover have "s \<in> set (managed w')" using w'(2) assms(2) by (simp add: keeps_def frame_def)
  ultimately show ?thesis using w'(1) by (auto simp: enable_one_def survived_def list_ex_iff)
qed

text \<open>The directory property does not reach the commands, the check command cannot be set and never runs.\<close>

lemma directory_property_is_idle:
  "pr_startCmd (snd (process_SetProperty PropProcessDirectory v p)) = pr_startCmd p"
  "pr_stopCmd (snd (process_SetProperty PropProcessDirectory v p)) = pr_stopCmd p"
  by (simp_all add: process_SetProperty_def PropProcessDirectory_def PropProcessFailOnExit_def
      PropProcessStopTime_def PropProcessStopCmd_def split: provval.split propval.split)

lemma check_command_is_ignored:
  "process_SetProperty PropProcessCheckCmd v p = (Some ErrBadPropName, p)"
  "process_Check (p\<lparr>pr_checkCmd := c\<rparr>) = process_Check p"
  by (simp_all add: process_SetProperty_def PropProcessCheckCmd_def PropProcessDirectory_def
      PropProcessFailOnExit_def PropProcessStopTime_def PropProcessStopCmd_def process_Check_def)

text \<open>Once a service has passed its logger on, the lines of its process go there and not to the log of the service.\<close>

lemma own_logger_bypasses_the_log:
  "print_log (snd (process_SetProperty PropLogger (FromUser (VLogger k)) p)) msg = [(ToUser k, msg)]"
  "provider_println (ToUser k, msg) w = w\<lparr>ext := ext w @ [UserLine k msg]\<rparr>"
  by (simp_all add: process_SetProperty_def print_log_def)

section \<open>The server and the client\<close>

text \<open>The handlers of the logs write the time of the last line in the local time zone.\<close>

lemma log_time_is_local:
  assumes "rs_LastModified (fst (log_response zone r (Some recs, i) w)) = Some t" and "recs \<noteq> []"
  shows "t = rec_time (last recs) div second + zone"
proof -
  have "log_when (log_body recs) t0 = rec_time (last recs)" for t0
    using assms(2) by (induction recs rule: rev_induct) (simp_all add: log_when_def log_body_def)
  then show ?thesis
    using assms(1) by (simp add: log_response_def Let_def cached_def writeJson_def notModified_def last_modified_def
        split: if_splits)
qed

text \<open>Without arguments the client shows the terminal interface; it never falls back to \<open>status\<close>.\<close>

lemma no_arguments_no_status: "run_command T D others clock show_time show_duration [] c n = (Done UserInterface, c, n)"
  by (simp add: run_command_def)

section \<open>The terminal interface\<close>

text \<open>The log panel looks for its error where it is never put, so it shows none.\<close>

lemma log_update_err: "lp_err (log_update show_stamp got got_log p) = lp_err p"
  by (simp add: log_update_def Let_def split: prod.split option.split)

lemma app_run_log_err: "app_run show_time show_stamp a \<Longrightarrow> lp_err (a_log a) = None"
proof (induction rule: app_run_invariant)
  case (call a c)
  then show ?case
    by (simp add: do_call_def app_show_def ShowInfo_def ShowLog_def ShowAuth_def log_SetName_def split: app_call.split)
qed (simp_all add: new_app_defs NewLogPanel_def log_update_err posted_defs)

lemma log_error_is_not_shown:
  assumes "app_run show_time show_stamp a" and "a_panel a = ScreenLog" and "a_logInfo a = None"
  shows "b_status (lp_bars (a_log (app_Draw show_time show_stamp c a))) = ''Loading ...''"
  using assms(2,3) app_run_log_err [OF assms(1)]
  by (simp add: app_Draw_def log_update_def app_GetLog_def Let_def case_prod_beta)

text \<open>With the same error for two services the details panel keeps the title of the first.\<close>

lemma details_keep_the_title:
  assumes "ip_info p = None" and "same_error (ip_err p) (Some e)"
  shows "info_update show_time (None, Some e) (info_SetName name p) = info_SetName name p"
  using assms by (simp add: info_update_def info_SetName_def)

text \<open>After an error the main panel offers the keys of the service that was selected, without which none of them works.\<close>

lemma stale_keys_of_the_list:
  assumes "main_update c [] (Some e) p = (calls, p')" and "calls = []"
  shows "b_keys (mp_bars p') = b_keys (mp_bars p)" and "mp_selected p' = None"
  using assms by (auto simp: main_update_def Let_def keep_selection_def split: if_splits option.splits client_error.splits)

text \<open>A percent sign in the status is taken for the start of a mark; the key bar doubles it.\<close>

lemma status_text_is_not_escaped:
  "without_marks (tx_left (sb_bar (StatusBar_SetText ''load 100%!'' sb))) = ''load 100''"
  "without_marks (SetKeys [''load 100%!'']) = ''load 100%!''"
  by (simp_all add: StatusBar_SetText_def SetKeys_def)

end
