(* ===== verification/Spec2Isabelle.thy ===== *)
theory Spec2Isabelle
  imports Target Snapshot Serials Kept Outcomes Remote Daemon App Defects
begin

text \<open>
  Govisor, a service manager in the style of an init daemon: a manager in a daemon keeps services
  (usually processes) with names, dependencies and conflicts; it starts what can run, stops what
  no longer can, restarts what died, and is looked at and driven over a REST interface by a
  command line tool and a terminal interface.  This development models the Go code under
  \<open>src/\<close> as functions of HOL and proves what makes each part correct.

  \<^bold>\<open>The program and its model.\<close>  The state of the manager is one record, \<open>world\<close> (theory \<open>Model\<close>): the
  fields of \<open>Manager\<close>, and under each service pointer (\<open>sid\<close>, a number) the fields of
  \<open>Service\<close>; Go maps keyed by a pointer are association lists, visited by \<open>range\<close> in an order that an
  open stream of permutations supplies.  A method is a function from the world before to the world
  after, wrapped in \<open>outcome\<close> when it can panic (nil pointer, nil map, index) or recurse.  Every
  exported method holds the lock of the manager throughout, so it is one atomic transition.  The
  theories, in the order in which they build on each other:

  \<^item> \<open>Prelude\<close>: machine integers, clocks, map orders, outcomes and the rules for \<open>returns\<close>
    (total correctness: no panic, no exhausted fuel, and the postcondition), condition variables.
  \<^item> \<open>GoStrings\<close>: the functions of packages \<open>strings\<close>, \<open>strconv\<close> and \<open>fmt\<close> that the code uses.
  \<^item> \<open>LogRing\<close>: \<open>log.go\<close>, a ring of 1000 lines with identifiers; the locale \<open>bounded_log\<close>
    states the contract of a log that keeps the newest lines, the ring is its interpretation.
  \<^item> \<open>MultiLog\<close>: \<open>multilog.go\<close>, one log that writes to several.
  \<^item> \<open>Model\<close>: \<open>errors.go\<close>, \<open>properties.go\<close>, \<open>provider.go\<close>, and the state of \<open>manager.go\<close> and
    \<open>service.go\<close>.  A provider is a record of functions over a state of its own, a parameter of all
    definitions; nothing is assumed of what its methods answer, but they are taken to return.  A method that panics ends the
    program; for processes, the only providers of the repository, that is modelled too (\<open>process_provider\<close>, \<open>survived\<close>).
  \<^item> \<open>Names\<close>, \<open>Graph\<close>: \<open>Matches\<close>, and \<open>setManager\<close> and \<open>delManager\<close> of \<open>service.go\<close>,
    which keep the links \<open>parents\<close>, \<open>children\<close> and \<open>incompat\<close>.
  \<^item> \<open>Engine\<close>, \<open>Recursion\<close>: \<open>canRun\<close>, \<open>tooQuickly\<close>, \<open>startRecurse\<close>,
    \<open>stopRecurse\<close>, \<open>checkService\<close>, \<open>selfHeal\<close>; what the recursions do to the whole graph.
  \<^item> \<open>ServiceApi\<close>, \<open>ManagerApi\<close>, \<open>System\<close>: the exported methods of \<open>Service\<close> and of
    \<open>Manager\<close>, and the transition system \<open>reachable\<close> of any sequence of them.
  \<^item> \<open>Sample\<close>: a manager with three services, to which the theorems are applied.
  \<^item> \<open>Target\<close>: the specification of which services should run, computed in rounds without the engine, and the
    two inclusions between it and what the manager runs.
  \<^item> \<open>Watch\<close>: \<open>watchSerial\<close> of \<open>manager.go\<close> and \<open>Watch\<close> of \<open>log.go\<close> as a step relation of
    watcher, timer and writers; the locale \<open>watched_counter\<close> (whoever changes the counter signals
    every waiting variable) is interpreted by \<open>bumpSerial\<close> and by \<open>Write\<close> of the log.
  \<^item> \<open>Effects\<close>: the locales \<open>marked\<close> and \<open>marked_list\<close> carry a relation between worlds through every operation of the
    manager, whether it returns or not, while services are opened (changed) and closed (given a new serial number).
  \<^item> \<open>Kept\<close>: the locale \<open>kept\<close>, an instance of \<open>marked_list\<close> for properties of a world that depend on the providers, the account of
    the starts and the clock; it is interpreted by \<open>timely\<close> (the account of the rate limit) and, in \<open>Daemon\<close>, by \<open>all_ready\<close> (no process panics).
  \<^item> \<open>Outcomes\<close>: what one attempt to start a service comes to exactly, and with it \<open>Clear\<close>, \<open>Enable\<close> and the self-healing.
  \<^item> \<open>Serials\<close>: what all operations do to the serial numbers; the locales \<open>effect\<close> and \<open>list_effect\<close> (relations between the
    numbers alone) are instances of the two above, \<open>watched_counter\<close> is interpreted
    by the operations of the manager as a whole.
  \<^item> \<open>Process\<close>: \<open>process.go\<close>, with the kernel as a parameter; \<open>process_provider\<close> is the provider
    that a process is, and notes the panic of one without a command.
  \<^item> \<open>Rest\<close>, \<open>Server\<close>: \<open>rest/common.go\<close>, \<open>govisor/util/util.go\<close>, \<open>server/server.go\<close> and the
    authentication of \<open>govisord/main.go\<close>.  A handler gives status, headers and the value it encodes;
    \<open>handle\<close> is the table of routes, \<open>MyHandler_ServeHTTP\<close> the whole way of a request.
  \<^item> \<open>Snapshot\<close>: what a serial number identifies; \<open>marked_list\<close> is interpreted by \<open>signed\<close>: whatever shows differently after an
    operation has a number that was not used before.
  \<^item> \<open>Serving\<close>: what a request can do to the manager; the locale \<open>served\<close> (a relation that the waits and the four
    actions keep) is interpreted by the invariant and by "no service changes".
  \<^item> \<open>RestClient\<close>, \<open>Remote\<close>: \<open>rest/client.go\<close> with its caches; and the client against the server: the
    address the client writes, the name the server reads in it, the answer that comes back.
  \<^item> \<open>Flags\<close>, \<open>Command\<close>, \<open>Daemon\<close>: package \<open>flag\<close>; \<open>govisor/main.go\<close> and \<open>govisord/main.go\<close> from
    the arguments to the end of the program.
  \<^item> \<open>Bars\<close>, \<open>Panels\<close>, \<open>MainPanel\<close>, \<open>App\<close>: the terminal interface \<open>govisor/ui\<close>: the bars around a panel (the
    full \<open>panel\<close> of styled bars refines the short \<open>bars\<close> that the other theories use), what the panels hold, what
    they show, which keys they answer, and the queue of screens that wait to be shown.
  \<^item> \<open>Defects\<close>: behaviour that the code has and does not seem to mean, each with its lemma.

  \<^bold>\<open>What is proved.\<close>  The invariant \<open>inv\<close> (theory \<open>Engine\<close>) says that the links are exactly what the names
  of the services define, that a service runs only when it is enabled, has not failed and its
  dependencies are met, that no two services in conflict are enabled, and that no index into the
  start times can be out of range.  C1 to C5 state it of every reachable world, together with the
  return of every operation and the counterpart that what can run does run.  C6 and C7 describe
  the two recursions, C8 to C13 and C15 each operation on every branch, with the answers of the provider where they decide (\<open>DeleteService\<close>
  is the lemma \<open>delete_service\<close> in \<open>System\<close>), C14 that the manager as a whole implements the specification \<open>target\<close>, C17 to C19 properties and
  the rate limit, C20 to C22 the logs, C23, C31 and C24 long polling in every interleaving, C25 to C28 and C16
  the HTTP handlers (C26 from the command line through the network to the manager, C16 for every request there is, which is answered unless the
  service it reads never rests),
  C29 and C30 processes (the latter under the manager), C32 the order of the list that is shown, C33 the
  client composed with the server, C35 the daemon from its arguments to its end, C36 to C39 the terminal interface, C40 the
  self-healing of a round of the monitor and C34 the life of its goroutine.

  \<^bold>\<open>Bounds.\<close>  \<open>startRecurse\<close> and \<open>stopRecurse\<close> recurse over a graph that may have cycles, so they take fuel.
  Every caller passes \<open>fuel w\<close>, one more than the number of services: a recursive call of
  \<open>stopRecurse\<close> is made only after a running service was stopped (\<open>active_fuel\<close>), one of
  \<open>startRecurse\<close> only after an idle one was started (\<open>idle_fuel\<close>), so it is never exhausted: a result
  \<open>returns\<close> excludes \<open>OutOfFuel\<close>.  The retry loop of \<open>getService\<close> in the server ends only when the
  service is quiet for a moment; its theorem C27 says so (and takes the bound of its turns from when that is).  The ring has 1000 lines as in the code.

  \<^bold>\<open>Integers.\<close>  The identifiers of log lines and the serial numbers are 64-bit words, their wrap-around
  included (C21 says how far an identifier can be trusted).  Counters, limits and indices are unbounded
  integers, as are times and durations in nanoseconds; the \<open>time\<close> package saturates or wraps only
  beyond 292 years.  A string is a list of bytes: the terminal interface treats each as a rune.

  \<^bold>\<open>Parameters.\<close>  Code outside the repository is an argument of the definitions that use it: providers,
  the kernel (\<open>os_calls\<close>), the router \<open>gorilla/mux\<close> (\<open>mux\<close>, asked by C26 and C33 to find the route of a path and by C16
  to mind the method; \<open>sample_router\<close> does both), the encoders and decoders of \<open>encoding/json\<close> (\<open>marshal\<close>, and
  \<open>decoders\<close>; \<open>json_works\<close> says that they fit together), \<open>bcrypt\<close>, the files and the listener of the
  two commands (\<open>daemon_env\<close>, \<open>client_env\<close>), the formats of package \<open>time\<close>, and what other goroutines do while a
  call is blocked (\<open>others\<close>, \<open>watchFn\<close>, \<open>waits\<close>).  The clock is a stream of readings; C19 asks it to be
  monotone and not before the year 1, C25 and C27 that two readings are a nanosecond apart at least (each number that is given out costs a reading,
  so the \<open>2 ^ 64\<close> numbers last for 584 years).

  \<^bold>\<open>Deliberate simplifications.\<close>  \<open>setManager\<close> and \<open>delManager\<close> visit the services of a manager in
  the order of the list, newest first: their effect does not depend on it, as the links that result are
  determined by the names (C5).  The loops over \<open>children\<close> and over the services in the monitor and
  in \<open>Shutdown\<close>, where the order does matter, use the open order.  A provider calls back
  through \<open>PropNotify\<close> as an operation of its own, never from inside another operation; what its
  goroutines do between two operations is the operation \<open>OpActs\<close>.  The sleep of the monitor between two rounds is
  what other goroutines do in it.  The daemon starts its services without requests in between, although it listens already.
  A rate limit too large for \<open>make\<close> to allocate its slots, which makes \<open>SetProperty\<close> panic, is not told from others; a property is never a nil
  logger or function.  A process always has a logger, as \<open>NewService\<close> gives it one.  The items of the terminal interface are never nil
  pointers (\<open>getItems\<close> can return one, alone in its list: \<open>sort_pointers\<close> allows it, the drawing of it would panic).  A name in the header
  that asks for a password is quoted as by the verb \<open>%q\<close> up to bytes of 128 and more.

  \<^bold>\<open>Behaviours worth knowing\<close> that the theorems show: a negative rate limit panics at the next start (C18); the rate limit
  measures from the last start (C19); a conflict is answered with 400 and not 409, and a name with a space is
  looked up with a plus sign (C26); a watch answered with 304 and nothing cached gives a nil pointer
  (\<open>watch_service_answer\<close> in \<open>RestClient\<close>); the goroutine of the monitor never ends (C34); the flag \<open>-name\<close> does not name
  the manager (C35); the daemon panics when it enables a service whose manifest has no command (\<open>enabling_without_command_panics\<close> in \<open>Defects\<close>); after a failed update the main panel panics at the next cursor key (C37).  The local ones are lemmas of \<open>Defects\<close>: a service
  that matches two dependencies of another meets only the first, a service that is deleted and added again is logged twice, and
  others of the processes, the server and the panels.

  \<^bold>\<open>Not modelled.\<close>  The layout, the sizes and the drawing on the screen, which the library \<open>tcell/views\<close> does (of its bars and
  fields, the texts and styles that the program sets; of the views, which panel holds one), and the goroutine loop that redraws the screen every second; TLS beyond its configuration; the conversion of values to and from JSON and CSV; data races, since the code reads and writes its
  state under locks (\<open>Check\<close>, which does not, is modelled as atomic); the tests of the repository.
\<close>

section \<open>The manager as a whole\<close>

text \<open>
  C1. From a new manager, after any sequence of allowed operations (a new service is a new pointer, and no rate limit is
  negative: C18 says what that does), every allowed operation returns, whatever the providers answer as long as their methods
  return: no nil pointer, no write to a nil map, no index out of range, no second registration, and the
  recursions over the dependency graph end, whatever its cycles; and the invariant holds again.
\<close>

theorem every_operation_returns:
  assumes "reachable P A (new_world name V c r) w" and "blank V" and "permutes_keys r"
    and "allowed a w"
  shows "\<exists>w'. exec P a w = Done w' \<and> inv w'"
proof -
  have "inv w" by (rule reachable_inv [OF assms(1) blank_inv [OF assms(3,2)]])
  from exec_spec [OF this assms(4), of P] show ?thesis by (auto simp: returns_iff)
qed

lemma every_operation_returns_witness:
  "\<exists>w w'. sample_running w \<and> exec sample_provider (OpDisable 0) w = Done w' \<and> inv w'"
proof -
  obtain w where w: "sample_running w" using sample_running by blast
  then have "reachable sample_provider gentle (new_world ''sample'' (\<lambda>_. service_defaults sample_provider db)
      int (\<lambda>_ ks. ks)) w"
    by (simp add: sample_running_def sample_start_def)
  from every_operation_returns [OF this, of "OpDisable 0"] w show ?thesis by auto
qed

text \<open>
  C2. A service runs only while it is enabled, has not failed, and each of its dependencies is
  met: some other service of the manager matches it and is enabled, running and not failed.
\<close>

theorem running_service_has_its_dependencies:
  assumes "reachable P A (new_world name V c r) w" and "blank V" and "permutes_keys r"
    and "running (svc w s)"
  shows "enabled (svc w s) \<and> \<not> failed (svc w s) \<and>
    (\<forall>d \<in> set (depends (svc w s)). \<exists>p \<in> set (managed w). p \<noteq> s \<and> Matches (svc w p) d \<and>
      enabled (svc w p) \<and> running (svc w p) \<and> \<not> failed (svc w p))"
proof -
  have i: "inv w" by (rule reachable_inv [OF assms(1) blank_inv [OF assms(3,2)]])
  have "satisfied w s" "s \<in> set (managed w)" using inv_parts(5,7) [OF i assms(4)] by auto
  then have "\<forall>d \<in> set (depends (svc w s)). \<exists>p \<in> set (managed w). p \<noteq> s \<and> dep_of w s p = Some d \<and>
      serving (svc w p)"
    using satisfied_graph [OF inv_parts(2) [OF i]] by blast
  moreover have "dep_of w s p = Some d \<Longrightarrow> Matches (svc w p) d" for p d
    by (auto simp: dep_of_def dest: registered_dep_Some)
  ultimately show ?thesis
    using inv_parts(9) [OF i assms(4)] by (fastforce simp: serving_def)
qed

lemma running_service_has_its_dependencies_witness:
  "\<exists>w. sample_running w \<and> running (svc w 1) \<and>
    (\<exists>p \<in> set (managed w). p \<noteq> 1 \<and> Matches (svc w p) ''db'' \<and> running (svc w p))"
proof -
  obtain w where w: "sample_running w" using sample_running by blast
  then have r: "reachable sample_provider gentle (new_world ''sample'' (\<lambda>_. service_defaults sample_provider db)
      int (\<lambda>_ ks. ks)) w" and run: "running (svc w 1)" and n: "sample_names w"
    by (simp_all add: sample_running_def sample_start_def)
  from running_service_has_its_dependencies [OF r _ _ run] sample_names_fields(8) [OF n] w run
  show ?thesis by auto
qed

text \<open>
  C3. Two services of a manager that conflict (the name or an alias of one matches a declared
  conflict of the other) are never both enabled.
\<close>

theorem conflicting_services_not_both_enabled:
  assumes "reachable P A (new_world name V c r) w" and "blank V" and "permutes_keys r"
    and "s \<in> set (managed w)" "t \<in> set (managed w)" "s \<noteq> t"
    and "d \<in> set (conflicts (svc w s))" "Matches (svc w t) d"
  shows "\<not> (enabled (svc w s) \<and> enabled (svc w t))"
proof -
  have i: "inv w" by (rule reachable_inv [OF assms(1) blank_inv [OF assms(3,2)]])
  have "conf_of w s t"
    using assms(7,8) by (auto simp: conf_of_def conflicting_def list_ex_iff)
  then have "t \<in> set (incompat (svc w s))"
    using in_links(2) [OF inv_parts(2) [OF i] assms(4)] assms(5,6) by auto
  then show ?thesis using inv_parts(3) [OF i] assms(4) by (auto simp: exclusive_def)
qed

lemma conflicting_services_not_both_enabled_witness:
  "\<exists>w. sample_running w \<and> Matches (svc w 1) ''web'' \<and> \<not> (enabled (svc w 2) \<and> enabled (svc w 1))"
proof -
  obtain w where w: "sample_running w" using sample_running by blast
  then have r: "reachable sample_provider gentle (new_world ''sample'' (\<lambda>_. service_defaults sample_provider db)
      int (\<lambda>_ ks. ks)) w" and n: "sample_names w" and m: "managed w = [2, 1, 0]"
    by (simp_all add: sample_running_def sample_start_def)
  have M: "Matches (svc w 1) ''web''"
    by (simp add: Matches_iff serviceMatches_iff sample_names_fields [OF n] base_name_def del: One_nat_def)
  from conflicting_services_not_both_enabled [OF r, of 2 1 "''web''"] M m w sample_names_fields(12) [OF n]
  show ?thesis by auto
qed

text \<open>
  C4. No service is left behind.  As long as no rate limit is changed, a service of the manager
  that is enabled, has not failed and has not used up its starts runs whenever its dependencies
  are met and nothing that conflicts with it is enabled: each operation starts every service it
  makes startable, through any chain of dependencies.
\<close>

theorem startable_service_is_running:
  assumes "reachable P (\<lambda>a. \<not> changes_limit a) (new_world name V c r) w" and "blank V" and "permutes_keys r"
    and "s \<in> set (managed w)" "enabled (svc w s)" "\<not> failed (svc w s)" "\<not> limited (svc w s)"
    and "\<forall>d \<in> set (depends (svc w s)). \<exists>p \<in> set (managed w). p \<noteq> s \<and>
      registered_dep (svc w s) (svc w p) = Some d \<and> serving (svc w p)"
  shows "running (svc w s)"
proof -
  have i0: "inv (new_world name V c r)" by (rule blank_inv [OF assms(3,2)])
  have i: "inv w" by (rule reachable_inv [OF assms(1) i0])
  have ns: "\<not> stuck w s" by (rule reachable_nothing_stuck [OF assms(1) i0 _ nothing_stuck_first])
  have "satisfied w s"
    using satisfied_graph [OF inv_parts(2) [OF i] assms(4)] assms(8) by (simp add: dep_of_def)
  moreover have "\<forall>c \<in> set (incompat (svc w s)). \<not> enabled (svc w c)"
    using inv_parts(3) [OF i] assms(4,5) by (auto simp: exclusive_def)
  ultimately have "can_run w s"
    using inv_parts(8) [OF i] assms(5) by (simp add: can_run_def)
  then show ?thesis using ns assms(4,6,7) by (auto simp: stuck_def)
qed

lemma startable_service_is_running_witness:
  "\<exists>w. sample_running w \<and> depends (svc w 0) = [] \<and> running (svc w 0)"
proof -
  obtain w where w: "sample_running w" using sample_running by blast
  then have r: "reachable sample_provider gentle (new_world ''sample'' (\<lambda>_. service_defaults sample_provider db)
      int (\<lambda>_ ks. ks)) w" and n: "sample_names w" and m: "managed w = [2, 1, 0]" and i: "inv w"
    and e: "enabled (svc w 0)" and run: "running (svc w 0)"
    by (simp_all add: sample_running_def sample_start_def)
  have f: "\<not> failed (svc w 0)" "\<not> limited (svc w 0)"
    using inv_parts(9) [OF i run] w by (simp_all add: sample_running_def)
  from startable_service_is_running [OF r _ _ _ e f] m w sample_names_fields(7) [OF n]
  show ?thesis by auto
qed

text \<open>
  C5. The links between services are what their names say, whatever the order of additions,
  removals and visits: the children of \<open>s\<close> are the other services for which \<open>s\<close> satisfies a
  dependency, its incompatible services those that conflict with it by either declaration, and
  the parents registered under a dependency those whose first match it is.
\<close>

theorem links_are_what_names_say:
  assumes "reachable P A (new_world name V c r) w" and "blank V" and "permutes_keys r"
    and "s \<in> set (managed w)"
  shows "set (children (svc w s)) =
      {t \<in> set (managed w). t \<noteq> s \<and> registered_dep (svc w t) (svc w s) \<noteq> None} \<and>
    set (incompat (svc w s)) = {t \<in> set (managed w). t \<noteq> s \<and> conflicting (svc w s) (svc w t)} \<and>
    fst ` set (parents (svc w s)) = set (depends (svc w s)) \<and>
    (\<forall>(d, ps) \<in> set (parents (svc w s)).
      set ps = {p \<in> set (managed w). p \<noteq> s \<and> registered_dep (svc w s) (svc w p) = Some d})"
proof -
  have g: "graph_ok w"
    by (rule inv_parts(2) [OF reachable_inv [OF assms(1) blank_inv [OF assms(3,2)]]])
  have p: "\<forall>(d, ps) \<in> set (parents (svc w s)).
      set ps = {p \<in> set (managed w). p \<noteq> s \<and> registered_dep (svc w s) (svc w p) = Some d}"
    using in_links(3) [OF g assms(4)] by (auto simp: dep_of_def)
  have "fst ` set (parents (svc w s)) = set (depends (svc w s))"
    using graph_links [OF g assms(4)] by (simp add: links_def dom_map_of_conv_image_fst keys_of_def)
  then show ?thesis
    using graph_links [OF g assms(4)] p by (simp add: links_def dep_of_def conf_of_def)
qed

lemma links_are_what_names_say_witness:
  "\<exists>w. sample_running w \<and> set (incompat (svc w 2)) =
    {t \<in> set (managed w). t \<noteq> 2 \<and> conflicting (svc w 2) (svc w t)} \<and> 1 \<in> set (incompat (svc w 2))"
proof -
  obtain w where w: "sample_running w" using sample_running by blast
  then have r: "reachable sample_provider gentle (new_world ''sample'' (\<lambda>_. service_defaults sample_provider db)
      int (\<lambda>_ ks. ks)) w" and n: "sample_names w" and m: "managed w = [2, 1, 0]"
    by (simp_all add: sample_running_def sample_start_def)
  from links_are_what_names_say [OF r, of 2] w m sample_graph(5) [OF n]
  show ?thesis by (auto simp: conf_of_def)
qed

section \<open>Starting and stopping\<close>

text \<open>
  C6. Stopping a running service: it stops, no service is started, every other service that
  stops with it could not have run any longer, and every service that keeps running has all its
  dependencies met by services that serve.  The recursion ends on every graph.
\<close>

theorem stop_cascades_exactly:
  assumes "inv w" and "running (svc w s)"
  shows "\<exists>w'. stopRecurse (fuel w) P s detail w = Done w' \<and> \<not> running (svc w' s) \<and>
    (\<forall>u. running (svc w' u) \<longrightarrow> running (svc w u) \<and> satisfied w' u) \<and>
    (\<forall>u. u \<noteq> s \<and> running (svc w u) \<and> \<not> running (svc w' u) \<longrightarrow> \<not> can_run w' u) \<and>
    (\<forall>u. enabled (svc w' u) = enabled (svc w u) \<and> failed (svc w' u) = failed (svc w u) \<and>
      starts (svc w' u) = starts (svc w u))"
proof -
  note i = inv_parts [OF assms(1)]
  have "dep_ok X w" for X using i(5) by (simp add: dep_ok_def)
  then have "returns (stopRecurse (fuel w) P s detail w) (\<lambda>w'. halted {s} w w' \<and> base_ok w' \<and>
      \<not> running (svc w' s) \<and> dep_ok {} w')"
    using stopRecurse_spec [OF i(1) i(7) [OF assms(2)] active_fuel, of "{}" P detail] assms(2) i(8)
    by simp
  then obtain w' where w': "stopRecurse (fuel w) P s detail w = Done w'" "halted {s} w w'"
      "\<not> running (svc w' s)" "dep_ok {} w'"
    by (auto simp: returns_iff)
  moreover have "\<not> stopping (svc w' u)" for u using w'(2) i(8) by (simp add: halted_def)
  ultimately show ?thesis by (auto simp: halted_def dep_ok_def)
qed

lemma stop_cascades_exactly_witness:
  "\<exists>w w'. sample_running w \<and> stopRecurse (fuel w) sample_provider 0 ''test'' w = Done w' \<and>
    \<not> running (svc w' 0)"
proof -
  obtain w where "sample_running w" using sample_running by blast
  then show ?thesis
    using stop_cascades_exactly [of w 0 sample_provider "''test''"]
    by (auto simp: sample_running_def)
qed

text \<open>
  C7. Starting a service: the recursion ends on every graph, stops nothing, changes no
  \<open>enabled\<close>, starts each service at most once (when no provider fails to start) and leaves no
  new service behind that could run: a service that may run and has starts left runs or failed.
\<close>

theorem start_cascades_completely:
  assumes "inv w" and "s \<in> set (managed w)"
  shows "\<exists>w'. startRecurse (fuel w) P s detail w = Done w' \<and> inv w' \<and>
    (\<forall>u. running (svc w u) \<longrightarrow> running (svc w' u)) \<and>
    (\<forall>u. enabled (svc w' u) = enabled (svc w u)) \<and>
    (can_run w s \<and> \<not> limited (svc w s) \<longrightarrow> running (svc w' s) \<or> failed (svc w' s)) \<and>
    (\<forall>u. stuck w' u \<longrightarrow> stuck w u \<and> u \<noteq> s) \<and>
    (\<not> may_fail P \<longrightarrow> (\<forall>u. starts (svc w' u) =
      starts (svc w u) + (if running (svc w' u) \<and> \<not> running (svc w u) then 1 else 0)))"
  using start_returns [OF assms, of P detail]
  by (auto simp: returns_iff started_def progress_def counted_def)

lemma start_cascades_completely_witness:
  "\<exists>w w'. sample_running w \<and> startRecurse (fuel w) sample_provider 2 ''test'' w = Done w' \<and> running (svc w' 1)"
proof -
  obtain w where w: "sample_running w" using sample_running by blast
  then have "inv w" "2 \<in> set (managed w)" "running (svc w 1)" by (simp_all add: sample_running_def)
  from start_cascades_completely [OF this(1,2), of sample_provider "''test''"] this(3) w
  show ?thesis by blast
qed

section \<open>The operations of a service\<close>



text \<open>
  C9. \<open>Disable\<close> always succeeds: the service is neither enabled nor running; nothing starts, and
  whatever else stops could not have run any longer.
\<close>

theorem disable_stops:
  assumes "inv w" and "s \<in> set (managed w)"
  shows "\<exists>w'. Disable P s w = Done (None, w') \<and> inv w' \<and> no_newly_stuck w w' \<and>
    \<not> enabled (svc w' s) \<and> \<not> running (svc w' s) \<and>
    (\<forall>u. running (svc w' u) \<longrightarrow> running (svc w u)) \<and>
    (\<forall>u. u \<noteq> s \<and> running (svc w u) \<and> \<not> running (svc w' u) \<longrightarrow> \<not> can_run w' u)"
  using Disable_spec [OF assms, of P] by (auto simp: returns_iff keeps_def stops_only_def)

lemma disable_stops_witness:
  "\<exists>w w'. sample_running w \<and> Disable sample_provider 0 w = Done (None, w') \<and> \<not> running (svc w' 0)"
proof -
  obtain w where w: "sample_running w" using sample_running by blast
  then have "inv w" "0 \<in> set (managed w)" by (simp_all add: sample_running_def)
  from disable_stops [OF this, of sample_provider] w show ?thesis by blast
qed

text \<open>
  C10. \<open>Restart\<close> of a service of the manager succeeds and keeps \<open>enabled\<close>.  Its starts are counted anew: if an enabled
  service runs afterwards it has been started since, and if it could run it does or its start failed, whatever
  its rate limit was.  No other service is left stopped that was not before.
\<close>

theorem restart_restarts:
  assumes "inv w" and "s \<in> set (managed w)"
  shows "\<exists>w'. Restart P s w = Done (None, w') \<and> inv w' \<and> no_newly_stuck w w' \<and>
    enabled (svc w' s) = enabled (svc w s) \<and>
    (enabled (svc w s) \<longrightarrow> (running (svc w' s) \<longrightarrow> 0 < starts (svc w' s)) \<and>
      (can_run w' s \<longrightarrow> running (svc w' s) \<or> failed (svc w' s)))"
  using Restart_spec [OF assms, of P] by (auto simp: returns_iff keeps_def)

lemma restart_restarts_witness:
  "\<exists>w w'. sample_running w \<and> Restart sample_provider 0 w = Done (None, w') \<and> enabled (svc w' 0) \<and>
    (running (svc w' 0) \<longrightarrow> 0 < starts (svc w' 0))"
proof -
  obtain w where w: "sample_running w" using sample_running by blast
  then have "inv w" "0 \<in> set (managed w)" "enabled (svc w 0)" by (simp_all add: sample_running_def)
  from restart_restarts [OF this(1,2), of sample_provider] this(3) w show ?thesis by auto
qed

text \<open>
  C11. \<open>Clear\<close> forgets the failure, its error and the starts of a service.  A service that runs goes on, one that cannot run
  stays stopped; any other is started once, whatever its rate limit was, and the answer of its provider decides whether it
  runs or has failed again with that error.  No service stops, and none is left stopped that was not before.
\<close>

theorem clear_recovers:
  assumes "inv w" and "s \<in> set (managed w)"
  shows "\<exists>w'. Clear P s w = Done w' \<and> inv w' \<and> no_newly_stuck w w' \<and>
    (\<forall>u. running (svc w u) \<longrightarrow> running (svc w' u)) \<and>
    (can_run w' s \<longrightarrow> running (svc w' s) \<or> failed (svc w' s)) \<and>
    (if running (svc w s) \<or> \<not> can_run w s
     then running (svc w' s) = running (svc w s) \<and> \<not> failed (svc w' s) \<and> err (svc w' s) = None \<and> starts (svc w' s) = 0
     else starts (svc w' s) = 1 \<and>
       (case fst (pStart P (prov (svc w s))) of
          None \<Rightarrow> running (svc w' s) \<and> \<not> failed (svc w' s) \<and> err (svc w' s) = None
        | Some e \<Rightarrow> \<not> running (svc w' s) \<and> failed (svc w' s) \<and> err (svc w' s) = Some e))"
proof -
  obtain w' where w': "Clear P s w = Done w'" "keeps w w'" "can_run w' s \<longrightarrow> running (svc w' s) \<or> failed (svc w' s)"
      "\<forall>u. running (svc w u) \<longrightarrow> running (svc w' u)"
    using Clear_spec [OF assms, of P] by (auto simp: returns_iff)
  have m: "has_mgr (svc w s)" by (rule base_ok_has_mgr [OF inv_parts(1) [OF assms(1)] assms(2)])
  note o = yields_DoneD [OF Clear_outcome [OF assms(1) m] w'(1)]
  show ?thesis
  proof (cases "running (svc w s) \<or> \<not> can_run w s")
    case True
    then have "alike (cleared (svc w s)) (svc w' s)" using o by simp
    from alike_fields [OF this] show ?thesis using w' True by (auto simp: keeps_def cleared_def)
  next
    case False
    then have "tried P (cleared (svc w s)) (svc w' s)" using o by simp
    then show ?thesis
      using w' False by (cases "fst (pStart P (prov (svc w s)))") (simp_all add: keeps_def cleared_def tried_def)
  qed
qed

lemma clear_recovers_witness:
  "\<exists>w w'. sample_running w \<and> Clear sample_provider 1 w = Done w' \<and> running (svc w' 0)"
proof -
  obtain w where w: "sample_running w" using sample_running by blast
  then have "inv w" "1 \<in> set (managed w)" "running (svc w 0)" by (simp_all add: sample_running_def)
  from clear_recovers [OF this(1,2), of sample_provider] this(3) w show ?thesis by blast
qed

text \<open>
  C12. A check answers with the error of a service that has failed, with \<open>ErrNotRunning\<close> for another that does not run, and otherwise
  with what the provider answers; it answers nil exactly when the service runs after it.  A service that ran and whose provider reports an
  error has failed with that error, and is stopped together with whatever depended on it.
\<close>

theorem check_tells_the_truth:
  assumes "inv w" and "s \<in> set (managed w)"
  shows "\<exists>e w'. checkService P s w = Done (e, w') \<and> inv w' \<and> no_newly_stuck w w' \<and>
    e = (if failed (svc w s) then err (svc w s) else if \<not> running (svc w s) then Some ErrNotRunning
         else fst (pCheck P (prov (svc w s)))) \<and>
    (e = None \<longleftrightarrow> running (svc w' s)) \<and> (e = None \<longrightarrow> running (svc w s)) \<and>
    (running (svc w s) \<and> e \<noteq> None \<longrightarrow> failed (svc w' s) \<and> err (svc w' s) = e \<and> \<not> running (svc w' s) \<and>
      (\<forall>u. running (svc w' u) \<longrightarrow> satisfied w' u))"
proof -
  obtain e w' where c: "checkService P s w = Done (e, w')" and k: "keeps w w'"
    and r: "(e = None) = running (svc w' s)" "running (svc w s) \<and> e \<noteq> None \<longrightarrow> failed (svc w' s)" "e = None \<longrightarrow> running (svc w s)"
    using checkService_spec [OF assms, of P] by (force simp only: returns_iff split_paired_all prod.case)
  have run: "\<not> failed (svc w s)" if "running (svc w s)" using inv_parts(9) [OF assms(1) that] by simp
  note answer = checkService_answer [OF c]
  have a: "e = (if failed (svc w s) then err (svc w s) else if \<not> running (svc w s) then Some ErrNotRunning
      else fst (pCheck P (prov (svc w s))))"
    using answer(1) c by (auto simp: checkService_def)
  have i: "inv w'" "no_newly_stuck w w'" using k by (simp_all add: keeps_def)
  have "err (svc w' s) = e" if "running (svc w s)" "e \<noteq> None"
    using answer(2) [OF that(1) run [OF that(1)]] that(2) by auto
  then have "running (svc w s) \<and> e \<noteq> None \<longrightarrow> failed (svc w' s) \<and> err (svc w' s) = e \<and> \<not> running (svc w' s) \<and>
      (\<forall>u. running (svc w' u) \<longrightarrow> satisfied w' u)"
    using r(1,2) inv_parts(5) [OF i(1)] by blast
  with c i a r(1,3) show ?thesis by (intro exI conjI)
qed

lemma check_tells_the_truth_witness:
  "\<exists>w e w'. sample_running w \<and> checkService sample_provider 0 w = Done (e, w') \<and> (e = None \<longleftrightarrow> running (svc w' 0))"
proof -
  obtain w where w: "sample_running w" using sample_running by blast
  then have "inv w" "0 \<in> set (managed w)" by (simp_all add: sample_running_def)
  from check_tells_the_truth [OF this, of sample_provider] show ?thesis
    by (elim exE conjE) (intro exI conjI, rule w, assumption+)
qed

section \<open>The operations of the manager\<close>

text \<open>
  C13. \<open>AddService\<close> refuses a name that is in use; otherwise the service belongs to the manager.
  No name, dependency, conflict, flag or count of starts of any service changes.
\<close>

theorem add_service:
  assumes "inv w"
  shows "\<exists>e w'. AddService s w = Done (e, w') \<and> inv w' \<and> no_newly_stuck w w' \<and>
    (if \<exists>t \<in> set (managed w). sname (svc w t) = sname (svc w s)
     then e = Some ErrNameExists \<and> managed w' = managed w
     else e = None \<and> set (managed w') = insert s (set (managed w))) \<and>
    (\<forall>u. flags_of (svc w' u) = flags_of (svc w u) \<and> identity_of (svc w' u) = identity_of (svc w u) \<and>
      starts (svc w' u) = starts (svc w u))"
proof -
  have "name_taken s w \<longleftrightarrow> (\<exists>t \<in> set (managed w). sname (svc w t) = sname (svc w s))"
    unfolding name_taken_def list_ex_iff by metis
  moreover obtain e w' where "AddService s w = Done (e, w')" "inv w'" "no_newly_stuck w w'"
      "if name_taken s w then e = Some ErrNameExists \<and> managed w' = managed w
       else e = None \<and> managed w' = s # managed w"
      "\<forall>u. flags_of (svc w' u) = flags_of (svc w u) \<and> identity_of (svc w' u) = identity_of (svc w u) \<and>
        starts (svc w' u) = starts (svc w u)"
    using AddService_spec [OF assms, of s] by (force simp only: returns_iff split_paired_all prod.case)
  ultimately show ?thesis by (intro exI [of _ e] exI [of _ w']) simp
qed

lemma add_service_witness:
  "\<exists>w w'. sample_running w \<and> AddService 0 w = Done (Some ErrNameExists, w') \<and> managed w' = managed w"
proof -
  obtain w where w: "sample_running w" using sample_running by blast
  then have "inv w" "0 \<in> set (managed w)" by (simp_all add: sample_running_def)
  from add_service [OF this(1), of 0] this(2) w show ?thesis by (auto split: if_splits)
qed

text \<open>
  C14. The manager implements its specification.  Whatever operations have run (but for changes of a rate
  limit), every service of the \<open>target\<close> runs: the least set of services that are enabled, have not failed, have
  starts left and find each dependency met by another of the set.  When no service
  depends on itself through others and no limit is used up, these are all that run, so what runs depends only
  on the names and on what is enabled and failed.
\<close>

theorem running_services_are_the_target:
  assumes "reachable P (\<lambda>a. \<not> changes_limit a) (new_world name V c r) w" and "blank V" and "permutes_keys r"
  shows "(\<forall>s \<in> set (target w). running (svc w s)) \<and>
    (layered w rank \<and> (\<forall>u. \<not> limited (svc w u)) \<longrightarrow> {s. running (svc w s)} = set (target w))"
proof -
  have i0: "inv (new_world name V c r)" by (rule blank_inv [OF assms(3,2)])
  have i: "inv w" by (rule reachable_inv [OF assms(1) i0])
  have "\<not> stuck w u" for u by (rule reachable_nothing_stuck [OF assms(1) i0 _ nothing_stuck_first])
  then show ?thesis using target_runs [OF i] running_in_target [OF i] by blast
qed

lemma running_services_are_the_target_witness:
  "\<exists>w. sample_running w \<and> layered w id \<and> {s. running (svc w s)} = set (target w) \<and> running (svc w 1) \<and> \<not> running (svc w 2)"
proof -
  obtain w where w: "sample_running w" using sample_running by blast
  then have r: "reachable sample_provider gentle (new_world ''sample'' (\<lambda>_. service_defaults sample_provider db)
      int (\<lambda>_ ks. ks)) w" and n: "sample_names w" and i: "inv w"
    by (simp_all add: sample_running_def sample_start_def)
  have l: "layered w id" using w sample_layered [OF n] by (simp add: sample_running_def)
  from running_services_are_the_target [OF r, of id] w l
  show ?thesis using inv_parts(9) [OF i, of 2] by (auto simp: sample_running_def)
qed

text \<open>
  C15. \<open>Shutdown\<close> returns, on every graph and in every order in which the map is visited, with no
  service left in the manager, none running and none enabled.
\<close>

theorem shutdown_stops_everything:
  assumes "inv w"
  shows "\<exists>w'. Shutdown P w = Done w' \<and> inv w' \<and> managed w' = [] \<and>
    (\<forall>u. \<not> running (svc w' u) \<and> \<not> enabled (svc w' u))"
  using Shutdown_spec [OF assms, of P] by (auto simp: returns_iff)

lemma shutdown_stops_everything_witness:
  "\<exists>w w'. sample_running w \<and> Shutdown sample_provider w = Done w' \<and> \<not> running (svc w' 0)"
proof -
  obtain w where w: "sample_running w" using sample_running by blast
  then have "inv w" by (simp add: sample_running_def)
  from shutdown_stops_everything [OF this, of sample_provider] w show ?thesis by blast
qed

section \<open>Names and properties\<close>

text \<open>
  C17. What \<open>SetProperty\<close> accepts, \<open>GetProperty\<close> returns, for every property of the service
  itself, whether the service has a manager or not and whatever its provider does.  Other names go to the provider, of which
  nothing is said here (a process keeps a copy of its stop command and returns a pointer to the copy).
\<close>

theorem property_roundtrip:
  assumes "SetProperty P s n v w = Done (None, w')" and "\<forall>m. n \<noteq> OtherProperty m"
  shows "GetProperty P n (svc w' s) = Inr v"
proof -
  have set: "setProp P s n v w = Done (None, w')"
    using assms(1) by (cases "setProp P s n v w") (auto simp: SetProperty_def split: option.splits)
  obtain w1 :: "'a world" and S where S: "assign_property n v (svc w1 s) = Inr S"
      "svc w' s = S \<or> (\<exists>p. svc w' s = S\<lparr>prov := p\<rparr>)"
  proof -
    obtain w1 :: "'a world" where "(if has_mgr (svc w s) then bump s w else Done w) = Done w1"
        "\<not> (has_mgr (svc w s) \<and> read_only_when_managed n)"
      using set by (cases "if has_mgr (svc w s) then bump s w else Done w")
        (auto simp: setProp_def split: if_splits)
    then have "setProp P s n v w = (case assign_property n v (svc w1 s) of
        Inl e \<Rightarrow> Done (Some e, w1)
      | Inr S \<Rightarrow> Done (None, if n = PropNotify then upd s (\<lambda>_. S) w1
          else snd (prov_SetProperty P s n (FromUser v) (upd s (\<lambda>_. S) w1))))"
      using assms(2) by (cases n) (auto simp: setProp_def Let_def split: sum.split)
    with set obtain S where "assign_property n v (svc w1 s) = Inr S"
        "w' = (if n = PropNotify then upd s (\<lambda>_. S) w1
          else snd (prov_SetProperty P s n (FromUser v) (upd s (\<lambda>_. S) w1)))"
      by (auto split: sum.splits)
    then show thesis
      by (intro that [of w1 S]) (auto simp: prov_SetProperty_def case_prod_beta)
  qed
  then show ?thesis
    by (cases n) (use assms(2) in \<open>auto simp: assign_property_def Let_def split: propval.splits if_splits\<close>)
qed

lemma property_roundtrip_witness:
  "\<exists>w'. SetProperty sample_provider 0 PropRestart (VBool True) sample_start = Done (None, w') \<and>
    GetProperty sample_provider PropRestart (svc w' 0) = Inr (VBool True)"
proof -
  have "\<not> has_mgr (svc sample_start 0)"
    by (simp add: sample_start_def new_world_def service_defaults_def case_prod_beta)
  then obtain w' where w': "SetProperty sample_provider 0 PropRestart (VBool True) sample_start = Done (None, w')"
    by (auto simp: SetProperty_def setProp_def assign_property_def Let_def)
  from property_roundtrip [OF this] show ?thesis using w' by simp
qed

text \<open>
  C18. A negative rate limit is accepted, and the next decision whether the service may be
  started panics.
\<close>

theorem negative_limit_panics:
  assumes "SetProperty P s PropRateLimit (VInt k) w = Done (e, w')" and "k < 0"
  shows "e = None \<and> tooQuickly s w' = Panic IndexOutOfRange"
proof -
  have "e = None \<and> rateLimit (svc w' s) = k \<and> startTimes (svc w' s) = [] \<and> starts (svc w' s) = 0"
    using assms by (cases "if has_mgr (svc w s) then bump s w else Done w")
      (auto simp: SetProperty_def setProp_def assign_property_def read_only_when_managed_def
        prov_SetProperty_def case_prod_beta Let_def)
  then show ?thesis using assms(2) by (auto simp: tooQuickly_def Let_def index_time_def)
qed

lemma negative_limit_panics_witness:
  "\<exists>w'. SetProperty sample_provider 0 PropRateLimit (VInt (- 1)) sample_start = Done (None, w') \<and>
    tooQuickly 0 w' = Panic IndexOutOfRange"
proof -
  have "\<not> has_mgr (svc sample_start 0)"
    by (simp add: sample_start_def new_world_def service_defaults_def case_prod_beta)
  then obtain w' where w': "SetProperty sample_provider 0 PropRateLimit (VInt (- 1)) sample_start = Done (None, w')"
    by (auto simp: SetProperty_def setProp_def assign_property_def read_only_when_managed_def Let_def)
  from negative_limit_panics [OF this] show ?thesis using w' by simp
qed

text \<open>
  C19. The rate limit.  In every world that a manager with a clock that does not go back can reach, a service that has used up its starts
  is refused exactly while the period since the latest of the recorded starts lasts, however long ago the others were; a service with
  starts left is never refused.  A start is recorded: it makes its own time the latest.  (The comment in the code speaks of the \<open>n\<close>
  restarts of the last period.)
\<close>

theorem limit_counts_from_last_start:
  assumes "reachable P A (new_world name V c r) w" and "blank V" and "permutes_keys r"
    and "monotonic c" and "zero_time \<le> reading c"
    and "\<And>u. starts (V u) = 0 \<and> set (startTimes (V u)) \<subseteq> {zero_time}"
  shows "(\<exists>e w'. tooQuickly s w = Done (e, w') \<and>
      (if limited (svc w s) \<and> now w < Max (set (startTimes (svc w s))) + ratePeriod (svc w s)
       then e = Some ErrRateLimited else e = None)) \<and>
    (\<exists>w'. record_start s w = Done w' \<and>
      (0 < rateLimit (svc w s) \<longrightarrow> Max (set (startTimes (svc w' s))) = now w))"
proof -
  let ?v = "new_world name V c r"
  obtain k where k: "clk ?v = readings_after c k" using new_world_clock [where c = c and name = name and V = V and r = r] by (auto simp: passes_on_def)
  have now: "zero_time \<le> now ?v" using assms(4,5) unfolding k by (auto simp: readings_after_def monotonic_def intro: order_trans)
  have "accounted (now ?v) (svc ?v u)" for u
  proof -
    have "rate_ok (V u)" using assms(2) by (simp add: blank_def)
    moreover have "svc ?v u = V u" by (simp add: new_world_def case_prod_beta)
    ultimately show ?thesis using assms(6) [of u] now by (auto simp: accounted_def rate_ok_def)
  qed
  then have "timely ?v" using now monotonic_after [OF assms(4)] by (simp add: timely_def k)
  then have w: "timely w" by (rule timely.I_reachable [OF assms(1)]) simp
  have i: "inv w" by (rule reachable_inv [OF assms(1) blank_inv [OF assms(3,2)]])
  then have rate: "rate_ok (svc w s)" by (rule inv_parts(6))
  have "\<exists>e w'. tooQuickly s w = Done (e, w') \<and>
      (if limited (svc w s) \<and> now w < Max (set (startTimes (svc w s))) + ratePeriod (svc w s) then e = Some ErrRateLimited else e = None)"
  proof (cases "limited (svc w s)")
    case True
    then show ?thesis using tooQuickly_last [OF w True] rate by (auto simp: rate_ok_def)
  next
    case False
    then show ?thesis using limited_tooQuickly [OF False rate] by simp
  qed
  moreover obtain w' where w': "record_start s w = Done w'" using record_start_spec [OF rate] by (auto simp: returns_iff)
  moreover have "Max (set (startTimes (svc w' s))) = now w" if "0 < rateLimit (svc w s)"
    by (rule record_start_Max [OF w w' that])
  ultimately show ?thesis by blast
qed

lemma limit_counts_from_last_start_witness:
  "\<exists>w'. record_start 0 sample_start = Done w' \<and> Max (set (startTimes (svc w' 0))) = now sample_start"
proof -
  have "monotonic int" "zero_time \<le> int 0" by (simp_all add: monotonic_def zero_time_def)
  from limit_counts_from_last_start [OF reachable_start blank_defaults identity_order this, of sample_provider db]
  show ?thesis by (simp add: sample_start_def new_world_def case_prod_beta service_defaults_def)
qed

section \<open>Logs\<close>

text \<open>
  C20. After a \<open>Write\<close> to a log, whoever last saw another identifier gets the newest 1000 lines in
  the order they were written, each line of the text with its time, and the identifiers of the
  records are consecutive and end in the identifier of the log (modulo \<open>2 ^ 64\<close>).
\<close>

theorem log_returns_newest:
  assumes "log_reachable l" and "log_id (fst (log_Write b l c)) \<noteq> seen"
  shows "\<exists>rs. log_GetRecords seen (fst (log_Write b l c)) = (Some rs, log_id (fst (log_Write b l c))) \<and>
    map (\<lambda>r. (rec_time r, rec_text r)) rs =
      last_n 1000 (stored_lines l @ zip (map c [0..<length (text_lines b)]) (text_lines b)) \<and>
    map rec_id rs = map (\<lambda>k. log_id (fst (log_Write b l c)) - of_nat k) (rev [0..<length rs])"
proof -
  let ?l = "fst (log_Write b l c)"
  have ok: "log_ok l" "ids_ok ?l" "maxRecords l = 1000"
    using log_reachable_ok [OF assms(1)] log_reachable_ok [OF log_reachable.written [OF assms(1)], of b c]
    by (simp_all add: MaxLogRecords_def)
  have "stored_lines ?l =
      last_n 1000 (stored_lines l @ zip (map c [0..<length (text_lines b)]) (text_lines b))"
    using ok ring.fold_stored [OF log_allocate_ready [OF ok(1)]]
    by (simp add: log_Write_fold Let_def log_allocate_max stored_lines_def log_allocate_contents)
  then show ?thesis
    using log_GetRecords_contents [OF assms(2)] ok(2)
    by (simp add: stored_lines_def ids_ok_def ids_upto_def)
qed

lemma log_returns_newest_witness:
  "\<exists>rs l. log_GetRecords 0 (fst (log_Write ''hi'' (fst (NewLog (\<lambda>n. 5))) (\<lambda>n. 7))) = (Some rs, l) \<and>
    map (\<lambda>r. (rec_time r, rec_text r)) rs = [(7, ''hi'')]"
proof -
  have l: "text_lines ''hi'' = [''hi'']" by (simp add: text_lines_def)
  have "log_id (fst (log_Write ''hi'' (fst (NewLog (\<lambda>n. 5))) (\<lambda>n. 7))) \<noteq> 0"
    by (simp add: log_Write_id l) (simp add: NewLog_def)
  from log_returns_newest [OF log_reachable.created this] show ?thesis
    by (auto simp: l last_n_def)
qed

text \<open>
  C21. An old ETag never hides a \<open>Write\<close>: whoever holds the identifier from before a \<open>Write\<close> of less
  than \<open>2 ^ 64\<close> lines gets the records, and its identifier grows by the number of lines.
\<close>

theorem old_etag_sees_write:
  assumes "length (text_lines b) < 2 ^ 64"
  shows "log_id (fst (log_Write b l c)) = log_id l + of_nat (length (text_lines b)) \<and>
    fst (log_GetRecords (log_id l) (fst (log_Write b l c))) \<noteq> None"
proof -
  have "(of_nat (length (text_lines b)) :: int64) \<noteq> 0"
    using assms by (simp add: word_of_nat_eq_0_iff nat_dvd_not_less)
  then have "log_id (fst (log_Write b l c)) \<noteq> log_id l" by (simp add: log_Write_id)
  from log_GetRecords_contents [OF this] show ?thesis by (simp add: log_Write_id)
qed

lemma old_etag_sees_write_witness:
  "fst (log_GetRecords (log_id (fst (NewLog (\<lambda>n. 5)))) (fst (log_Write ''hi'' (fst (NewLog (\<lambda>n. 5))) (\<lambda>n. 7)))) \<noteq> None"
proof -
  have "length (text_lines ''hi'') < 2 ^ 64" by (simp add: text_lines_def)
  from old_etag_sees_write [OF this] show ?thesis by blast
qed

text \<open>
  C22. A \<open>MultiLogger\<close> that starts empty hands each line of a text once, in order, to every logger
  that was added and not deleted since, and to no other.
\<close>

theorem multilogger_fans_out:
  "received x (ml_Write b (fold (\<lambda>(add, y). if add then ml_AddLogger y else ml_DelLogger y) ops NewMultiLogger)) =
    (if foldl (\<lambda>there (add, y). if y = x then add else there) False ops then text_lines b else [])"
proof -
  let ?f = "\<lambda>(add, y). if add then ml_AddLogger y else ml_DelLogger y"
  have "ml_ok (fold ?f os m) \<and> (x \<in> set (ml_loggers (fold ?f os m)) \<longleftrightarrow>
      foldl (\<lambda>there (add, y). if y = x then add else there) (x \<in> set (ml_loggers m)) os)"
    if "ml_ok m" for os and m :: "'a multilogger"
    using that
  proof (induction os arbitrary: m)
    case (Cons a os)
    obtain add y where a: "a = (add, y)" by fastforce
    from Cons.prems have "ml_ok (?f a m)" by (simp add: a)
    moreover have "x \<in> set (ml_loggers (?f a m)) \<longleftrightarrow> (if y = x then add else x \<in> set (ml_loggers m))"
      using Cons.prems by (auto simp: a set_Del)
    ultimately show ?case using Cons.IH [of "?f a m"] by (simp add: a)
  qed simp
  from this [OF ml_ok_New, of ops] show ?thesis
    by (simp add: received_Write) (simp add: NewMultiLogger_def)
qed

section \<open>Long polling\<close>

text \<open>
  C23. Watching: in every interleaving of a call with its timer and with writers that announce
  their changes, a watcher asleep has been signalled, and returns when it runs, once the counter
  differs from the old value or the time is up; it returns the counter it saw last, which differs
  from the old value unless the time was up, and leaves no condition variable behind.
\<close>

theorem watch_returns_on_change:
  assumes "watching (watch_call old expire cv c ws) W" and "cv \<notin> set (map fst ws)"
  shows "case w_phase W of
      Entering \<Rightarrow> watch_step W (watch_enter W)
    | Waiting \<Rightarrow> counter W \<noteq> old \<or> w_expired W \<longrightarrow>
        watch_step W (watch_turn W) \<and> w_phase (watch_turn W) = Returned (counter W)
    | Returned v \<Rightarrow> (v \<noteq> old \<or> w_expired W) \<and> cv \<notin> set (map fst (waiters W))"
proof -
  have ok: "watch_ok W" by (rule watching_ok [OF assms(1) watch_call_ok [OF assms(2)]])
  have c: "w_old W = old" "w_cv W = cv"
    using watch_constants [OF assms(1)] by (simp_all add: watch_call_def)
  show ?thesis
  proof (cases "w_phase W")
    case Waiting
    then have "watch_step W (watch_turn W)" if "counter W \<noteq> old \<or> w_expired W"
      using ok c that by (intro watch_step.wake) (simp_all add: watch_ok_def)
    then show ?thesis using Waiting c by (simp add: watch_turn_def)
  qed (use ok c in \<open>simp_all add: watch_ok_def watch_step.enter del: set_map\<close>)
qed

lemma watch_returns_on_change_witness:
  "w_phase (watch_turn ((watch_enter (watch_call 4 100 0 4 []))\<lparr>counter := 5, waiters := [(0, True)]\<rparr>)) = Returned 5"
proof -
  let ?C = "watch_call 4 100 0 4 []"
  let ?W = "(watch_enter ?C)\<lparr>counter := 5, waiters := [(0, True)]\<rparr>"
  have "watch_step ?C (watch_enter ?C)"
    by (rule watch_step.enter) (simp add: watch_call_def)
  moreover have "watch_step (watch_enter ?C) ?W"
    by (rule watch_step.announce)
      (simp add: announces_def signalled_def watch_enter_def watch_turn_def watch_call_def)
  ultimately have "watching ?C ?W"
    by (rule watching_step [OF watching_step [OF watching_start]])
  from watch_returns_on_change [OF this] show ?thesis
    by (simp add: watch_enter_def watch_turn_def watch_call_def)
qed

text \<open>
  C31. No change escapes a watcher: every operation of the manager, whatever it does, is a step
  that \<open>WatchSerial\<close> and \<open>WatchServices\<close> allow their writers; so it wakes the sleepers whose number it
  changes.  The number of the list changes only with the list: no operation but the addition and
  the deletion of a service touches it (not even \<open>Shutdown\<close>, which removes all services).
\<close>

theorem every_change_is_announced:
  assumes "exec P a w = Done w'"
  shows "(serial_view w = (counter W, waiters W) \<longrightarrow> watch_step W (seen_by W (serial_view w')) \<and>
      (watch_ok W \<and> w_phase W = Waiting \<and> m_serial (mgr w') \<noteq> w_old W \<longrightarrow> signalled (w_cv W) (cvs (mgr w')))) \<and>
    (list_view w = (counter W, waiters W) \<longrightarrow> watch_step W (seen_by W (list_view w')) \<and>
      (watch_ok W \<and> w_phase W = Waiting \<and> listSerial (mgr w') \<noteq> w_old W \<longrightarrow> signalled (w_cv W) (cvs (mgr w')))) \<and>
    (\<not> changes_list a \<longrightarrow> listSerial (mgr w') = listSerial (mgr w))"
proof -
  note fin = after_Done [OF assms]
  have "listSerial (mgr w') = listSerial (mgr w)" if "\<not> changes_list a"
    using list_fixed.R_exec [OF that, of P w] assms by simp
  then show ?thesis
    using manager_watch.operate_step [of w W "(P, a)"] manager_watch.sleeper_woken [of w W "(P, a)"]
      manager_list_watch.operate_step [of w W "(P, a)"] manager_list_watch.sleeper_woken [of w W "(P, a)"]
    by (simp add: fin serial_view_def list_view_def)
qed

lemma every_change_is_announced_witness:
  "\<exists>w w'. sample_running w \<and> exec sample_provider (OpDisable 0) w = Done w' \<and> listSerial (mgr w') = listSerial (mgr w) \<and>
    watch_step (watch_call 7 100 0 (m_serial (mgr w)) (cvs (mgr w)))
      (seen_by (watch_call 7 100 0 (m_serial (mgr w)) (cvs (mgr w))) (serial_view w'))"
proof -
  obtain w where w: "sample_running w" using sample_running by blast
  then have "inv w" by (simp add: sample_running_def)
  from exec_spec [OF this, of "OpDisable 0" sample_provider]
  obtain w' where w': "exec sample_provider (OpDisable 0) w = Done w'" by (auto simp: returns_iff)
  from every_change_is_announced [OF w', of "watch_call 7 100 0 (m_serial (mgr w)) (cvs (mgr w))"] w w' show ?thesis
    by (auto simp: serial_view_def watch_call_def)
qed

section \<open>HTTP\<close>

text \<open>
  C24. A client that polls with the ETag of an answer waits for the list to differ from the one it
  was shown: the ETag survives the way through the headers for every serial number.
\<close>

theorem poll_resumes_from_answer:
  assumes "rs_Etag (fst (listServices watchFn r w)) = Some tag" and "rq_PollEtag r' = tag"
  shows "checkPoll r' watchFn' v =
    watchFn' (listSerial (mgr (checkPoll r watchFn w))) (poll_seconds (rq_PollTime r')) v"
proof -
  have "tag = etag_of (listSerial (mgr (checkPoll r watchFn w)))"
    using assms(1) by (auto simp: listServices_def Services_def case_prod_beta Let_def cached_def
        notModified_def split: if_splits)
  then show ?thesis
    using assms(2) by (simp add: checkPoll_def poll_request_etag)
qed

definition plain_request :: request where
  "plain_request = \<lparr>rq_Method = GET, rq_Path = ''/'', rq_PollEtag = [], rq_PollTime = [], rq_IfNoneMatch = [], rq_IfModifiedSince = NoDate,
     rq_BasicAuth = None\<rparr>"

lemma poll_resumes_from_answer_witness:
  "checkPoll (plain_request\<lparr>rq_PollEtag := etag_of (listSerial (mgr sample_start))\<rparr>) (\<lambda>old t w. [old]) [] =
    [listSerial (mgr sample_start)]"
proof -
  have n: "checkPoll plain_request f w = w" for f :: "int64 \<Rightarrow> duration \<Rightarrow> 'w \<Rightarrow> 'w" and w
    by (simp add: checkPoll_def poll_request_def plain_request_def)
  have "rs_Etag (fst (listServices (\<lambda>_ _ w. w) plain_request sample_start)) =
      Some (etag_of (listSerial (mgr sample_start)))"
    unfolding listServices_def n
    by (simp add: Services_def case_prod_beta cached_def condCheckGet_def plain_request_def
        etag_of_def)
  from poll_resumes_from_answer [OF this, of _ "\<lambda>old t w. [old]" "[]"] show ?thesis by (simp add: n)
qed



text \<open>
  C26. The command \<open>govisor enable\<close> against a server that lets its user in: the call passes the password
  check and the router and finds the service by the name in its address, which has a plus sign for every
  space.  The command says that there is no service of that name, or that a conflicting one is enabled (which the
  server has answered with 400, never with the 409 that it has for it); otherwise it prints nothing and the service is enabled.
\<close>

theorem enable_command:
  assumes "inv w" and "parse_flags client_flags args = Parsed vs [''enable'', name]"
    and "load_roots ev (client_settings vs) = Inr roots" and "ce_Parse ev (co_addr (client_settings vs)) = Inr host"
    and "passes bcrypt h (make_client (client_settings vs))" and "routes_by_path mux" and "segment (seen_name name)"
    and "json_works marshal D"
  shows "\<exists>x w'. client_main ev (\<lambda>_. server_network (co_addr (client_settings vs))
        (MyHandler_ServeHTTP bcrypt h mux marshal P W n)) D others clock show_time show_duration args w =
      (Done (CommandEnd x), w') \<and> inv w' \<and>
    (if \<exists>s \<in> set (managed w). sname (svc w s) = seen_name name
     then \<exists>s \<in> set (managed w). sname (svc w s) = seen_name name \<and>
       (if \<not> enabled (svc w s) \<and> (\<exists>c \<in> set (incompat (svc w s)). enabled (svc w c))
        then x = FatalExit ''Error: Conflicting service enabled'' \<and>
          fst (client_EnableService (server_network (co_addr (client_settings vs)) (MyHandler_ServeHTTP bcrypt h mux marshal P W n)) D
            (make_client (client_settings vs)) name w) =
          Some (RestFailure \<lparr>re_Code = 400, re_Message = ''Conflicting service enabled''\<rparr>)
        else x = Output [] \<and> enabled (svc w' s))
     else x = FatalExit ''Error: Service not found'')"
proof -
  define c where "c = make_client (client_settings vs)"
  have base: "rc_base c = co_addr (client_settings vs)"
    by (simp add: c_def make_client_def NewClient_def SetAuth_def Let_def)
  have pass: "passes bcrypt h c" using assms(5) by (simp add: c_def)
  obtain res w' where r: "client_EnableService (server_network (rc_base c) (MyHandler_ServeHTTP bcrypt h mux marshal P W n)) D c name w =
      (res, w')" "inv w'"
    and answer: "if \<exists>s \<in> set (managed w). sname (svc w s) = seen_name name
     then \<exists>s \<in> set (managed w). sname (svc w s) = seen_name name \<and>
       (if \<not> enabled (svc w s) \<and> (\<exists>c \<in> set (incompat (svc w s)). enabled (svc w c))
        then res = Some (RestFailure \<lparr>re_Code = 400, re_Message = ''Conflicting service enabled''\<rparr>)
        else res = None \<and> enabled (svc w' s))
     else res = Some (RestFailure \<lparr>re_Code = 404, re_Message = ''Service not found''\<rparr>)"
    using client_enables_service [OF assms(1) pass assms(6-8)] by blast
  define x where "x = (case res of None \<Rightarrow> Output [] | Some e \<Rightarrow> FatalExit (fatal_text ''Error'' e))"
  have "client_main ev (\<lambda>_. server_network (co_addr (client_settings vs))
        (MyHandler_ServeHTTP bcrypt h mux marshal P W n)) D others clock show_time show_duration args w =
      (Done (CommandEnd x), w')"
    using r(1) unfolding base
    by (simp add: client_main_def assms(2-4) c_def [symmetric] run_command_def post_command_def x_def Let_def
        split: option.split)
  then show ?thesis
    using r(2) answer r(1) unfolding base c_def [symmetric] by (intro exI [of _ x] exI [of _ w'])
      (auto simp: x_def fatal_text_def error_message_def rest_error_text_def Let_def split: if_splits)
qed

text \<open>A server without passwords whose requests do not wait, and the client's view of its bodies.\<close>

definition open_door :: auth where
  "open_door = \<lparr>au_auth = False, au_passwd = [], au_name = ''govisord''\<rparr>"

lemma open_door [simp]: "passes bcrypt open_door c"
  by (simp add: passes_def open_door_def)

definition idle_waits :: "'p waits" where
  "idle_waits =
     \<lparr>wt_Serial = (\<lambda>_ _ w. w), wt_Services = (\<lambda>_ _ w. w), wt_Log = (\<lambda>_ _ w. w), wt_Service = (\<lambda>_ _ _ w. w),
      wt_ServiceLog = (\<lambda>_ _ _ w. w), wt_later = (\<lambda>_ w _. w), wt_zone = 0\<rparr>"

definition server_decoders :: "body decoders" where
  "server_decoders =
     \<lparr>de_Names = (\<lambda>b. case b of NamesBody ns \<Rightarrow> Inr ns | _ \<Rightarrow> Inl ''json''),
      de_Service = (\<lambda>b. case b of ServiceBody e \<Rightarrow> Inr e | _ \<Rightarrow> Inl ''json''),
      de_Manager = (\<lambda>b. case b of ManagerBody e \<Rightarrow> Inr e | _ \<Rightarrow> Inl ''json''),
      de_Log = (\<lambda>b. case b of LogBody es \<Rightarrow> Inr es | _ \<Rightarrow> Inl ''json''),
      de_Error = (\<lambda>b _. case b of ErrorBody e \<Rightarrow> Some e | _ \<Rightarrow> None)\<rparr>"

lemma server_decoders: "json_works (\<lambda>_. None) server_decoders"
  by (simp add: json_works_def server_decoders_def)

definition sample_client_env :: client_env where
  "sample_client_env = \<lparr>ce_Create = (\<lambda>_. True), ce_ReadFile = Inr, ce_Walk = (\<lambda>_. []), ce_Parse = Inr\<rparr>"

lemma enable_command_witness:
  "\<exists>w w'. sample_running w \<and> client_main sample_client_env (\<lambda>_. server_network ''u'' (MyHandler_ServeHTTP (=) open_door sample_router
      (\<lambda>_. None) sample_provider idle_waits 1)) server_decoders (\<lambda>c. c) int (\<lambda>_. []) (\<lambda>_. [])
      [''-addr'', ''u'', ''enable'', ''none''] w = (Done (CommandEnd (FatalExit ''Error: Service not found'')), w')"
proof -
  obtain w where w: "sample_running w" using sample_running by blast
  then have i: "inv w" and n: "sample_names w" and m: "managed w = [2, 1, 0]"
    by (simp_all add: sample_running_def)
  have no: "\<not> (\<exists>s \<in> set (managed w). sname (svc w s) = seen_name ''none'')"
    using sample_names_fields [OF n] by (auto simp: m)
  have args: "parse_flags client_flags [''-addr'', ''u'', ''enable'', ''none''] = Parsed [(''addr'', StringValue ''u'')] [''enable'', ''none'']"
    by code_simp
  have opt: "co_addr (client_settings [(''addr'', StringValue ''u'')]) = ''u''"
    "co_cafile (client_settings [(''addr'', StringValue ''u'')]) = []" "co_capath (client_settings [(''addr'', StringValue ''u'')]) = []"
    by code_simp+
  have env: "load_roots sample_client_env (client_settings [(''addr'', StringValue ''u'')]) = Inr None"
    "ce_Parse sample_client_env (co_addr (client_settings [(''addr'', StringValue ''u'')])) = Inr ''u''"
    by (simp_all add: load_roots_def opt sample_client_env_def)
  have seg: "segment (seen_name ''none'')" by (simp add: segment_def)
  from enable_command [where D = server_decoders and marshal = "\<lambda>_. None" and n = 1 and P = sample_provider
      and W = idle_waits and bcrypt = "(=)" and others = "\<lambda>c. c" and clock = int and show_time = "\<lambda>_. []"
      and show_duration = "\<lambda>_. []", OF i args env open_door sample_router_path seg server_decoders]
  show ?thesis using w unfolding if_not_P [OF no] opt by auto
qed

text \<open>
  C27. The answer about a service is a snapshot.  While the loop of \<open>getService\<close> reads the service, any operations may run
  between two readings.  If the service keeps its serial number for a while at some time (\<open>m\<close> is the reading at which
  that begins), the loop ends, and what it answers is what the service showed at one moment, although it
  is put together from ten readings.  The serial number tells states apart as long as less than \<open>2 ^ 64\<close> nanoseconds pass
  after the start of the manager.
\<close>

theorem service_answer_is_snapshot:
  assumes "reachable P A (new_world name V c r) (W 0)" and "blank V" and "permutes_keys r"
    and "\<And>i. reachable P A (W i) (W (Suc i))" and "\<And>i. i \<le> m + 20 \<Longrightarrow> s \<in> set (managed (W i))"
    and "findService service w = (Inr s, w1)" and "W = reads s (checkPoll q (watchService s) w1)"
    and "\<And>i. c i < c (Suc i)" and "now (W (m + 20)) - reading c < 2 ^ 64"
    and "\<And>i. m \<le> i \<Longrightarrow> i \<le> m + 20 \<Longrightarrow> Serial (svc (W i) s) = Serial (svc (W m) s)"
  shows "\<exists>n t i. i \<le> t \<and> t \<le> m + 20 \<and> getService n watchService reads service q w =
    Some (service_response q (read_entry (\<lambda>_. svc (W i) s) 0), W t)"
proof -
  let ?v = "new_world name V c r"
  have i0: "inv ?v" by (rule blank_inv [OF assms(3,2)])
  have i: "inv (W i)" for i
    by (rule history_inv [where W = W, OF reachable_inv [OF assms(1) i0] assms(4)])
  have h: "has_mgr (svc (W i) s)" if "i \<le> m + 20" for i
    using inv_parts(2) [OF i] assms(5) [OF that] by (simp add: graph_ok_def)
  obtain k where k: "clk ?v = readings_after c k" using new_world_clock [where c = c and name = name and V = V and r = r] by (auto simp: passes_on_def)
  then have clock: "clk ?v i < clk ?v (Suc i)" "now (W (m + 20)) - now ?v < 2 ^ 64" for i
    using assms(8) [of "k + i"] readings_pass [of c 0 k, OF assms(8)] assms(9) by (simp_all add: readings_after_def)
  have new: "\<not> has_mgr (svc ?v u)" for u
    using assms(2) by (simp add: blank_def new_world_def case_prod_beta)
  have "read_entry (\<lambda>i. svc (W i) s) t = read_entry (\<lambda>_. svc (W t) s) 0"
    if t: "t + 10 \<le> m + 20" and same: "Serial (svc (W t) s) = Serial (svc (W (t + 10)) s)" for t
  proof (rule shown_entry)
    have "s_serial (svc (W (t + 10)) s) = s_serial (svc (W t) s)" using same h t by (simp add: Serial_def)
    then show "shown (svc (W (t + k)) s) = shown (svc (W t) s) \<and> \<not> stopping (svc (W (t + k)) s)" if "k \<le> 9" for k
      using same_number_same_history [where W = W and i = t and k = "t + k" and j = "t + 10", OF i0 new assms(1,4) clock h]
        t that inv_parts(4) [OF i] by (simp add: service_ok_def)
    show "\<not> stopping (svc (W t) s)" using inv_parts(4) [OF i] by (simp add: service_ok_def)
  qed
  from read_service_ends [OF this assms(10)] show ?thesis
    using assms(6) unfolding getService_def assms(7) [symmetric] by (fastforce simp: Let_def assms(7) [symmetric])
qed

text \<open>A manager with one service, eleven readings of the clock after its start.\<close>

lemma sample_added:
  "\<exists>w. reachable sample_provider gentle sample_start w \<and> now w = 11 \<and> managed w = [0] \<and> sname (svc w 0) = ''db'' \<and>
    findService ''db'' w = (Inr 0, w\<lparr>ord := next_order (ord w)\<rparr>)"
proof -
  let ?w = "NewService sample_provider db 0 sample_start"
  have r: "reachable sample_provider gentle sample_start ?w"
    by (rule reachable_step [OF reachable_start, of _ "OpNew 0 db"])
      (simp_all add: sample_start_def new_world_def NewManager_def Let_def case_prod_beta)
  obtain w where w: "AddService 0 ?w = Done (None, w)" "now w = 11" "managed w = [0]" "sname (svc w 0) = ''db''" "ord w = (\<lambda>_ ks. ks)"
    by (simp add: AddService_def name_taken_def NewService_def setManager_def sample_start_def new_world_def NewManager_def
        NewLog_def prov_SetProperty_def sample_provider_def db_def service_defaults_def Let_def getLogger_def
        ml_AddLogger_def NewMultiLogger_def s_logf_def ml_Write_def log_text_def text_lines_def trim_newlines_def
        stamp_now_def tick_def next_reading_def upd_def manager_write_def case_prod_beta log_Write_clock
        readings_after_def m_logf_def list_changed_def bumpSerial_def set_listSerial_def set_listStamp_def make_parents_def)
  have "reachable sample_provider gentle sample_start w"
    by (rule reachable_step [OF r, of "OpAdd 0"]) (simp_all add: w(1))
  then show ?thesis
    using w by (auto simp: findService_def Services_def range_keys_def)
qed

lemma service_answer_is_snapshot_witness:
  "\<exists>(w :: sample world) n x. managed w = [0] \<and> getService n (\<lambda>_ _ _ w. w) (\<lambda>_ w _. w) ''db'' plain_request w = Some x"
proof -
  obtain w where w: "reachable sample_provider gentle sample_start w" "now w = 11" "managed w = [0]"
      "findService ''db'' w = (Inr 0, w\<lparr>ord := next_order (ord w)\<rparr>)"
    using sample_added by blast
  let ?w = "w\<lparr>ord := next_order (ord w)\<rparr>"
  have "reachable sample_provider gentle sample_start ?w"
    by (rule reachable_step [OF w(1), of OpServices]) (simp_all add: Services_def range_keys_def)
  then have r: "reachable sample_provider gentle (new_world ''sample'' (\<lambda>_. service_defaults sample_provider db)
      int (\<lambda>_ ks. ks)) ?w" by (simp add: sample_start_def)
  have "\<exists>n t i. i \<le> t \<and> t \<le> 0 + (20 :: nat) \<and> getService n (\<lambda>_ _ _ w. w) (\<lambda>_ w _. w) ''db'' plain_request w =
      Some (service_response plain_request (read_entry (\<lambda>_. svc ?w 0) 0), ?w)"
    by (rule service_answer_is_snapshot [where W = "\<lambda>_. ?w" and c = int, OF r blank_defaults identity_order reachable_start])
      (simp_all add: w checkPoll_def poll_request_def plain_request_def)
  then show ?thesis using w(3) by blast
qed

text \<open>
  C28. Once a password file has been read, a request passes exactly when it carries the name of a
  user of the file and a password that \<open>bcrypt\<close> accepts for the last record of that user (or for
  the password given on the command line, when the file has none).
\<close>

theorem only_known_users_pass:
  assumes "load_passwd (map Inr recs) h = (e, h')"
  shows "e = None \<and> (authenticate bcrypt h' r = None \<longleftrightarrow> (\<exists>user pass enc. rq_BasicAuth r = Some (user, pass) \<and>
    map_of (rev recs @ au_passwd h) user = Some enc \<and> bcrypt enc pass))"
proof -
  have h': "e = None \<and> au_auth h' \<and> (\<forall>user. map_of (au_passwd h') user = map_of (rev recs @ au_passwd h) user)"
    using assms
  proof (induction recs arbitrary: h)
    case (Cons x recs)
    then show ?case by (cases x) (fastforce simp: map_add_def update_conv' split: option.splits)
  qed auto
  then show ?thesis by (auto simp: authenticate_def split: option.splits)
qed

lemma only_known_users_pass_witness:
  "authenticate (\<lambda>enc pass. enc = pass) (snd (load_passwd [Inr (''joe'', ''x''), Inr (''joe'', ''y'')]
     \<lparr>au_auth = False, au_passwd = [], au_name = ''n''\<rparr>))
     (plain_request\<lparr>rq_BasicAuth := Some (''joe'', ''y'')\<rparr>) = None"
proof -
  let ?l = "load_passwd (map Inr [(''joe'', ''x''), (''joe'', ''y'')]) \<lparr>au_auth = False, au_passwd = [], au_name = ''n''\<rparr>"
  have "?l = (fst ?l, snd ?l)" by simp
  from only_known_users_pass [OF this, of "\<lambda>enc pass. enc = pass"
      "plain_request\<lparr>rq_BasicAuth := Some (''joe'', ''y'')\<rparr>"]
  show ?thesis by simp
qed

text \<open>
  C16. Whatever arrives at the server leaves the manager in order, as long as the methods of the providers return.  No request panics,
  and each keeps the invariant if what other goroutines do while its handler waits does.  Each is answered, except the reading of a service
  that gets a new serial number in each of the \<open>n\<close> turns of the loop (C27 says when the loop ends).  A request that is not let in is answered 401 and changes nothing; one that
  does not post changes no service.
\<close>

theorem requests_are_safe:
  assumes "inv w" and "waits_keep (\<lambda>w w'. inv w \<longrightarrow> inv w') W"
  shows "\<exists>x. MyHandler_ServeHTTP bcrypt h mux marshal P W n r w = Done x \<and>
    (x = None \<longrightarrow> (\<exists>name s w1. mux handler_routes r = Inr (EpService, name) \<and> findService name w = (Inr s, w1) \<and>
      restless W n s (checkPoll r (wt_Service W s) w1))) \<and>
    (\<forall>resp w'. x = Some (resp, w') \<longrightarrow> inv w' \<and>
      (authenticate bcrypt h r \<noteq> None \<longrightarrow> w' = w \<and> rs_Status resp = 401) \<and>
      (waits_keep still W \<and> routes_by_method mux \<and> rq_Method r \<noteq> POST \<longrightarrow>
        managed w' = managed w \<and> (\<forall>u. flags_of (svc w' u) = flags_of (svc w u) \<and> starts (svc w' u) = starts (svc w u))))"
proof -
  obtain x where x: "MyHandler_ServeHTTP bcrypt h mux marshal P W n r w = Done x"
      "case x of None \<Rightarrow> authenticate bcrypt h r = None \<and> (\<exists>name. mux handler_routes r = Inr (EpService, name))
       | Some (resp, w') \<Rightarrow> inv w'"
    using ServeHTTP_returns [OF assms, of bcrypt h mux marshal P n r] by (auto simp: returns_iff)
  have reads: "managed w' = managed w \<and> (\<forall>u. flags_of (svc w' u) = flags_of (svc w u) \<and> starts (svc w' u) = starts (svc w u))"
    if "x = Some (resp, w')" "waits_keep still W" "routes_by_method mux" "rq_Method r \<noteq> POST" for resp w'
    using ServeHTTP_reads [OF that(2,3) x(1) [unfolded that(1)]] that(4) by (auto simp: still_def frame_def)
  have refused: "w' = w \<and> rs_Status resp = 401" if "x = Some (resp, w')" "authenticate bcrypt h r \<noteq> None" for resp w'
    using x(1) that by (auto simp: MyHandler_ServeHTTP_def authenticate_def needAuth_def http_Error_def
        StatusUnauthorized_def split: if_splits option.splits)
  have "inv w' \<and> (authenticate bcrypt h r \<noteq> None \<longrightarrow> w' = w \<and> rs_Status resp = 401) \<and>
      (waits_keep still W \<and> routes_by_method mux \<and> rq_Method r \<noteq> POST \<longrightarrow> managed w' = managed w \<and>
        (\<forall>u. flags_of (svc w' u) = flags_of (svc w u) \<and> starts (svc w' u) = starts (svc w u)))"
    if "x = Some (resp, w')" for resp w'
    using x(2) that by (intro conjI impI refused [OF that] reads [OF that]) simp_all
  moreover have "\<exists>name s w1. mux handler_routes r = Inr (EpService, name) \<and> findService name w = (Inr s, w1) \<and>
      restless W n s (checkPoll r (wt_Service W s) w1)" if "x = None"
    by (rule unanswered [OF x(1) [unfolded that]])
  ultimately show ?thesis using x(1) by (intro exI [of _ x]) simp
qed

lemma requests_are_safe_witness:
  "\<exists>w resp w'. sample_running w \<and> MyHandler_ServeHTTP (=) (open_door\<lparr>au_auth := True\<rparr>) sample_router (\<lambda>_. None)
      sample_provider idle_waits 1 plain_request w = Done (Some (resp, w')) \<and> rs_Status resp = 401 \<and> w' = w"
proof -
  obtain w where w: "sample_running w" using sample_running by blast
  then have i: "inv w" by (simp add: sample_running_def)
  have idle: "waits_keep (\<lambda>w w'. inv w \<longrightarrow> inv w') idle_waits" by (simp add: waits_keep_def idle_waits_def)
  have a: "authenticate (=) (open_door\<lparr>au_auth := True\<rparr>) plain_request \<noteq> None"
    by (simp add: authenticate_def open_door_def plain_request_def)
  have "mux handler_routes plain_request \<noteq> Inr (EpService, name)" if "mux = sample_router" for mux name
    using that sample_router_fixed(1) [of plain_request] by (simp add: plain_request_def)
  then show ?thesis
    using requests_are_safe [OF i idle, of "(=)" "open_door\<lparr>au_auth := True\<rparr>" sample_router "\<lambda>_. None"
      sample_provider 1 plain_request] a w by (metis option.exhaust surj_pair)
qed

section \<open>Processes\<close>

text \<open>
  C29. In the life of a process made from a manifest, \<open>Check\<close> reports an error exactly while the
  process has failed.  After \<open>Start\<close> it says what \<open>Start\<close> returned.  The end of the process is a failure when it was not asked for and the
  process exited with an error or must not exit (the clean exit of one that may exit is none); stopping it never is, and leaves no process.
\<close>

theorem process_reports_failures:
  assumes "process_run os (process_of_manifest m, w0) (p, w)"
  shows "(process_Check p \<noteq> None \<longleftrightarrow> pr_failed p) \<and>
    (process_Start os p w = Done (r, p1, out, w1) \<longrightarrow> process_Check p1 = r) \<and>
    process_Check (fst (doWait e p)) =
      (if pr_stopped p \<or> e = None \<and> \<not> pr_failOnExit p then process_Check p
       else Some (case e of Some er \<Rightarrow> er | None \<Rightarrow> OtherError ''Unexpected termination'')) \<and>
    process_Check (fst (process_Stop os p w)) = process_Check p \<and>
    pr_process (fst (process_Stop os p w)) = None"
proof -
  have ok: "process_ok p" using process_run_ok [OF assms] new_process_ok by simp
  obtain p' out w' where s: "process_Stop os p w = (p', out, w')" by (metis prod_cases3)
  have "process_Check p' = process_Check p" "pr_process p' = None"
    using process_Stop_fields [OF s] by (simp_all add: process_Check_def)
  then have "process_Check (fst (process_Stop os p w)) = process_Check p \<and>
      pr_process (fst (process_Stop os p w)) = None" by (simp add: s)
  moreover have "process_Check p \<noteq> None \<longleftrightarrow> pr_failed p"
    using ok by (simp add: process_Check_def process_ok_def)
  ultimately show ?thesis
    by (simp add: doWait_Check process_Start_Check)
qed

text \<open>A manifest, and a system on which every call succeeds.\<close>

definition sample_manifest :: manifest where
  "sample_manifest =
     \<lparr>mf_Name = ''p'', mf_Description = [], mf_Command = [''/bin/p''], mf_Env = [], mf_StopCmd = [],
      mf_StopTime = 0, mf_FailOnExit = True, mf_CheckCmd = [], mf_Restart = False, mf_Provides = [],
      mf_Depends = [], mf_Conflicts = [], mf_Directory = []\<rparr>"

definition sample_os :: "unit os_calls" where
  "sample_os =
     \<lparr>os_Pipe = (\<lambda>w. (None, w)), os_Start = (\<lambda>_ w. (Inr 7, w)), os_Terminate = (\<lambda>_ w. (None, w)), os_Kill = (\<lambda>_ w. (None, w)),
      os_Wait = (\<lambda>_ w. (None, w)), os_WaitFor = (\<lambda>_ _ w. (Ended None, w)), os_Environ = []\<rparr>"

lemma process_reports_failures_witness:
  "\<exists>p. process_run sample_os (process_of_manifest sample_manifest, ()) (p, ()) \<and> pr_process p = Some 7 \<and>
    process_Check (fst (doWait None p)) = Some (OtherError ''Unexpected termination'')"
proof -
  let ?start = "process_of_manifest sample_manifest"
  let ?p = "?start\<lparr>pr_process := Some 7, pr_waiter := 1\<rparr>"
  have "process_Start sample_os ?start () = Done (None, ?p, [], ())"
    by (simp add: process_Start_def start_command_def captured_def StdoutPipe_def StderrPipe_def sample_os_def process_of_manifest_def sample_manifest_def
        zero_process_def command_of_def print_log_def)
  then have "process_step sample_os (?start, ()) (?p, ())"
    by (rule process_step.ps_start [rotated]) (simp add: process_of_manifest_def zero_process_def)
  then have run: "process_run sample_os (?start, ()) (?p, ())"
    by (rule process_run.pr_step [OF process_run.pr_begin])
  from process_reports_failures [OF run, of None] run show ?thesis
    by (intro exI [of _ ?p]) (simp add: process_of_manifest_def zero_process_def sample_manifest_def)
qed

text \<open>
  C30. The end of a process is noticed.  A process of a service that runs ends without being
  asked to, with an error or although it must not exit.  When the manager comes to the service next, either the service is started once
  more and runs, if it is to be restarted; or it has failed, with the error of the process if it was not started again (because it must
  not, cannot run now or has used up its starts), with the error of \<open>Start\<close> otherwise.  The clean exit of
  a process that may exit is no failure, and the service counts as running.  If every process has a command, none panics.
\<close>

theorem process_end_is_noticed:
  assumes "inv w" and "s \<in> set (managed w)" and "running (svc w s)" and "all_ready w"
    and "prov (svc w s) = (p, k, b)" and "\<not> pr_failed p" and "\<not> pr_stopped p"
  shows "\<exists>w1 w'. exec (process_provider os) (OpActs s (fst (doWait e p), k, b) (snd (doWait e p))) w = Done w1 \<and>
    check_and_heal (process_provider os) s w1 = Done w' \<and> inv w' \<and> all_ready w' \<and>
    (if e = None \<and> \<not> pr_failOnExit p
     then running (svc w' s) \<and> starts (svc w' s) = starts (svc w s)
     else if running (svc w' s) then restart (svc w s) \<and> starts (svc w' s) = starts (svc w s) + 1
     else failed (svc w' s) \<and>
       (starts (svc w' s) = starts (svc w s) \<and> \<not> (restart (svc w s) \<and> can_run w' s \<and> \<not> limited (svc w' s)) \<and>
          err (svc w' s) = Some (case e of Some er \<Rightarrow> er | None \<Rightarrow> OtherError ''Unexpected termination'') \<or>
        restart (svc w s) \<and> starts (svc w' s) = starts (svc w s) + 1 \<and>
          (\<exists>q x er r. process_Start os q x = Done (Some er, r) \<and> err (svc w' s) = Some er)))"
proof -
  let ?P = "process_provider os"
  let ?er = "case e of Some er \<Rightarrow> er | None \<Rightarrow> OtherError ''Unexpected termination''"
  let ?w1 = "provider_prints (snd (doWait e p)) (upd s (\<lambda>S. S\<lparr>prov := (fst (doWait e p), k, b)\<rparr>) w)"
  have st: "still w ?w1" by (rule still_trans [OF still_fields(1) still_prints])
  have w1: "inv ?w1" "s \<in> set (managed ?w1)" "running (svc ?w1 s)"
    using still_inv [OF st assms(1)] assms(2,3) by (simp_all add: still_flags [OF st])
  have same: "starts (svc ?w1 s) = starts (svc w s)" "restart (svc ?w1 s) = restart (svc w s)"
    using still_frame [OF st] by (simp_all add: still_flags [OF st] frame_def)
  have "ready (p, k, b)" using assms(4,5) by (metis all_ready_def)
  then have "all_ready ?w1" using assms(4) by (simp add: all_ready_def ready_def doWait_startCmd)
  then have ready: "all_ready w'" if "check_and_heal ?P s ?w1 = Done w'" for w'
    using yields_DoneD [OF processes.R_check_and_heal that] by blast
  have check: "fst (pCheck ?P (prov (svc ?w1 s))) = (if e = None \<and> \<not> pr_failOnExit p then None else Some ?er)"
    using assms(6,7) by (simp add: process_provider_def doWait_Check) (simp add: process_Check_def)
  show ?thesis
  proof (cases "e = None \<and> \<not> pr_failOnExit p")
    case True
    then show ?thesis
      using check_and_heal_fault [OF w1, of ?P] check ready by (auto simp: returns_iff keeps_def same)
  next
    case False
    obtain w' where h: "check_and_heal ?P s ?w1 = Done w'" "keeps ?w1 w'"
      and out: "if running (svc w' s) then restart (svc w s) \<and> starts (svc w' s) = starts (svc w s) + 1
        else failed (svc w' s) \<and>
          (starts (svc w' s) = starts (svc w s) \<and> err (svc w' s) = Some ?er \<and> \<not> (restart (svc w s) \<and> waiting w' s) \<or>
           restart (svc w s) \<and> starts (svc w' s) = starts (svc w s) + 1 \<and>
             (\<exists>q er. fst (pStart ?P q) = Some er \<and> err (svc w' s) = Some er))"
      using fault_outcome [OF w1, of ?P ?er] check False unfolding same returns_iff by auto
    have "s \<in> set (managed w')" using keeps_inv [OF h(2)] w1(2) by simp
    then have "waiting w' s \<longleftrightarrow> can_run w' s \<and> \<not> limited (svc w' s)" if "\<not> running (svc w' s)"
      using that by (simp add: waiting_def)
    moreover have "\<exists>q x er r. process_Start os q x = Done (Some er, r) \<and> err (svc w' s) = Some er"
      if "fst (pStart ?P q) = Some er" "err (svc w' s) = Some er" for q er
      using start_error [of os "fst q" "fst (snd q)" "snd (snd q)" er] that unfolding prod.collapse by blast
    ultimately have "if running (svc w' s) then restart (svc w s) \<and> starts (svc w' s) = starts (svc w s) + 1
     else failed (svc w' s) \<and>
       (starts (svc w' s) = starts (svc w s) \<and> \<not> (restart (svc w s) \<and> can_run w' s \<and> \<not> limited (svc w' s)) \<and>
          err (svc w' s) = Some ?er \<or>
        restart (svc w s) \<and> starts (svc w' s) = starts (svc w s) + 1 \<and>
          (\<exists>q x er r. process_Start os q x = Done (Some er, r) \<and> err (svc w' s) = Some er))"
      using out by (auto split: if_splits)
    then show ?thesis
      unfolding if_not_P [OF False]
      by (intro exI [of _ ?w1] exI [of _ w'] conjI) (use h ready [OF h(1)] keeps_inv [OF h(2)] in simp_all)
  qed
qed

text \<open>A manager with one service, the process of the sample manifest, which runs.\<close>

definition running_process :: "unit proc world" where
  "running_process =
     (let p = (process_of_manifest sample_manifest)\<lparr>pr_process := Some 7, pr_waiter := 1\<rparr>;
          S = service_defaults (process_provider sample_os) (p, (), False);
          w = new_world ''sample'' (\<lambda>u. if u = 0 then S\<lparr>has_mgr := True, enabled := True, running := True\<rparr>
            else S) int (\<lambda>_ ks. ks)
      in w\<lparr>mgr := (mgr w)\<lparr>services := [0]\<rparr>\<rparr>)"

lemma running_process_fields:
  "managed running_process = [0]" "running (svc running_process u) = (u = 0)"
  "enabled (svc running_process u) = (u = 0)" "has_mgr (svc running_process u) = (u = 0)"
  "ord running_process = (\<lambda>_ ks. ks)"
  "links_of (svc running_process u) = ([], [], [])"
  "depends (svc running_process u) = []" "conflicts (svc running_process u) = []"
  "restart (svc running_process u) = False" "service_ok (svc running_process u)"
  "rate_ok (svc running_process u)"
  "prov (svc running_process u) = ((process_of_manifest sample_manifest)\<lparr>pr_process := Some 7, pr_waiter := 1\<rparr>, (), False)"
  by (simp_all add: running_process_def Let_def new_world_def case_prod_beta service_defaults_def
      process_provider_def process_of_manifest_def sample_manifest_def zero_process_def links_of_def
      service_ok_def rate_ok_def)

lemma running_process_inv: "inv running_process"
proof -
  have "parents (svc running_process u) = []" "children (svc running_process u) = []"
    "incompat (svc running_process u) = []" for u
    using running_process_fields(6) [of u] by (simp_all add: links_of_def)
  then show ?thesis
    by (auto simp: inv_def base_ok_def graph_ok_def links_def keys_of_def exclusive_def satisfied_def
        running_process_fields)
qed

lemma process_end_is_noticed_witness:
  "\<exists>p w1 w'. prov (svc running_process 0) = (p, (), False) \<and> pr_process p = Some 7 \<and>
    exec (process_provider sample_os) (OpActs 0 (fst (doWait None p), (), False) (snd (doWait None p))) running_process = Done w1 \<and>
    check_and_heal (process_provider sample_os) 0 w1 = Done w' \<and> failed (svc w' 0) \<and> \<not> running (svc w' 0) \<and>
    err (svc w' 0) = Some (OtherError ''Unexpected termination'')"
proof -
  obtain p where pc: "prov (svc running_process 0) = (p, (), False)" "pr_process p = Some 7"
    and p: "\<not> pr_failed p" "\<not> pr_stopped p" "pr_failOnExit p"
    by (simp add: running_process_fields process_of_manifest_def sample_manifest_def zero_process_def)
  have "0 \<in> set (managed running_process)" "running (svc running_process 0)" "\<not> restart (svc running_process 0)"
    by (simp_all add: running_process_fields)
  moreover have "all_ready running_process"
    by (simp add: all_ready_def ready_def running_process_fields process_of_manifest_def sample_manifest_def command_of_def)
  ultimately show ?thesis
    using process_end_is_noticed [OF running_process_inv _ _ _ pc(1) p(1,2), where e = None and os = sample_os] p(3) pc
    by (auto split: if_splits)
qed

section \<open>What the clients show\<close>

text \<open>
  C32. The list of services, with distinct names as a manager guarantees them.  Whatever algorithm sorts it by the comparison of the command line
  client, or by that of the terminal interface, there is one result: the failed services, then the others, in both the enabled before the
  disabled ones, and each of these four groups by name.  \<open>SortServices\<close> is that list.
\<close>

theorem list_order_is_unique:
  assumes "distinct (map se_Name items)"
  shows "(mset ys = mset items \<and> sorted_wrt (\<lambda>a b. \<not> Less b a) ys \<longleftrightarrow> ys = listed items) \<and>
    (mset ys = mset items \<and> sorted_wrt (\<lambda>a b. \<not> panel_Less b a) ys \<longleftrightarrow> ys = listed items) \<and>
    SortServices items = listed items"
  using listed_unique [OF assms, of ys] listed_unique [OF assms, of "SortServices items"] SortServices_mset SortServices_order
  by (simp add: panel_Less_is_Less in_order_def)

definition sample_entry :: "string \<Rightarrow> bool \<Rightarrow> service_entry" where
  "sample_entry name bad =
     \<lparr>se_Name = name, se_Description = [], se_Enabled = True, se_Running = \<not> bad, se_Failed = bad,
      se_Provides = [], se_Depends = [], se_Conflicts = [], se_Status = [], se_TimeStamp = 0, se_Serial = []\<rparr>"

lemma list_order_is_unique_witness:
  "SortServices [sample_entry ''a'' False, sample_entry ''b'' True] = listed [sample_entry ''a'' False, sample_entry ''b'' True]"
proof -
  have "distinct (map se_Name [sample_entry ''a'' False, sample_entry ''b'' True])"
    by (simp add: sample_entry_def)
  from list_order_is_unique [OF this] show ?thesis by blast
qed

section \<open>The client against the server\<close>



section \<open>The daemon\<close>

text \<open>
  C35. The daemon, started with any arguments in any environment in which every manifest that can be decoded names a command, returns from
  its start (a manifest that cannot be read or a name that is taken is passed over): it has ended, or it listens where the flags say; it
  never serves without a password check when \<open>-passwd\<close> or \<open>-passfile\<close> asked for one; each service is enabled or
  conflicts with one that is, unless \<open>-enable=false\<close>; and the manager is called \<open>govisord\<close>, whatever the flag
  \<open>-name\<close> says.  No process panics, whatever the kernel answers (without a command one does: \<open>enabling_without_command_panics\<close>).  A
  signal then stops every service and ends it.
\<close>

theorem daemon_serves_as_told:
  assumes "fresh_files ev" and "blank V" and "permutes_keys r" and "\<And>u. ready (prov (V u))"
    and "\<forall>f m. ev_Open ev f = Opened (Inr m) \<longrightarrow> mf_Command m \<noteq> []"
  shows "\<exists>x. daemon_main os k ev args (new_world ''govisord'' V c r) = Done x \<and>
    (\<forall>ln h w. x = Running_daemon ln h w \<longrightarrow>
      (\<exists>vs rest. parse_flags daemon_flags args = Parsed vs rest \<and> ln = listener_of (daemon_settings vs) \<and>
        (do_genpass (daemon_settings vs) \<noteq> [] \<or> do_passFile (daemon_settings vs) \<noteq> [] \<longrightarrow> au_auth h) \<and>
        (do_enable (daemon_settings vs) \<longrightarrow> (\<forall>s \<in> set (managed w). enabled (svc w s) \<or>
          (\<exists>t \<in> set (managed w). t \<noteq> s \<and> conflicting (svc w s) (svc w t) \<and> enabled (svc w t))))) \<and>
      inv w \<and> all_ready w \<and> manager_Name w = ''govisord'' \<and>
      (\<exists>w'. daemon_signal os w = Done (1, w') \<and> managed w' = [] \<and> (\<forall>u. \<not> running (svc w' u))))"
proof -
  let ?w = "new_world ''govisord'' V c r"
  have w: "inv ?w" "managed ?w = []" "m_name (mgr ?w) = ''govisord''" "all_ready ?w"
    using blank_inv [OF assms(3,2)] assms(4) by (simp_all add: all_ready_def) (simp add: new_world_def case_prod_beta assms(4))
  obtain x where x: "daemon_main os k ev args ?w = Done x"
      "\<And>ln h w. x = Running_daemon ln h w \<Longrightarrow> \<exists>vs rest. parse_flags daemon_flags args = Parsed vs rest \<and> inv w \<and> all_ready w \<and>
        m_name (mgr w) = ''govisord'' \<and> ln = listener_of (daemon_settings vs) \<and>
        (do_genpass (daemon_settings vs) \<noteq> [] \<or> do_passFile (daemon_settings vs) \<noteq> [] \<longrightarrow> au_auth h) \<and>
        (do_enable (daemon_settings vs) \<longrightarrow> (\<forall>s \<in> set (managed w). settled w s))"
    using daemon_main_spec [where os = os and k = k and args = args and ev = ev, OF w(1,2) assms(1) w(4) assms(5)]
    unfolding returns_iff w(3) by (elim exE conjE) (rule that, assumption, blast)
  have signal: "\<exists>w'. daemon_signal os w = Done (1, w') \<and> managed w' = [] \<and> (\<forall>u. \<not> running (svc w' u))" if "inv w" for w
    using Shutdown_spec [OF that, of "process_provider os"] by (auto simp: daemon_signal_def returns_iff)
  have "(\<exists>vs rest. parse_flags daemon_flags args = Parsed vs rest \<and> ln = listener_of (daemon_settings vs) \<and>
      (do_genpass (daemon_settings vs) \<noteq> [] \<or> do_passFile (daemon_settings vs) \<noteq> [] \<longrightarrow> au_auth h) \<and>
      (do_enable (daemon_settings vs) \<longrightarrow> (\<forall>s \<in> set (managed w). enabled (svc w s) \<or>
        (\<exists>t \<in> set (managed w). t \<noteq> s \<and> conflicting (svc w s) (svc w t) \<and> enabled (svc w t))))) \<and>
    inv w \<and> all_ready w \<and> m_name (mgr w) = ''govisord''" if "x = Running_daemon ln h w" for ln h w
    using x(2) [OF that] settled_names [of w] by blast
  then show ?thesis unfolding manager_Name_def using x(1) signal by blast
qed

text \<open>The services of the sample start as processes of its manifest.\<close>

definition sample_process :: "unit proc" where
  "sample_process = (process_of_manifest sample_manifest, (), False)"

lemma sample_process_ready: "ready sample_process"
  by (simp add: sample_process_def ready_def process_of_manifest_def sample_manifest_def command_of_def)

text \<open>A system on which everything succeeds, with a manifest and a file that is none.\<close>

definition sample_env :: daemon_env where
  "sample_env =
     \<lparr>ev_OpenFile = (\<lambda>_. None), ev_Generate = Inr, ev_Stat = (\<lambda>_. False), ev_Passwd = (\<lambda>_. Inr []),
      ev_Listen = (\<lambda>_. None), ev_Readdirnames = (\<lambda>_. Files [(0, ''p.json''), (1, ''x'')]),
      ev_Open = (\<lambda>f. if f = ''services/p.json'' then Opened (Inr sample_manifest) else CannotOpen ''no'')\<rparr>"

lemma sample_listens: "ev_Listen sample_env ln = None"
  by (simp add: sample_env_def)

lemma daemon_serves_as_told_witness:
  "\<exists>ln h w w'. daemon_main sample_os () sample_env [''-passwd'', ''joe:x'', ''-enable=false'']
      (new_world ''govisord'' (\<lambda>_. service_defaults (process_provider sample_os) sample_process) int (\<lambda>_ ks. ks)) =
        Done (Running_daemon ln h w) \<and> ln_addr ln = ''127.0.0.1:8321'' \<and> au_auth h \<and> inv w \<and>
    daemon_signal sample_os w = Done (1, w')"
proof -
  let ?args = "[''-passwd'', ''joe:x'', ''-enable=false'']"
  let ?w = "new_world ''govisord'' (\<lambda>_. service_defaults (process_provider sample_os) sample_process) int (\<lambda>_ ks. ks)"
  have d: "fresh_files sample_env" by (auto simp: fresh_files_def sample_env_def)
  have b: "blank (\<lambda>_. service_defaults (process_provider sample_os) sample_process)" "permutes_keys (\<lambda>_ ks. ks)"
    by (simp_all add: permutes_keys_def blank_defaults)
  have p: "ready (prov (service_defaults (process_provider sample_os) sample_process))"
    by (simp add: service_defaults_def sample_process_ready)
  have cmds: "\<forall>f m. ev_Open sample_env f = Opened (Inr m) \<longrightarrow> mf_Command m \<noteq> []"
    by (auto simp: sample_env_def sample_manifest_def split: if_splits)
  have args: "parse_flags daemon_flags ?args = Parsed [(''passwd'', StringValue ''joe:x''), (''enable'', BoolValue False)] []"
    by code_simp
  have "\<exists>ln h w. daemon_main sample_os () sample_env ?args ?w = Done (Running_daemon ln h w)"
  proof -
    let ?opt = "daemon_settings [(''passwd'', StringValue ''joe:x''), (''enable'', BoolValue False)]"
    have o: "do_logFile ?opt = []" "do_genpass ?opt = ''joe:x''" "do_passFile ?opt = []" by code_simp+
    have log: "open_logfile sample_env ?opt ?w = Inr ?w" by (simp add: open_logfile_def o)
    obtain h1 w1 where gen: "generate_password sample_env ?opt \<lparr>au_auth = False, au_passwd = [], au_name = do_name ?opt\<rparr> ?w =
        Inr (h1, w1)"
      by (simp add: generate_password_def o sample_env_def split2_def)
    have load: "load_passwords sample_env ?opt h1 w1 = Inr (h1, w1)"
      by (simp add: load_passwords_def o sample_env_def)
    have "all_ready ?w" using p by (simp add: all_ready_def new_world_def case_prod_beta)
    then have "inv w1" "managed w1 = []" "all_ready w1"
      using generate_password_prepared [OF gen] still_inv [where w = ?w and w' = w1, OF _ blank_inv [OF b(2,1)]]
        frame_managed [OF still_frame, of ?w w1]
      by (auto simp: prepared_def all_ready_def)
    moreover define files where "files = map (\<lambda>(s, f). let fname = path_Join [path_Join [do_dir ?opt, ''services''], f]
      in (s, fname, ev_Open sample_env fname)) [(0 :: sid, ''p.json''), (1, ''x'')]"
    moreover have "with_commands files" using cmds by (auto simp: files_def with_commands_def Let_def)
    ultimately obtain w2 where "daemon_start sample_os () (do_enable ?opt) files w1 = Done w2"
      using daemon_start_spec [of w1 files sample_os "()" "do_enable ?opt"] by (auto simp: files_def returns_iff Let_def)
    then have "scan_services sample_os () sample_env ?opt w1 = Done (Inr w2)"
      by (simp add: scan_services_def files_def sample_env_def del: list.map)
    then show ?thesis
      unfolding daemon_main_def args parsed_flags.case Let_def log gen load sum.case prod.case
      by (simp add: sample_listens)
  qed
  then obtain ln h w where r: "daemon_main sample_os () sample_env ?args ?w = Done (Running_daemon ln h w)" by blast
  have ln: "ln_addr (listener_of (daemon_settings [(''passwd'', StringValue ''joe:x''), (''enable'', BoolValue False)])) = ''127.0.0.1:8321''"
    by code_simp
  obtain vs rest w' where f: "parse_flags daemon_flags ?args = Parsed vs rest" "ln = listener_of (daemon_settings vs)"
      "do_genpass (daemon_settings vs) \<noteq> [] \<longrightarrow> au_auth h" "inv w" "daemon_signal sample_os w = Done (1, w')"
    using daemon_serves_as_told [where os = sample_os and k = "()" and args = ?args and c = int, OF d b p cmds]
    unfolding r outcome.inject by blast
  moreover have "do_genpass (daemon_settings [(''passwd'', StringValue ''joe:x''), (''enable'', BoolValue False)]) \<noteq> []"
    by code_simp
  moreover have "vs = [(''passwd'', StringValue ''joe:x''), (''enable'', BoolValue False)]"
    using f(1) unfolding args parsed_flags.inject by (elim conjE) (rule sym)
  ultimately show ?thesis using r ln by blast
qed

section \<open>The terminal interface\<close>

text \<open>
  C36. As long as the items can be loaded, the list of the main panel never indexes out of range,
  whatever keys are pressed and wherever the cursor goes: every cell can be drawn and every move
  of the cursor returns with a service of the list selected; whatever is selected is a service of the list, and an update keeps the
  selection on the service of that name, or drops it when the service is gone; exactly the line of the selected
  service is shown in reverse; and the four counts are those of the disabled, faulted, running and stopped services.
\<close>

theorem main_list_is_safe:
  assumes "main_run p"
  shows "(\<forall>x y. \<exists>ch lk rv. GetCell x y p = Done (ch, lk, rv) \<and>
      (rv \<longleftrightarrow> 0 \<le> y \<and> y < int (length (mp_items p)) \<and> map_option fst (mp_selected p) = Some (fst (mp_items p ! nat y)))) \<and>
    (\<forall>x y. \<exists>q. MoveCursor x y p = Done q \<and> (mp_items p \<noteq> [] \<longrightarrow> (\<exists>i \<in> set (mp_items p). mp_selected q = Some i))) \<and>
    (\<forall>i. mp_selected p = Some i \<longrightarrow> i \<in> set (mp_items p)) \<and>
    (\<forall>c items. case mp_selected (snd (main_update c items None p)) of
       None \<Rightarrow> \<not> (\<exists>sel i. mp_selected p = Some sel \<and> i \<in> set items \<and> se_Name (info_of i) = se_Name (info_of sel))
     | Some i \<Rightarrow> i \<in> set items \<and> (\<exists>sel. mp_selected p = Some sel \<and> se_Name (info_of i) = se_Name (info_of sel))) \<and>
    mp_ndisabled p = length (filter (\<lambda>i. \<not> se_Enabled (info_of i)) (mp_items p)) \<and>
    mp_nfailed p = length (filter (\<lambda>i. se_Enabled (info_of i) \<and> se_Failed (info_of i)) (mp_items p)) \<and>
    mp_nrunning p = length (filter (\<lambda>i. se_Enabled (info_of i) \<and> \<not> se_Failed (info_of i) \<and> se_Running (info_of i)) (mp_items p)) \<and>
    mp_nstopped p = length (filter (\<lambda>i. se_Enabled (info_of i) \<and> \<not> se_Failed (info_of i) \<and> \<not> se_Running (info_of i)) (mp_items p))"
proof -
  have ok: "main_ok p" "counts_ok p" using main_run_ok [OF assms] by simp_all
  have move: "\<exists>q. MoveCursor x y p = Done q \<and> (mp_items p \<noteq> [] \<longrightarrow> (\<exists>i \<in> set (mp_items p). mp_selected q = Some i))" for x y
    using updateCursor_spec [of "p\<lparr>mp_curx := mp_curx p + x, mp_cury := mp_cury p + y\<rparr>" True] ok(1)
    by (auto simp: MoveCursor_def main_ok_def returns_iff same_list_def)
  have cell: "\<exists>ch lk rv. GetCell x y p = Done (ch, lk, rv) \<and>
      (rv \<longleftrightarrow> 0 \<le> y \<and> y < int (length (mp_items p)) \<and> map_option fst (mp_selected p) = Some (fst (mp_items p ! nat y)))" for x y
    using GetCell_ok [OF ok(1), of x y] by (auto split: if_splits)
  have "main_look s = Normal \<longleftrightarrow> \<not> se_Enabled s" "main_look s = Error \<longleftrightarrow> se_Enabled s \<and> se_Failed s"
    "main_look s = Good \<longleftrightarrow> se_Enabled s \<and> \<not> se_Failed s \<and> se_Running s"
    "main_look s = Warn \<longleftrightarrow> se_Enabled s \<and> \<not> se_Failed s \<and> \<not> se_Running s" for s
    by (simp_all add: main_look_def)
  moreover have "\<forall>i. mp_selected p = Some i \<longrightarrow> i \<in> set (mp_items p)" using ok(1) by (simp add: main_ok_def)
  ultimately show ?thesis using ok(2) move cell main_update_selected [where p = p] by (simp only: counts_ok_def) blast
qed

lemma main_list_is_safe_witness:
  "\<exists>p ch lk. main_run p \<and> mp_items p = [(0, sample_entry ''a'' True)] \<and> GetCell 0 0 p = Done (ch, lk, False) \<and>
    mp_nfailed p = 1"
proof -
  let ?p = "snd (main_update (\<lambda>_. 0) [(0, sample_entry ''a'' True)] None (NewMainPanel ''u''))"
  have r: "main_run ?p" by (rule run_update [OF run_new])
  have "mp_items ?p = [(0, sample_entry ''a'' True)]" "mp_selected ?p = None"
    by (simp_all add: main_update_def Let_def keep_selection_def NewMainPanel_def count_item_def split: look.split)
  with main_list_is_safe [OF r] r show ?thesis by (fastforce simp: sample_entry_def)
qed

text \<open>
  C37. When the items cannot be loaded any more (the server went away), the panel forgets the items
  but not the height of the list: the next move of the cursor panics; and when the server asks for
  a login instead, the lines stay and the next drawing of the list panics.
\<close>

theorem failed_update_breaks_the_list:
  assumes "main_run p" and "mp_items p \<noteq> []"
  shows "(\<forall>m. MoveCursor x y (snd (main_update c [] (Some (NetFailure m)) p)) = Panic IndexOutOfRange) \<and>
    (\<forall>msg. GetCell x' 0 (snd (main_update c [] (Some (RestFailure \<lparr>re_Code = 401, re_Message = msg\<rparr>)) p)) =
      Panic IndexOutOfRange)"
proof -
  have ok: "main_ok p" using main_run_ok [OF assms(1)] by simp
  let ?p = "keep_selection (p\<lparr>mp_items := []\<rparr>)"
  have p: "mp_items ?p = []" "mp_height ?p = mp_height p" "mp_lines ?p = mp_lines p" "mp_styles ?p = mp_styles p"
    by (subst keep_selection_frame, simp)+
  have n: "mp_selected ?p = None"
    using keep_selection_selected [of "p\<lparr>mp_items := []\<rparr>"] by (cases "mp_selected ?p") auto
  show ?thesis
    using ok assms(2) p n
    by (simp add: main_update_def Let_def MoveCursor_def updateCursor_def GetCell_def index_item_def main_ok_def)
qed

lemma failed_update_breaks_the_list_witness:
  "\<exists>p. main_run p \<and> MoveCursor 0 1 (snd (main_update (\<lambda>_. 0) [] (Some (NetFailure ''down'')) p)) = Panic IndexOutOfRange"
proof -
  let ?p = "snd (main_update (\<lambda>_. 0) [(0, sample_entry ''a'' True)] None (NewMainPanel ''u''))"
  have r: "main_run ?p" by (rule run_update [OF run_new])
  have "mp_items ?p \<noteq> []"
    by (simp add: main_update_def Let_def keep_selection_def NewMainPanel_def count_item_def split: look.split)
  from failed_update_breaks_the_list [OF r this] r show ?thesis by blast
qed

text \<open>
  C38. Whatever happens in the terminal interface, neither field of the login form grows beyond 256 characters, both are
  shown 16 wide, and the password field shows nothing but asterisks, the cursor, the mark of a
  text that is longer and blanks; what the next drawing shows of the password depends only on its length.
\<close>

theorem password_is_not_shown:
  assumes "app_run show_time show_stamp a"
  shows "length (ap_username (a_auth a)) \<le> 256 \<and> length (ap_password (a_auth a)) \<le> 256 \<and>
    length (ap_ufield (a_auth a)) = 16 \<and> length (ap_pfield (a_auth a)) = 16 \<and>
    set (ap_pfield (a_auth a)) \<subseteq> {CHR ''*'', CHR ''_'', CHR ''<'', CHR '' ''} \<and>
    (\<forall>p q. length p = length q \<longrightarrow> ap_pfield (auth_update ((a_auth a)\<lparr>ap_password := p\<rparr>)) =
      ap_pfield (auth_update ((a_auth a)\<lparr>ap_password := q\<rparr>)))"
proof -
  have "ap_pfield (auth_update ((a_auth a)\<lparr>ap_password := p\<rparr>)) = ap_pfield (auth_update ((a_auth a)\<lparr>ap_password := q\<rparr>))"
    if "length p = length q" for p q
    using that by (simp add: auth_update_def auth_fields_def Let_def map_replicate_const)
  then show ?thesis using app_run_form_ok [OF assms] unfolding form_ok_def by blast
qed

lemma password_is_not_shown_witness:
  "let d = app_Draw (\<lambda>_. []) (\<lambda>_. []) (\<lambda>_. 0) (post_items [] (Some (0, RestFailure \<lparr>re_Code = 401, re_Message = []\<rparr>))
      (fst (doUI (\<lambda>_. []) ''u'' True))) in
    ScreenAuth \<in> set (a_posted d) \<and> length (ap_pfield (a_auth (show_posted ScreenAuth d))) = 16"
proof -
  let ?a = "post_items [] (Some (0, RestFailure \<lparr>re_Code = 401, re_Message = []\<rparr>)) (fst (doUI (\<lambda>_. []) ''u'' True))"
  let ?d = "app_Draw (\<lambda>_. []) (\<lambda>_. []) (\<lambda>_. 0) ?a"
  have p: "ScreenAuth \<in> set (a_posted ?d)"
    by (simp add: app_Draw_def posted_defs new_app_defs GetItems_def main_update_def keep_selection_def NewMainPanel_def
        do_call_def ShowAuth_def)
  have "app_run (\<lambda>_. []) (\<lambda>_. []) (show_posted ScreenAuth ?d)"
    by (rule app_posted [OF app_draw [OF app_items [OF app_new]] p])
  from password_is_not_shown [OF this] p show ?thesis by simp
qed

text \<open>
  C39. Every key that is offered works: after the application has been drawn (with the items
  loaded, or another panel than the list shown), each word of the key bar names a key that the
  shown panel answers with a call, in every state the application can get into.
\<close>

theorem offered_keys_work:
  assumes "app_run show_time show_stamp a" and "a_err a = None \<or> a_panel a \<noteq> ScreenMain"
    and "w \<in> set (shown_keys (app_Draw show_time show_stamp c a))"
  shows "\<exists>call a'. app_HandleEvent (key_event w) (app_Draw show_time show_stamp c a) = Done (Some True, [call], a')"
proof -
  let ?d = "app_Draw show_time show_stamp c a"
  have key: "key_event w \<noteq> EventKey KeyCtrlC" "key_event w \<noteq> EventKey KeyCtrlL" by (simp_all add: key_event_def)
  have "\<exists>call a1. panel_event (key_event w) ?d = Done (Some True, [call], a1)"
  proof (cases "a_panel a")
    case ScreenMain
    let ?p = "snd (main_update c (a_items a) None (a_main a))"
    have "fst (main_update c (a_items a) None (a_main a)) = []" by (simp add: main_update_def Let_def)
    then have d: "?d = a\<lparr>a_main := ?p\<rparr>"
      using ScreenMain assms(2) by (simp add: app_Draw_def GetItems_def case_prod_beta)
    then have "w \<in> set (main_keys (mp_selected ?p))"
      using assms(3) ScreenMain by (simp add: shown_keys_def main_update_keys)
    then obtain call where "main_key (key_event w) ?p = Some call" "key_event w \<noteq> EventKey KeyEsc"
      using main_keys_handled by blast
    then show ?thesis using ScreenMain unfolding d by (simp add: panel_event_def main_HandleEvent_def)
  next
    case ScreenInfo
    let ?p = "info_update show_time (GetItem (ip_name (a_info a)) a) (a_info a)"
    have d: "?d = a\<lparr>a_info := ?p\<rparr>" using ScreenInfo by (simp add: app_Draw_def)
    have "info_keys_ok ?p" using app_run_info_keys [OF assms(1)] info_update_keys by blast
    then obtain call where "info_HandleEvent (key_event w) ?p = Some call"
      using info_keys_handled [of ?p w] assms(3) ScreenInfo unfolding d by (auto simp: shown_keys_def)
    then show ?thesis using ScreenInfo unfolding d by (simp add: panel_event_def)
  next
    case ScreenLog
    let ?p = "log_update show_stamp (GetItem (lp_name (a_log a)) a) (app_GetLog (lp_name (a_log a)) a) (a_log a)"
    have d: "?d = a\<lparr>a_log := ?p\<rparr>" using ScreenLog by (simp add: app_Draw_def)
    then obtain call where "log_HandleEvent (key_event w) ?p = Some call"
      using log_keys_handled [of w show_stamp "GetItem (lp_name (a_log a)) a" "app_GetLog (lp_name (a_log a)) a" "a_log a"] assms(3) ScreenLog by (auto simp: shown_keys_def)
    then show ?thesis using ScreenLog unfolding d by (simp add: panel_event_def)
  next
    case ScreenHelp
    then have "w = ''[ESC] Main''" using assms(3) by (simp add: shown_keys_def app_Draw_def help_update_def)
    then show ?thesis using ScreenHelp
      by (simp add: panel_event_def app_Draw_def help_HandleEvent_def key_events)
  next
    case ScreenAuth
    then have d: "?d = a\<lparr>a_auth := auth_update (a_auth a)\<rparr>" by (simp add: app_Draw_def)
    have "w = ''[ESC] Quit''" using assms(3) ScreenAuth app_run_auth_keys [OF assms(1)] unfolding d
      by (simp add: shown_keys_def auth_update_def Let_def case_prod_beta)
    then show ?thesis using ScreenAuth unfolding d
      by (simp add: panel_event_def auth_HandleEvent_def key_event_def)
  qed
  then show ?thesis using key by (auto simp: app_HandleEvent_def)
qed

lemma offered_keys_work_witness:
  "\<exists>call a'. app_HandleEvent (key_event ''[L] Log'')
    (app_Draw (\<lambda>_. []) (\<lambda>_. []) (\<lambda>_. 0) (fst (doUI (\<lambda>_. []) ''u'' True))) = Done (Some True, [call], a')"
proof (rule offered_keys_work [OF app_new])
  show "a_err (fst (doUI (\<lambda>_. []) ''u'' True)) = None \<or> a_panel (fst (doUI (\<lambda>_. []) ''u'' True)) \<noteq> ScreenMain"
    by (simp add: doUI_def app_Run_def app_show_def NewApp_def)
  show "''[L] Log'' \<in> set (shown_keys (app_Draw (\<lambda>_. []) (\<lambda>_. []) (\<lambda>_. 0) (fst (doUI (\<lambda>_. []) ''u'' True))))"
    by (simp add: shown_keys_def app_Draw_def doUI_def app_Run_def app_show_def NewApp_def GetItems_def main_update_def Let_def keep_selection_def
        NewMainPanel_def main_keys_def)
qed

text \<open>
  C40. Self-healing.  A round of the monitor returns, keeps the invariant and tends to every
  service: one that must restart, could run and has starts left runs at the end of the round, or
  its start was tried in the round and failed (or it had been left stopped before the round by a
  change of its rate limit).
\<close>

theorem monitor_tends_to_all:
  assumes "inv w" and "monitoring (mgr w)"
  shows "\<exists>f w'. monitor_round P w = Done (f, w') \<and> inv w' \<and> managed w' = managed w \<and> no_newly_stuck w w' \<and>
    (\<forall>u \<in> set (managed w). restart (svc w u) \<and> can_run w' u \<and> \<not> limited (svc w' u) \<longrightarrow>
      running (svc w' u) \<or> failed (svc w' u) \<and> starts (svc w u) < starts (svc w' u) \<or> stuck w u)"
proof -
  obtain f w' where m: "monitor_round P w = Done (f, w')" and k: "keeps w w'"
    and t: "\<forall>u \<in> set (managed w). tended w w' u"
    using monitor_round_spec [OF assms(1), of P] monitor_round_tends [OF assms, of P]
    by (auto simp: returns_iff)
  have "running (svc w' u) \<or> failed (svc w' u) \<and> starts (svc w u) < starts (svc w' u) \<or> stuck w u"
    if "u \<in> set (managed w)" "restart (svc w u)" "can_run w' u" "\<not> limited (svc w' u)" for u
  proof (cases "running (svc w' u)")
    case False
    then have "waiting w' u" using that keeps_inv [OF k] by (simp add: waiting_def)
    then have "starts (svc w u) < starts (svc w' u) \<or> stuck w u" "stuck w u \<or> failed (svc w' u)"
      using that(1,2) t k by (auto simp: tended_def stuck_waiting keeps_def no_newly_stuck_def)
    then show ?thesis by blast
  qed simp
  then show ?thesis using m k keeps_inv [OF k] by (auto simp: keeps_def)
qed

lemma monitor_tends_to_all_witness:
  "\<exists>w f w'. sample_running w \<and> monitor_round sample_provider (StartMonitoring w) = Done (f, w') \<and> inv w' \<and>
    managed w' = [2, 1, 0]"
proof -
  obtain w where w: "sample_running w" using sample_running by blast
  let ?w = "StartMonitoring w"
  have st: "still w ?w" by (rule monitoring_still(1))
  have i: "inv ?w" using still_inv [OF st] w by (simp add: sample_running_def)
  have "monitoring (mgr ?w)" by (simp add: StartMonitoring_def set_monitoring_def Let_def)
  moreover have "managed ?w = [2, 1, 0]"
    using frame_managed [OF still_frame [OF st]] w by (simp add: sample_running_def)
  ultimately show ?thesis using monitor_tends_to_all [OF i, of sample_provider] w by metis
qed

text \<open>
  C34. The monitor outlives its manager.  However many rounds the goroutine of a new manager makes, and whatever allowed
  operation (no negative rate limit, and a new pointer for a new service) runs in each of its pauses, a shutdown among them, it keeps the invariant, never panics
  and never ends, since nothing sets the flag that would end it.  The methods of the providers are taken to return.
\<close>

theorem monitor_outlives_the_manager:
  assumes "reachable P A (new_world name V c r) w" and "blank V" and "permutes_keys r"
    and "runs_operations P others"
  shows "\<exists>w'. monitor P others n w = Done (False, w') \<and> inv w'"
proof -
  have "inv w" by (rule reachable_inv [OF assms(1) blank_inv [OF assms(3,2)]])
  moreover have "\<not> cleanup (mgr w)" using reachable_cleanup [OF assms(1)] by simp
  ultimately show ?thesis
    using monitor_goes_on [OF assms(4), of w n] by (auto simp: returns_iff)
qed

lemma monitor_outlives_the_manager_witness:
  "\<exists>w w'. sample_running w \<and> monitor sample_provider (\<lambda>_. Shutdown sample_provider) 100 w = Done (False, w') \<and> inv w'"
proof -
  obtain w where w: "sample_running w" using sample_running by blast
  then have r: "reachable sample_provider gentle (new_world ''sample'' (\<lambda>_. service_defaults sample_provider db)
      int (\<lambda>_ ks. ks)) w"
    by (simp add: sample_running_def sample_start_def)
  have "\<exists>a. Shutdown sample_provider v = exec sample_provider a v \<and> allowed a v" for v
    by (rule exI [of _ OpShutdown]) simp
  then have "runs_operations sample_provider (\<lambda>_. Shutdown sample_provider)" by (simp add: runs_operations_def)
  from monitor_outlives_the_manager [where others = "\<lambda>_. Shutdown sample_provider" and n = 100, OF r _ _ this] w
  show ?thesis by (auto simp: blank_defaults permutes_keys_def)
qed

end
